(* ===== verification/Prelude.thy ===== *)
theory Prelude
  imports Main "HOL-Library.Word"
begin

unbundle bit_operations_syntax

text \<open>
  The prelude of the development: the containers and C strings that every component of the
  repository uses, with the interfaces (locales) under which their laws are used.

  \<^item> \<open>keyed_store\<close>: what the programs rely on of \<^verbatim>\<open>std::unordered_map\<close> and \<^verbatim>\<open>std::map\<close>
    (\<^verbatim>\<open>find\<close>, \<^verbatim>\<open>emplace\<close>/\<^verbatim>\<open>try_emplace\<close>, \<^verbatim>\<open>erase\<close>, in-place assignment and the set of keys),
    interpreted on association lists (\<open>um_find\<close>, \<open>um_emplace\<close>, ...).
  \<^item> \<open>codec\<close>: an encoder and a decoder that reads one value and returns the rest of the input;
    the round trip of a sequence of values is proved once, inside the locale.
  \<^item> \<open>safe_machine\<close>: a state machine driven by guarded events, with an invariant every event keeps.
  \<^item> C strings: \<open>cstr\<close> (up to the terminator), \<open>strtok\<close> tokens, decimal formatting.
\<close>

named_theorems um_simps "rewrite rules for the association-list maps"
named_theorems store_defs "definitions of the small state accessors and updates"

section \<open>Maps keyed by a value: the interface\<close>

locale keyed_store =
  fixes find :: "'m \<Rightarrow> 'k \<Rightarrow> 'v option"
    and emplace :: "'k \<Rightarrow> 'v \<Rightarrow> 'm \<Rightarrow> 'm"
    and assign :: "'k \<Rightarrow> 'v \<Rightarrow> 'm \<Rightarrow> 'm"
    and erase :: "'k \<Rightarrow> 'm \<Rightarrow> 'm"
    and keys :: "'m \<Rightarrow> 'k list"
    and wf :: "'m \<Rightarrow> bool"
  assumes find_emplace: "find (emplace k v m) k' = (if k' = k \<and> find m k = None then Some v else find m k')"
    and find_assign: "find (assign k v m) k' = (if k' = k \<and> find m k \<noteq> None then Some v else find m k')"
    and find_erase: "find (erase k m) k' = (if k' = k then None else find m k')"
    and keys_find: "k \<in> set (keys m) \<longleftrightarrow> find m k \<noteq> None"
    and wf_keys: "wf m \<longleftrightarrow> distinct (keys m)"
    and keys_assign: "keys (assign k v m) = keys m"
    and wf_emplace: "wf m \<Longrightarrow> wf (emplace k v m)"
    and wf_erase: "wf m \<Longrightarrow> wf (erase k m)"
begin

lemma emplace_present: "find m k = Some v \<Longrightarrow> find (emplace k v' m) = find m"
  by (auto simp: find_emplace)

lemma emplace_fresh: "find m k = None \<Longrightarrow> find (emplace k v m) = (find m)(k \<mapsto> v)"
  by (auto simp: find_emplace)

lemma erase_emplace_fresh: "find m k = None \<Longrightarrow> find (erase k (emplace k v m)) = find m"
  by (auto simp: find_emplace find_erase fun_eq_iff)

lemma keys_emplace: "set (keys (emplace k v m)) = insert k (set (keys m))"
  by (auto simp: keys_find find_emplace split: if_splits)

lemma keys_erase: "set (keys (erase k m)) = set (keys m) - {k}"
  by (auto simp: keys_find find_erase split: if_splits)

lemma wf_assign: "wf m \<Longrightarrow> wf (assign k v m)"
  by (simp add: wf_keys keys_assign)

end

subsection \<open>Association lists as \<^verbatim>\<open>std::unordered_map\<close>\<close>

type_synonym ('k, 'v) um = "('k \<times> 'v) list"

definition um_find :: "('k, 'v) um \<Rightarrow> 'k \<Rightarrow> 'v option" where
  "um_find m k = map_of m k"

definition um_keys :: "('k, 'v) um \<Rightarrow> 'k list" where
  "um_keys m = map fst m"

definition um_wf :: "('k, 'v) um \<Rightarrow> bool" where
  "um_wf m = distinct (um_keys m)"

text \<open>\<^verbatim>\<open>emplace\<close> and \<^verbatim>\<open>try_emplace\<close> leave the map alone when the key is there.\<close>

definition um_emplace :: "'k \<Rightarrow> 'v \<Rightarrow> ('k, 'v) um \<Rightarrow> ('k, 'v) um" where
  "um_emplace k v m = (case um_find m k of None \<Rightarrow> m @ [(k, v)] | Some _ \<Rightarrow> m)"

text \<open>A write through a reference to the mapped value.\<close>

definition um_assign :: "'k \<Rightarrow> 'v \<Rightarrow> ('k, 'v) um \<Rightarrow> ('k, 'v) um" where
  "um_assign k v m = map (\<lambda>(k', v'). if k' = k then (k', v) else (k', v')) m"

definition um_erase :: "'k \<Rightarrow> ('k, 'v) um \<Rightarrow> ('k, 'v) um" where
  "um_erase k m = filter (\<lambda>p. fst p \<noteq> k) m"

lemma um_find_emplace [um_simps]:
  "um_find (um_emplace k v m) k' = (if k' = k \<and> um_find m k = None then Some v else um_find m k')"
  by (auto simp: um_find_def um_emplace_def map_add_def split: option.splits)

lemma um_find_assign [um_simps]:
  "um_find (um_assign k v m) k' = (if k' = k \<and> um_find m k \<noteq> None then Some v else um_find m k')"
  unfolding um_find_def um_assign_def by (induction m) auto

lemma um_find_erase [um_simps]: "um_find (um_erase k m) k' = (if k' = k then None else um_find m k')"
  unfolding um_find_def um_erase_def by (induction m) auto

lemma um_keys_find: "k \<in> set (um_keys m) \<longleftrightarrow> um_find m k \<noteq> None"
  unfolding um_find_def um_keys_def by (induction m) auto

lemma um_keys_assign [um_simps]: "um_keys (um_assign k v m) = um_keys m"
  unfolding um_keys_def um_assign_def by (induction m) auto

lemma um_keys_emplace_eq:
  "um_keys (um_emplace k v m) = (if um_find m k = None then um_keys m @ [k] else um_keys m)"
  by (auto simp: um_emplace_def um_keys_def split: option.splits)

lemma um_wf_emplace [um_simps]: "um_wf m \<Longrightarrow> um_wf (um_emplace k v m)"
  by (auto simp: um_wf_def um_keys_emplace_eq um_keys_find)

lemma um_wf_erase [um_simps]: "um_wf m \<Longrightarrow> um_wf (um_erase k m)"
  by (auto simp: um_wf_def um_keys_def um_erase_def distinct_map_filter)

interpretation um: keyed_store um_find um_emplace um_assign um_erase um_keys um_wf
proof unfold_locales
qed (simp_all add: um_find_emplace um_find_assign um_find_erase um_keys_find um_keys_assign
      um_wf_emplace um_wf_erase, simp add: um_wf_def)

lemmas um_laws = um.find_emplace um.find_assign um.find_erase um.keys_find um.keys_emplace
  um.keys_erase um.keys_assign um.wf_assign um.wf_emplace um.wf_erase

lemma um_find_Nil [simp]: "um_find [] k = None"
  by (simp add: um_find_def)

lemma um_find_Cons [simp]: "um_find ((k, v) # m) k' = (if k' = k then Some v else um_find m k')"
  by (simp add: um_find_def)

lemma um_wf_Nil [simp]: "um_wf []"
  by (simp add: um_wf_def um_keys_def)

lemma um_find_in_set: "um_find m k = Some v \<Longrightarrow> (k, v) \<in> set m"
  by (simp add: um_find_def map_of_SomeD)

lemma um_in_set_find: "um_wf m \<Longrightarrow> (k, v) \<in> set m \<longleftrightarrow> um_find m k = Some v"
  by (simp add: um_wf_def um_keys_def um_find_def)

section \<open>Encoders and decoders\<close>

text \<open>
  A decoder consumes a prefix of the input and returns the value with the rest of it; \<open>None\<close>
  is a read past the end of the buffer. \<open>ok\<close> says which values the encoder can represent.
\<close>

locale codec =
  fixes enc :: "'a \<Rightarrow> 'b list"
    and dec :: "'b list \<Rightarrow> ('a \<times> 'b list) option"
    and ok :: "'a \<Rightarrow> bool"
  assumes dec_enc: "ok x \<Longrightarrow> dec (enc x @ rest) = Some (x, rest)"
begin

text \<open>Decoding \<open>n\<close> values in a row.\<close>

fun dec_many :: "nat \<Rightarrow> 'b list \<Rightarrow> ('a list \<times> 'b list) option" where
  "dec_many 0 bs = Some ([], bs)"
| "dec_many (Suc n) bs =
     (case dec bs of None \<Rightarrow> None
      | Some (x, bs') \<Rightarrow> map_option (\<lambda>(xs, r). (x # xs, r)) (dec_many n bs'))"

lemma dec_enc_nil: "ok x \<Longrightarrow> dec (enc x) = Some (x, [])"
  using dec_enc [of x "[]"] by simp

lemma dec_many_enc:
  "list_all ok xs \<Longrightarrow> dec_many (length xs) (concat (map enc xs) @ rest) = Some (xs, rest)"
  by (induction xs) (auto simp: dec_enc)

lemma enc_inj: "ok x \<Longrightarrow> ok y \<Longrightarrow> enc x = enc y \<Longrightarrow> x = y"
  using dec_enc_nil by (metis option.inject prod.inject)

lemma enc_prefix_free: "ok x \<Longrightarrow> ok y \<Longrightarrow> enc x @ r = enc y @ r' \<Longrightarrow> x = y \<and> r = r'"
  using dec_enc by (metis option.inject prod.inject)

end

section \<open>Machines driven by events\<close>

locale safe_machine =
  fixes guard :: "'s \<Rightarrow> 'e \<Rightarrow> bool"
    and nxt :: "'s \<Rightarrow> 'e \<Rightarrow> 's"
    and inv :: "'s \<Rightarrow> bool"
  assumes inv_step: "inv s \<Longrightarrow> guard s e \<Longrightarrow> inv (nxt s e)"
begin

fun admissible :: "'s \<Rightarrow> 'e list \<Rightarrow> bool" where
  "admissible s [] = True"
| "admissible s (e # es) = (guard s e \<and> admissible (nxt s e) es)"

lemma inv_run: "inv s \<Longrightarrow> admissible s es \<Longrightarrow> inv (foldl nxt s es)"
  by (induction es arbitrary: s) (auto intro: inv_step)

lemma admissible_append: "admissible s (xs @ ys) \<longleftrightarrow> admissible s xs \<and> admissible (foldl nxt s xs) ys"
  by (induction xs arbitrary: s) auto

end

section \<open>C strings and formatting\<close>

abbreviation NUL :: char where "NUL \<equiv> CHR 0x00"
abbreviation LF :: char where "LF \<equiv> CHR 0x0A"
abbreviation CR :: char where "CR \<equiv> CHR 0x0D"

text \<open>The C string that starts at the head of a buffer.\<close>

definition cstr :: "char list \<Rightarrow> string" where
  "cstr buf = takeWhile (\<lambda>c. c \<noteq> NUL) buf"

lemma cstr_terminated [simp]: "NUL \<notin> set s \<Longrightarrow> cstr (s @ NUL # r) = s"
  by (induction s) (auto simp: cstr_def)

lemma cstr_Nil [simp]: "cstr [] = []"
  by (simp add: cstr_def)

lemma cstr_Cons [simp]: "cstr (c # s) = (if c = NUL then [] else c # cstr s)"
  by (simp add: cstr_def)

lemma cstr_id: "NUL \<notin> set s \<Longrightarrow> cstr s = s"
  by (induction s) auto

lemma cstr_append_nuls: "cstr (b @ replicate n NUL) = cstr b"
  by (induction b) (auto simp: cstr_def)

lemma cstr_no_nul: "NUL \<notin> set (cstr b)"
  by (auto simp: cstr_def dest: set_takeWhileD)

text \<open>The tokens a loop of \<^verbatim>\<open>strtok_r\<close> calls returns: the maximal runs without a delimiter.\<close>

fun strtok_from :: "(char \<Rightarrow> bool) \<Rightarrow> string \<Rightarrow> string \<Rightarrow> string list" where
  "strtok_from d w [] = (if w = [] then [] else [w])"
| "strtok_from d w (c # cs) =
     (if d c then (if w = [] then strtok_from d [] cs else w # strtok_from d [] cs)
      else strtok_from d (w @ [c]) cs)"

definition strtok_all :: "string \<Rightarrow> string \<Rightarrow> string list" where
  "strtok_all delims s = strtok_from (\<lambda>c. c \<in> set delims) [] s"

lemma strtok_from_token:
  "t \<in> set (strtok_from d w s) \<Longrightarrow> \<forall>c \<in> set w. \<not> d c \<Longrightarrow>
     t \<noteq> [] \<and> (\<forall>c \<in> set t. \<not> d c) \<and> set t \<subseteq> set w \<union> set s"
  by (induction d w s rule: strtok_from.induct) (fastforce split: if_splits)+

lemma strtok_all_token:
  assumes "t \<in> set (strtok_all delims s)"
  shows "t \<noteq> []" and "set t \<inter> set delims = {}" and "set t \<subseteq> set s"
  using strtok_from_token [OF assms [unfolded strtok_all_def]] by auto

text \<open>Decimal output: \<^verbatim>\<open>%d\<close>, \<^verbatim>\<open>std::to_string\<close>, \<^verbatim>\<open>%03d\<close>, \<^verbatim>\<open>%-*s\<close> and \<^verbatim>\<open>%*s\<close>.\<close>

definition digit_char :: "nat \<Rightarrow> char" where
  "digit_char d = char_of (48 + d)"

fun show_nat :: "nat \<Rightarrow> string" where
  "show_nat n = (if n < 10 then [digit_char n] else show_nat (n div 10) @ [digit_char (n mod 10)])"

declare show_nat.simps [simp del]

definition show_int :: "int \<Rightarrow> string" where
  "show_int i = (if i < 0 then CHR ''-'' # show_nat (nat (- i)) else show_nat (nat i))"

definition fmt03 :: "nat \<Rightarrow> string" where
  "fmt03 n = (let s = show_nat n in replicate (3 - length s) (CHR ''0'') @ s)"

definition pad_right :: "nat \<Rightarrow> string \<Rightarrow> string" where
  "pad_right n s = s @ replicate (n - length s) (CHR '' '')"

definition pad_left :: "nat \<Rightarrow> string \<Rightarrow> string" where
  "pad_left n s = replicate (n - length s) (CHR '' '') @ s"

lemma length_pad_right [simp]: "length (pad_right n s) = max n (length s)"
  by (simp add: pad_right_def)

lemma length_pad_left [simp]: "length (pad_left n s) = max n (length s)"
  by (simp add: pad_left_def)

lemma show_nat_nonempty [simp]: "show_nat n \<noteq> []"
  by (subst show_nat.simps) simp

lemma length_show_nat: "n < 10 ^ Suc k \<Longrightarrow> length (show_nat n) \<le> Suc k"
proof (induction k arbitrary: n)
  case 0
  then show ?case by (subst show_nat.simps) simp
next
  case (Suc k)
  have "length (show_nat (n div 10)) \<le> Suc k"
    using Suc.prems by (intro Suc.IH) (simp add: less_mult_imp_div_less mult.commute)
  then show ?case by (subst show_nat.simps) simp
qed

end
