(* ===== verification/IrcMsg.thy ===== *)
theory IrcMsg
  imports Prelude
begin

text \<open>
  The message layer of the IRC server (\<^verbatim>\<open>Homework/1/mircd\<close>): the reply and error numbers of
  \<^verbatim>\<open>include/enums.hpp\<close>, the message types of \<^verbatim>\<open>include/utils.hpp\<close>, and from \<^verbatim>\<open>src/utils.cpp\<close>
  the welcome text, the formatting of \<^verbatim>\<open>sendcmds\<close> and the command parser \<^verbatim>\<open>parse\<close>, which works in
  place on a copy of the line. The parser is modelled with its buffer and indices and proved
  equal to a recursive reference (\<open>split_line\<close>).
\<close>

section \<open>Numeric replies\<close>

datatype RPL = WELCOME | LUSERCLIENT | LISTSTART | LIST | LISTEND | NOTOPIC | TOPIC | NAMREPLY
  | ENDOFNAMES | MOTD | MOTDSTART | ENDOFMOTD | USERSSTART | USERS | ENDOFUSERS

datatype ERR = NOSUCHNICK | NOSUCHCHANNEL | NOORIGIN | NORECIPIENT | NOTEXTTOSEND
  | UNKNOWNCOMMAND | NONICKNAMEGIVEN | ERRONEUSNICKNAME | NICKCOLLISION | NOTONCHANNEL
  | NOTREGISTERED | NEEDMOREPARAMS | ALREADYREGISTRED

fun rpl :: "RPL \<Rightarrow> nat" where
  "rpl WELCOME = 1"
| "rpl LUSERCLIENT = 251"
| "rpl LISTSTART = 321"
| "rpl LIST = 322"
| "rpl LISTEND = 323"
| "rpl NOTOPIC = 331"
| "rpl TOPIC = 332"
| "rpl NAMREPLY = 353"
| "rpl ENDOFNAMES = 366"
| "rpl MOTD = 372"
| "rpl MOTDSTART = 375"
| "rpl ENDOFMOTD = 376"
| "rpl USERSSTART = 392"
| "rpl USERS = 393"
| "rpl ENDOFUSERS = 394"

fun err :: "ERR \<Rightarrow> nat" where
  "err NOSUCHNICK = 401"
| "err NOSUCHCHANNEL = 403"
| "err NOORIGIN = 409"
| "err NORECIPIENT = 411"
| "err NOTEXTTOSEND = 412"
| "err UNKNOWNCOMMAND = 421"
| "err NONICKNAMEGIVEN = 431"
| "err ERRONEUSNICKNAME = 432"
| "err NICKCOLLISION = 436"
| "err NOTONCHANNEL = 442"
| "err NOTREGISTERED = 451"
| "err NEEDMOREPARAMS = 461"
| "err ALREADYREGISTRED = 462"

text \<open>\<^verbatim>\<open>CMD\<close> is \<^verbatim>\<open>std::variant<std::string, int>\<close>; the numbers sent are never negative.\<close>

datatype CMD = CStr string | CNum nat

type_synonym argv_t = "string list"
type_synonym CMD_MSG = "CMD \<times> argv_t"
type_synonym CMD_MSGS = "CMD_MSG list"

datatype EVENT = DISCONNECT

section \<open>The welcome text\<close>

definition WELCOME_CMDS :: CMD_MSGS where
  "WELCOME_CMDS =
    [ (CNum (rpl WELCOME), [''Welcome to the minimized IRC daemon!'']),
      (CNum (rpl LUSERCLIENT), [''There are ? users and ? invisible on ? servers'']),
      (CNum (rpl MOTDSTART), [''-  Hello, World!                       '']),
      (CNum (rpl MOTDSTART), [''-               @                    _ '']),
      (CNum (rpl MOTDSTART), [''-   ____  ___   _   _ _   ____.     | |'']),
      (CNum (rpl MOTDSTART), [''-  /  _ `'' @ [CHR 0x27] @ ''_  '' @ [CHR 0x5C] @ '' | | | '' @ [CHR 0x27] @
         ''_/ /  __|  ___| |'']),
      (CNum (rpl MOTDSTART), [''-  | | | | | | | | | |   | |    /  _  |'']),
      (CNum (rpl MOTDSTART), [''-  | | | | | | | | | |   | |__  | |_| |'']),
      (CNum (rpl MOTDSTART), [''-  |_| |_| |_| |_| |_|   '' @ [CHR 0x5C] @ ''____| '' @ [CHR 0x5C] @
         ''___,_|'']),
      (CNum (rpl MOTDSTART), [''-  minimized internet relay chat daemon'']),
      (CNum (rpl MOTDSTART), [''-                                      '']),
      (CNum (rpl ENDOFMOTD), [''End of message of the day'']) ]"

section \<open>Formatting\<close>

text \<open>The loop over the parameters: a colon before the last one.\<close>

fun fmt_params :: "argv_t \<Rightarrow> string" where
  "fmt_params [] = []"
| "fmt_params [x] = '' :'' @ x"
| "fmt_params (x # y # xs) = '' '' @ x @ fmt_params (y # xs)"

text \<open>One iteration of the loop of \<^verbatim>\<open>sendcmds\<close>; \<open>shownick\<close> is the local variable.\<close>

fun fmt_msg :: "string \<Rightarrow> CMD_MSG \<Rightarrow> string" where
  "fmt_msg nick (CStr c, msg) =
     (let shownick = (nick = [])
      in '':'' @ (if nick \<noteq> [] then nick else []) @ '' '' @ c
         @ (if shownick \<and> nick \<noteq> [] then '' '' @ nick else []) @ fmt_params msg @ [LF])"
| "fmt_msg nick (CNum n, msg) =
     (let shownick = True
      in fmt03 n @ (if shownick \<and> nick \<noteq> [] then '' '' @ nick else []) @ fmt_params msg @ [LF])"

text \<open>The buffer \<^verbatim>\<open>sendcmds\<close> builds and passes to \<^verbatim>\<open>sendstr\<close>.\<close>

definition fmt_cmds :: "CMD_MSGS \<Rightarrow> string \<Rightarrow> string" where
  "fmt_cmds cmds nick = concat (map (fmt_msg nick) cmds)"

lemma fmt_cmds_Cons: "fmt_cmds (m # ms) nick = fmt_msg nick m @ fmt_cmds ms nick"
  by (simp add: fmt_cmds_def)

lemma fmt_cmds_append: "fmt_cmds (ms @ ms') nick = fmt_cmds ms nick @ fmt_cmds ms' nick"
  by (simp add: fmt_cmds_def)

text \<open>\<^verbatim>\<open>char tmp[4]\<close> holds three digits and the terminator.\<close>

definition tmp_size :: nat where
  "tmp_size = 4"

lemma length_show_nat_999: "n < 1000 \<Longrightarrow> length (show_nat n) \<le> 3"
proof -
  assume "n < 1000"
  then have "n div 10 < 100" and "n div 10 div 10 < 10" by linarith+
  then show ?thesis
    by (subst show_nat.simps, subst show_nat.simps, subst show_nat.simps) auto
qed

lemma length_fmt03: "n < 1000 \<Longrightarrow> length (fmt03 n) = 3"
  using length_show_nat_999 [of n] by (simp add: fmt03_def Let_def)

lemma rpl_bound: "rpl r < 1000"
  by (cases r) simp_all

lemma err_bound: "err e < 1000"
  by (cases e) simp_all

section \<open>The command parser\<close>

text \<open>\<^verbatim>\<open>while (size and (buf[size-1] == '\r' or buf[size-1] == '\n')) size--\<close>\<close>

fun trim_crlf :: "char list \<Rightarrow> nat \<Rightarrow> nat" where
  "trim_crlf buf 0 = 0"
| "trim_crlf buf (Suc n) = (if buf ! n = CR \<or> buf ! n = LF then trim_crlf buf n else Suc n)"

text \<open>The loop over \<open>i\<close>, with the start \<open>j\<close> of the current word and the words found so far.\<close>

function parse_loop :: "char list \<Rightarrow> nat \<Rightarrow> nat \<Rightarrow> nat \<Rightarrow> argv_t \<Rightarrow> argv_t" where
  "parse_loop buf sz i j cmds =
    (if i \<le> sz then
       (if buf ! i = CHR '' '' \<or> buf ! i = CHR '':'' \<or> buf ! i = NUL then
          let iscolon = (buf ! i = CHR '':'');
              buf' = buf[i := NUL];
              cmds' = (if buf' ! j \<noteq> NUL then cmds @ [cstr (drop j buf')] else cmds);
              j' = i + 1
          in if iscolon then cmds' @ [cstr (drop j' buf')]
             else parse_loop buf' sz (i + 1) j' cmds'
        else parse_loop buf sz (i + 1) j cmds)
     else cmds)"
  by pat_completeness auto
termination
  by (relation "measure (\<lambda>(buf, sz, i, j, cmds). sz + 1 - i)") auto

declare parse_loop.simps [simp del]

definition parse :: "string \<Rightarrow> nat \<Rightarrow> argv_t" where
  "parse line sz =
    (let buf = cstr line @ [NUL]; sz' = trim_crlf buf sz
     in parse_loop (buf[sz' := NUL]) sz' 0 0 [])"

subsection \<open>The reference: a recursive splitter\<close>

definition word :: "string \<Rightarrow> argv_t" where
  "word w = (if w = [] then [] else [w])"

fun split_line :: "string \<Rightarrow> string \<Rightarrow> argv_t" where
  "split_line w [] = word w"
| "split_line w (c # cs) =
     (if c = CHR '' '' then word w @ split_line [] cs
      else if c = CHR '':'' then word w @ [cs]
      else split_line (w @ [c]) cs)"

text \<open>What the parser should see: the line without its trailing line-break characters.\<close>

definition rstrip :: "string \<Rightarrow> string" where
  "rstrip s = rev (dropWhile (\<lambda>c. c = CR \<or> c = LF) (rev s))"

definition plain :: "string \<Rightarrow> bool" where
  "plain w = list_all (\<lambda>c. c \<noteq> CHR '' '' \<and> c \<noteq> CHR '':'' \<and> c \<noteq> NUL) w"

lemma plain_Nil [simp]: "plain []"
  by (simp add: plain_def)

lemma plain_append [simp]: "plain (u @ v) \<longleftrightarrow> plain u \<and> plain v"
  by (simp add: plain_def)

lemma plain_Cons [simp]: "plain (c # w) \<longleftrightarrow> c \<noteq> CHR '' '' \<and> c \<noteq> CHR '':'' \<and> c \<noteq> NUL \<and> plain w"
  by (auto simp: plain_def)

lemma plain_no_nul: "plain w \<Longrightarrow> NUL \<notin> set w"
  by (auto simp: plain_def list_all_iff)

lemma trim_crlf_eq: "trim_crlf (s @ r) (length s) = length (rstrip s)"
proof (induction s arbitrary: r rule: rev_induct)
  case Nil
  then show ?case by (simp add: rstrip_def)
next
  case (snoc x xs)
  have "trim_crlf (xs @ (x # r)) (length xs) = length (rstrip xs)"
    by (rule snoc.IH)
  then show ?case
    by (simp add: rstrip_def nth_append)
qed

lemma rstrip_take: "take (length (rstrip s)) s = rstrip s"
  by (metis append_eq_conv_conj rev_append rev_rev_ident rstrip_def takeWhile_dropWhile_id)

text \<open>The loop's state against the reference: \<open>pre\<close> is done, \<open>w\<close> is the word being read.\<close>

lemma parse_loop_end: "sz < i \<Longrightarrow> parse_loop buf sz i j cmds = cmds"
  by (subst parse_loop.simps) simp

lemma word_at:
  assumes "plain w"
  shows "(if (pre @ w @ NUL # r) ! length pre \<noteq> NUL
          then cmds @ [cstr (drop (length pre) (pre @ w @ NUL # r))] else cmds) = cmds @ word w"
  using assms plain_no_nul [OF assms] by (cases w) (auto simp: word_def)

lemma parse_loop_sep:
  assumes "plain w" and "c = CHR '' '' \<or> c = CHR '':'' \<or> c = NUL"
    and "length pre + length w \<le> sz"
  shows "parse_loop (pre @ w @ c # r) sz (length pre + length w) (length pre) cmds =
    (let cmds' = cmds @ word w
     in if c = CHR '':'' then cmds' @ [cstr r]
        else parse_loop (pre @ w @ NUL # r) sz (length pre + length w + 1) (length pre + length w + 1) cmds')"
proof -
  have at: "(pre @ w @ c # r) ! (length pre + length w) = c"
    by (simp add: nth_append)
  have upd: "(pre @ w @ c # r)[length pre + length w := NUL] = pre @ w @ NUL # r"
    by (simp add: list_update_append)
  have rest: "drop (Suc (length pre + length w)) (pre @ w @ NUL # r) = r"
    by simp
  show ?thesis
    using assms by (subst parse_loop.simps) (simp add: at upd rest Let_def word_at)
qed

lemma parse_loop_split:
  "plain w \<Longrightarrow> NUL \<notin> set rest \<Longrightarrow> sz = length pre + length w + length rest \<Longrightarrow>
   parse_loop (pre @ w @ rest @ NUL # tail) sz (length pre + length w) (length pre) cmds
     = cmds @ split_line w rest"
proof (induction rest arbitrary: pre w cmds)
  case Nil
  then show ?case
    using parse_loop_sep [of w NUL pre sz tail cmds] by (simp add: Let_def parse_loop_end)
next
  case (Cons c cs)
  let ?r = "cs @ NUL # tail"
  show ?case
  proof (cases "c = CHR '' '' \<or> c = CHR '':''")
    case True
    have "parse_loop (pre @ w @ c # ?r) sz (length pre + length w) (length pre) cmds =
        (let cmds' = cmds @ word w
         in if c = CHR '':'' then cmds' @ [cstr ?r]
            else parse_loop (pre @ w @ NUL # ?r) sz (length pre + length w + 1) (length pre + length w + 1) cmds')"
      using Cons.prems True by (intro parse_loop_sep) auto
    moreover have "parse_loop (pre @ w @ NUL # ?r) sz (length pre + length w + 1)
        (length pre + length w + 1) (cmds @ word w) = (cmds @ word w) @ split_line [] cs"
      using Cons.IH [of "[]" "pre @ w @ [NUL]" "cmds @ word w"] Cons.prems by simp
    ultimately show ?thesis
      using True Cons.prems by (auto simp: Let_def)
  next
    case False
    have "parse_loop (pre @ (w @ [c]) @ cs @ NUL # tail) sz (length pre + length (w @ [c])) (length pre) cmds
        = cmds @ split_line (w @ [c]) cs"
      by (rule Cons.IH) (use Cons.prems False in auto)
    then show ?thesis
      using Cons.prems False by (subst parse_loop.simps) (auto simp: nth_append)
  qed
qed

lemma set_rstrip: "set (rstrip s) \<subseteq> set s"
  by (auto simp: rstrip_def dest: set_dropWhileD)

lemma length_rstrip: "length (rstrip s) \<le> length s"
  using length_dropWhile_le [of _ "rev s"] by (simp add: rstrip_def)

lemma split_rstrip: "\<exists>tail. s @ [NUL] = rstrip s @ tail \<and> tail \<noteq> []"
proof -
  have "s @ [NUL] = rstrip s @ (drop (length (rstrip s)) s @ [NUL])"
    by (metis append_assoc append_take_drop_id rstrip_take)
  then show ?thesis by blast
qed

lemma parse_eq_split:
  assumes "NUL \<notin> set s"
  shows "parse s (length s) = split_line [] (rstrip s)"
proof -
  have c: "cstr s = s"
    using assms by (rule cstr_id)
  obtain tail where tail: "s @ [NUL] = rstrip s @ tail" "tail \<noteq> []"
    using split_rstrip by blast
  then obtain x tail' where x: "tail = x # tail'" by (cases tail) auto
  have "(s @ [NUL])[length (rstrip s) := NUL] = rstrip s @ NUL # tail'"
    using tail x by (simp add: list_update_append)
  moreover have "NUL \<notin> set (rstrip s)"
    using assms set_rstrip by blast
  ultimately show ?thesis
    using parse_loop_split [of "[]" "rstrip s" "length (rstrip s)" "[]" tail' "[]"]
    by (simp add: parse_def c trim_crlf_eq Let_def)
qed

text \<open>A faster equation for evaluation.\<close>

lemma parse_code [code]:
  "parse s n = (if n = length s \<and> NUL \<notin> set s then split_line [] (rstrip s)
     else let buf = cstr s @ [NUL]; sz' = trim_crlf buf n in parse_loop (buf[sz' := NUL]) sz' 0 0 [])"
  using parse_eq_split by (simp add: parse_def)

text \<open>
  C4. The in-place parser of \<^verbatim>\<open>utils.cpp\<close> computes the reference splitter: it drops trailing
  line breaks, splits at spaces, skips empty words, and takes everything after the first colon
  (wherever it stands) as the last parameter.
\<close>

theorem parse_correct:
  assumes "NUL \<notin> set s"
  shows "parse s (length s) = split_line [] (rstrip s)"
  using assms by (rule parse_eq_split)

theorem parse_correct_witness:
  "parse ''TOPIC #c :hi there'' (length ''TOPIC #c :hi there'') = [''TOPIC'', ''#c'', ''hi there'']"
  by (subst parse_correct) (simp_all add: rstrip_def word_def)

subsection \<open>Round trip with the command line format\<close>

text \<open>A command line as a client writes it: words, then the last parameter after a colon.\<close>

fun unwords :: "argv_t \<Rightarrow> string" where
  "unwords [] = []"
| "unwords (w # ws) = w @ '' '' @ unwords ws"

lemma split_line_plain: "plain v \<Longrightarrow> split_line w (v @ r) = split_line (w @ v) r"
  by (induction v arbitrary: w) auto

lemma split_line_unwords:
  "list_all (\<lambda>w. plain w \<and> w \<noteq> []) ws \<Longrightarrow> split_line [] (unwords ws @ '':'' @ t) = ws @ [t]"
  by (induction ws) (auto simp: split_line_plain word_def)

lemma split_line_words:
  "list_all (\<lambda>w. plain w \<and> w \<noteq> []) ws \<Longrightarrow> split_line [] (unwords ws) = ws"
  by (induction ws) (auto simp: split_line_plain word_def)

lemma rstrip_id: "s \<noteq> [] \<Longrightarrow> last s \<noteq> CR \<Longrightarrow> last s \<noteq> LF \<Longrightarrow> rstrip s = s"
  by (cases s rule: rev_cases) (auto simp: rstrip_def)

lemma nul_unwords: "list_all (\<lambda>w. plain w \<and> w \<noteq> []) ws \<Longrightarrow> NUL \<notin> set (unwords ws)"
  by (induction ws) (auto dest: plain_no_nul)

text \<open>
  Round trip of the client's line format: words without spaces or colons, followed by a last
  parameter after a colon, which may hold anything but a terminator or a trailing line break,
  are parsed back to exactly those parameters.
\<close>

theorem parse_roundtrip:
  assumes "list_all (\<lambda>w. plain w \<and> w \<noteq> []) ws" and "NUL \<notin> set t"
    and "t = [] \<or> (last t \<noteq> CR \<and> last t \<noteq> LF)"
  shows "parse (unwords ws @ '':'' @ t) (length (unwords ws @ '':'' @ t)) = ws @ [t]"
proof -
  have "rstrip (unwords ws @ '':'' @ t) = unwords ws @ '':'' @ t"
    using assms(3) by (intro rstrip_id) auto
  then show ?thesis
    using assms nul_unwords [OF assms(1)]
    by (subst parse_eq_split) (auto simp: split_line_unwords [simplified])
qed

theorem parse_roundtrip_witness:
  "parse (unwords [''PRIVMSG'', ''#c''] @ '':'' @ ''a : b c'')
     (length (unwords [''PRIVMSG'', ''#c''] @ '':'' @ ''a : b c'')) = [''PRIVMSG'', ''#c''] @ [''a : b c'']"
  by (rule parse_roundtrip) simp_all

end
