(* ===== verification/IrcState.thy ===== *)
theory IrcState
  imports IrcMsg
begin

text \<open>
  The data of the IRC server and the operations of its classes: \<^verbatim>\<open>Client\<close> (\<^verbatim>\<open>src/client.cpp\<close>),
  \<^verbatim>\<open>Channel\<close> (\<^verbatim>\<open>src/channel.cpp\<close>) and \<^verbatim>\<open>Database\<close> (\<^verbatim>\<open>src/database.cpp\<close>).

  References. \<^verbatim>\<open>Database::nick_mp\<close> and \<^verbatim>\<open>Channel::users\<close> hold \<^verbatim>\<open>Client&\<close>, references to the nodes of
  \<^verbatim>\<open>Database::clients\<close>. A node has an identity of its own (\<open>oid\<close>, handed out by \<open>next_oid\<close>): erasing
  the client and accepting another connection on the same descriptor makes a new node, and the
  old references dangle. Following one is undefined behaviour, the outcome \<open>Undefined\<close>. Channels
  are never erased, so a \<^verbatim>\<open>Channel&\<close> is the channel's key in \<^verbatim>\<open>Database::channels\<close>.

  Output. \<open>sent\<close> is the sequence of \<^verbatim>\<open>send\<close> calls, each with its descriptor and bytes.

  Iteration order. The order in which an \<^verbatim>\<open>unordered_map\<close> is traversed is not fixed by the language:
  it is the parameter \<open>hash_order\<close>, of which \<open>fair_order\<close> says that each key is visited exactly once.
\<close>

section \<open>State\<close>

record Client =
  oid :: nat
  status :: "8 word"
  connfd :: int
  info :: string
  host :: string
  nickname :: string
  username :: string
  hostname :: string
  servername :: string
  realname :: string
  joined :: "(string, string) um"  \<comment> \<open>the member \<^verbatim>\<open>channels\<close>\<close>

record Channel =
  cname :: string  \<comment> \<open>the member \<^verbatim>\<open>name\<close>\<close>
  topic :: string
  users :: "(int, nat) um"

record Database =
  clients :: "(int, Client) um"
  nick_mp :: "(string, nat) um"
  channels :: "(string, Channel) um"
  next_oid :: nat
  sent :: "(int \<times> string) list"

record hash_order =
  fd_order :: "int list \<Rightarrow> int list"
  name_order :: "string list \<Rightarrow> string list"

definition fair_order :: "hash_order \<Rightarrow> bool" where
  "fair_order env \<longleftrightarrow>
     (\<forall>xs. set (fd_order env xs) = set xs \<and> length (fd_order env xs) = length xs) \<and>
     (\<forall>xs. set (name_order env xs) = set xs \<and> length (name_order env xs) = length xs)"

definition insertion_order :: hash_order where
  "insertion_order = \<lparr>fd_order = (\<lambda>xs. xs), name_order = (\<lambda>xs. xs)\<rparr>"

lemma fair_insertion_order: "fair_order insertion_order"
  by (simp add: fair_order_def insertion_order_def)

lemma fair_fds [simp]: "fair_order env \<Longrightarrow> set (fd_order env xs) = set xs"
  by (simp add: fair_order_def)

lemma fair_names [simp]: "fair_order env \<Longrightarrow> set (name_order env xs) = set xs"
  by (simp add: fair_order_def)

lemma fair_fds_distinct: "fair_order env \<Longrightarrow> distinct xs \<Longrightarrow> distinct (fd_order env xs)"
  by (metis card_distinct distinct_card fair_order_def)

text \<open>How a handler can end: normally, by one of the two kinds of C++ exception, or undefined.\<close>

datatype exn = Throw CMD_MSG | Event EVENT | Undefined

type_synonym outcome = "Database \<times> exn option"

text \<open>\<^verbatim>\<open>sendcmds\<close> and \<^verbatim>\<open>sendcmd\<close>: one call of \<^verbatim>\<open>send\<close> with the formatted text.\<close>

definition sendstr :: "int \<Rightarrow> string \<Rightarrow> Database \<Rightarrow> Database" where
  "sendstr fd buf s = s\<lparr>sent := sent s @ [(fd, buf)]\<rparr>"

definition sendcmds :: "int \<Rightarrow> CMD_MSGS \<Rightarrow> string \<Rightarrow> Database \<Rightarrow> Database" where
  "sendcmds fd cmds nick s = sendstr fd (fmt_cmds cmds nick) s"

definition sendcmd :: "int \<Rightarrow> CMD_MSG \<Rightarrow> string \<Rightarrow> Database \<Rightarrow> Database" where
  "sendcmd fd cmd nick s = sendcmds fd [cmd] nick s"

text \<open>A loop that sends the same message to a sequence of descriptors.\<close>

definition sendall :: "int list \<Rightarrow> CMD_MSG \<Rightarrow> string \<Rightarrow> Database \<Rightarrow> Database" where
  "sendall fds cmd nick s = foldl (\<lambda>t fd. sendcmd fd cmd nick t) s fds"

lemma sendall_eq:
  "sendall fds cmd nick s = s\<lparr>sent := sent s @ map (\<lambda>fd. (fd, fmt_cmds [cmd] nick)) fds\<rparr>"
  unfolding sendall_def
  by (induction fds arbitrary: s) (simp_all add: sendcmd_def sendcmds_def sendstr_def)

section \<open>Client\<close>

definition NICK :: "8 word" where "NICK = 1"
definition USER :: "8 word" where "USER = 2"
definition WELCOMED :: "8 word" where "WELCOMED = 4"
definition REGIST :: "8 word" where "REGIST = NICK OR USER"

definition new_client :: "nat \<Rightarrow> int \<Rightarrow> string \<Rightarrow> string \<Rightarrow> Client" where
  "new_client r fd i h = \<lparr>oid = r, status = 0, connfd = fd, info = i, host = h,
     nickname = [], username = [], hostname = [], servername = [], realname = [], joined = []\<rparr>"

definition hasRegist :: "Client \<Rightarrow> bool" where
  "hasRegist c \<longleftrightarrow> status c AND WELCOMED = WELCOMED"

definition canRegist :: "Client \<Rightarrow> bool" where
  "canRegist c \<longleftrightarrow> status c AND REGIST = REGIST"

definition hasNick :: "Client \<Rightarrow> bool" where
  "hasNick c \<longleftrightarrow> status c AND NICK = NICK"

text \<open>\<^verbatim>\<open>Client::regist\<close>: the updated client and the result.\<close>

definition regist :: "Client \<Rightarrow> Client \<times> bool" where
  "regist c = (if hasRegist c \<or> \<not> canRegist c then (c, False)
               else (c\<lparr>status := status c OR WELCOMED\<rparr>, True))"

definition isalpha :: "char \<Rightarrow> bool" where
  "isalpha c \<longleftrightarrow> (65 \<le> (of_char c :: nat) \<and> (of_char c :: nat) \<le> 90)
             \<or> (97 \<le> (of_char c :: nat) \<and> (of_char c :: nat) \<le> 122)"

definition valid_nick :: "string \<Rightarrow> bool" where
  "valid_nick n \<longleftrightarrow> n \<noteq> [] \<and> isalpha (hd n)"

text \<open>A write through a reference to a client, which is the node at its descriptor.\<close>

definition put_client :: "Client \<Rightarrow> Database \<Rightarrow> Database" where
  "put_client c s = s\<lparr>clients := um_assign (connfd c) c (clients s)\<rparr>"

definition changeNick :: "Client \<Rightarrow> string \<Rightarrow> Database \<Rightarrow> outcome" where
  "changeNick c nick s =
     (if nick = [] \<or> \<not> isalpha (nick ! 0)
      then (s, Some (Throw (CNum (err ERRONEUSNICKNAME), [nick, ''Erroneous nickname''])))
      else let s1 = (if hasNick c then sendcmd (connfd c) (CStr ''NICK'', [nick]) (nickname c) s else s)
           in (put_client (c\<lparr>status := status c OR NICK, nickname := nick\<rparr>) s1, None))"

definition client_in :: "Client \<Rightarrow> string \<Rightarrow> bool" where
  "client_in c nm \<longleftrightarrow> um_find (joined c) nm \<noteq> None"

definition client_join :: "Client \<Rightarrow> string \<Rightarrow> Client" where
  "client_join c nm = c\<lparr>joined := um_emplace nm nm (joined c)\<rparr>"

definition client_part :: "Client \<Rightarrow> string \<Rightarrow> Client" where
  "client_part c nm = c\<lparr>joined := um_erase nm (joined c)\<rparr>"

section \<open>Channel\<close>

definition default_part_msg :: string where
  "default_part_msg = ''Leave channel''"

definition valid_channel_name :: "string \<Rightarrow> bool" where
  "valid_channel_name nm \<longleftrightarrow> \<not> (nm = [] \<or> length nm > 50 \<or>
     (nm ! 0 \<noteq> CHR ''#'' \<and> nm ! 0 \<noteq> CHR ''&'' \<and> nm ! 0 \<noteq> CHR ''+''))"

text \<open>The constructor, which throws on a bad name.\<close>

definition new_channel :: "string \<Rightarrow> CMD_MSG + Channel" where
  "new_channel nm = (if valid_channel_name nm then Inr \<lparr>cname = nm, topic = [], users = []\<rparr>
     else Inl (CNum (err NOSUCHCHANNEL), [nm, ''No such channel'']))"

definition put_channel :: "Channel \<Rightarrow> Database \<Rightarrow> Database" where
  "put_channel ch s = s\<lparr>channels := um_assign (cname ch) ch (channels s)\<rparr>"

text \<open>Following a \<^verbatim>\<open>Client&\<close>: the node with that identity, \<open>None\<close> when it has been erased.\<close>

definition deref :: "Database \<Rightarrow> nat \<Rightarrow> Client option" where
  "deref s r = find (\<lambda>c. oid c = r) (map snd (clients s))"

definition member_fds :: "hash_order \<Rightarrow> Channel \<Rightarrow> int list" where
  "member_fds env ch = fd_order env (um_keys (users ch))"

definition channel_add :: "hash_order \<Rightarrow> Channel \<Rightarrow> Client \<Rightarrow> Database \<Rightarrow> Database" where
  "channel_add env ch c s =
     (let ch' = ch\<lparr>users := um_emplace (connfd c) (oid c) (users ch)\<rparr>
      in sendall (member_fds env ch') (CStr ''JOIN'', [cname ch']) (nickname c) (put_channel ch' s))"

text \<open>\<^verbatim>\<open>Channel::del\<close>: \<^verbatim>\<open>it->second.nickname\<close> is read before the loop and the erase.\<close>

definition channel_del :: "hash_order \<Rightarrow> Channel \<Rightarrow> int \<Rightarrow> string \<Rightarrow> Database \<Rightarrow> outcome" where
  "channel_del env ch fd msg s =
     (case um_find (users ch) fd of None \<Rightarrow> (s, Some Undefined)
      | Some r \<Rightarrow> (case deref s r of None \<Rightarrow> (s, Some Undefined)
         | Some u \<Rightarrow>
             (put_channel (ch\<lparr>users := um_erase fd (users ch)\<rparr>)
               (sendall (member_fds env ch) (CStr ''PART'', [cname ch, msg]) (nickname u) s), None)))"

definition changeTopic :: "hash_order \<Rightarrow> Channel \<Rightarrow> string \<Rightarrow> string \<Rightarrow> Database \<Rightarrow> Database" where
  "changeTopic env ch nick new_topic s =
     (let ch' = ch\<lparr>topic := new_topic\<rparr>
      in sendall (member_fds env ch') (CStr ''TOPIC'', [cname ch', topic ch']) nick (put_channel ch' s))"

definition gettopic :: "Channel \<Rightarrow> CMD_MSG" where
  "gettopic ch = (if topic ch = [] then (CNum (rpl NOTOPIC), [cname ch, ''No topic is set''])
                  else (CNum (rpl IrcMsg.TOPIC), [cname ch, topic ch]))"

text \<open>\<^verbatim>\<open>usersstr\<close> follows the reference of every member; a space before each name but the first
  non-empty prefix, as the test \<^verbatim>\<open>!str.empty()\<close> has it.\<close>

fun usersstr_loop :: "Database \<Rightarrow> (int, nat) um \<Rightarrow> int list \<Rightarrow> string \<Rightarrow> string option" where
  "usersstr_loop s us [] str = Some str"
| "usersstr_loop s us (fd # fds) str =
     (case um_find us fd of None \<Rightarrow> None
      | Some r \<Rightarrow> (case deref s r of None \<Rightarrow> None
         | Some u \<Rightarrow> usersstr_loop s us fds ((if str \<noteq> [] then str @ '' '' else str) @ nickname u)))"

definition usersstr :: "hash_order \<Rightarrow> Channel \<Rightarrow> Database \<Rightarrow> string option" where
  "usersstr env ch s = usersstr_loop s (users ch) (member_fds env ch) []"

definition getusers :: "hash_order \<Rightarrow> Channel \<Rightarrow> Database \<Rightarrow> CMD_MSGS option" where
  "getusers env ch s =
     (let fin = [(CNum (rpl ENDOFNAMES), [cname ch, ''End of /NAMES list''])]
      in if users ch \<noteq> []
         then map_option (\<lambda>str. (CNum (rpl NAMREPLY), [cname ch, str]) # fin) (usersstr env ch s)
         else Some fin)"

section \<open>Database\<close>

definition nickInUse :: "Database \<Rightarrow> string \<Rightarrow> bool" where
  "nickInUse s nick \<longleftrightarrow> um_find (nick_mp s) nick \<noteq> None"

text \<open>\<^verbatim>\<open>clients.find(fd)->second\<close>: undefined at \<^verbatim>\<open>end()\<close>.\<close>

definition getuser :: "Database \<Rightarrow> int \<Rightarrow> Client option" where
  "getuser s fd = um_find (clients s) fd"

definition hasChannel :: "Database \<Rightarrow> string \<Rightarrow> bool" where
  "hasChannel s nm \<longleftrightarrow> um_find (channels s) nm \<noteq> None"

text \<open>\<^verbatim>\<open>getchannel\<close> creates the channel when it is missing; the constructor may throw first.\<close>

definition getchannel :: "Database \<Rightarrow> string \<Rightarrow> CMD_MSG + (Database \<times> Channel)" where
  "getchannel s nm =
     (case um_find (channels s) nm of Some ch \<Rightarrow> Inr (s, ch)
      | None \<Rightarrow> (case new_channel nm of Inl e \<Rightarrow> Inl e
         | Inr ch \<Rightarrow> Inr (s\<lparr>channels := um_emplace nm ch (channels s)\<rparr>, ch)))"

end
