(* ===== verification/IrcController.thy ===== *)
theory IrcController
  imports IrcState
begin

text \<open>
  The command handlers of the IRC server (\<^verbatim>\<open>src/controller.cpp\<close>), one definition per handler, and
  the dispatcher \<^verbatim>\<open>Controller::call\<close>. A handler gets the client as it stood when it was called and
  returns the new database with the way it ended; what it changed before an exception stays, as
  in C++.
\<close>

section \<open>Connections\<close>

text \<open>\<^verbatim>\<open>try_emplace\<close> makes a node, with an identity of its own, when the descriptor has none.\<close>

definition client_add :: "int \<Rightarrow> string \<Rightarrow> string \<Rightarrow> Database \<Rightarrow> Database" where
  "client_add fd i h s =
     (case getuser s fd of Some _ \<Rightarrow> s
      | None \<Rightarrow> s\<lparr>clients := um_emplace fd (new_client (next_oid s) fd i h) (clients s),
                  next_oid := Suc (next_oid s)\<rparr>)"

definition client_del :: "int \<Rightarrow> Database \<Rightarrow> Database \<times> bool" where
  "client_del fd s =
     (case getuser s fd of None \<Rightarrow> (s, False)
      | Some c \<Rightarrow> (s\<lparr>clients := um_erase fd (clients s), nick_mp := um_erase (nickname c) (nick_mp s)\<rparr>, True))"

section \<open>Handlers\<close>

definition Controller_nick :: "hash_order \<Rightarrow> Client \<Rightarrow> argv_t \<Rightarrow> Database \<Rightarrow> outcome" where
  "Controller_nick env c argv s =
     (if argv = [] then (s, Some (Throw (CNum (err NONICKNAMEGIVEN), [''No nickname given''])))
      else let nn = argv ! 0 in
        if nickInUse s nn then (s, Some (Throw (CNum (err NICKCOLLISION), [nn, ''Nickname collision KILL''])))
        else let s1 = (if hasNick c then s\<lparr>nick_mp := um_erase (nickname c) (nick_mp s)\<rparr> else s);
                 s2 = s1\<lparr>nick_mp := um_emplace nn (oid c) (nick_mp s1)\<rparr>
             in changeNick c nn s2)"

definition Controller_user :: "hash_order \<Rightarrow> Client \<Rightarrow> argv_t \<Rightarrow> Database \<Rightarrow> outcome" where
  "Controller_user env c argv s =
     (if hasRegist c then (s, Some (Throw (CNum (err ALREADYREGISTRED), [''You may not reregister''])))
      else (put_client (c\<lparr>status := status c OR USER, username := argv ! 0, hostname := argv ! 1,
              servername := argv ! 2, realname := argv ! 3\<rparr>) s, None))"

definition Controller_quit :: "hash_order \<Rightarrow> Client \<Rightarrow> argv_t \<Rightarrow> Database \<Rightarrow> outcome" where
  "Controller_quit env c argv s = (s, Some (Event DISCONNECT))"

text \<open>The replies to NAMES; \<open>None\<close> when a dangling reference is followed.\<close>

fun names_loop :: "hash_order \<Rightarrow> Database \<Rightarrow> string list \<Rightarrow> CMD_MSGS \<Rightarrow> CMD_MSGS option" where
  "names_loop env s [] out = Some out"
| "names_loop env s (nm # nms) out =
     (case um_find (channels s) nm of None \<Rightarrow> None
      | Some ch \<Rightarrow> (case getusers env ch s of None \<Rightarrow> None
         | Some ms \<Rightarrow> names_loop env s nms (out @ ms)))"

definition Controller_names :: "hash_order \<Rightarrow> Client \<Rightarrow> argv_t \<Rightarrow> Database \<Rightarrow> outcome" where
  "Controller_names env c argv s =
     (if argv = []
      then (case names_loop env s (name_order env (um_keys (channels s))) [] of
              None \<Rightarrow> (s, Some Undefined)
            | Some out \<Rightarrow> (sendcmds (connfd c) out (nickname c) s, None))
      else (case getchannel s (argv ! 0) of Inl e \<Rightarrow> (s, Some (Throw e))
            | Inr (s1, ch) \<Rightarrow> (case getusers env ch s1 of None \<Rightarrow> (s1, Some Undefined)
               | Some out \<Rightarrow> (sendcmds (connfd c) out (nickname c) s1, None))))"

definition Controller_join :: "hash_order \<Rightarrow> Client \<Rightarrow> argv_t \<Rightarrow> Database \<Rightarrow> outcome" where
  "Controller_join env c argv s =
     (let nm = argv ! 0 in
      case getchannel s nm of Inl e \<Rightarrow> (s, Some (Throw e))
      | Inr (s1, ch) \<Rightarrow>
          let c' = client_join c (cname ch);
              s2 = channel_add env ch c' (put_client c' s1);
              s3 = sendcmd (connfd c') (gettopic ch) nm s2
          in Controller_names env c' [cname ch] s3)"

definition Controller_part :: "hash_order \<Rightarrow> Client \<Rightarrow> argv_t \<Rightarrow> Database \<Rightarrow> outcome" where
  "Controller_part env c argv s =
     (let nm = argv ! 0 in
      case um_find (channels s) nm of
        None \<Rightarrow> (s, Some (Throw (CNum (err NOSUCHCHANNEL), [nm, ''No such channel''])))
      | Some ch \<Rightarrow>
          if \<not> client_in c (cname ch)
          then (s, Some (Throw (CNum (err NOTONCHANNEL), [nm, ''You'' @ [CHR 0x27] @ ''re not on that channel''])))
          else let s1 = put_client (client_part c (cname ch)) s;
                   msg = (if length argv \<ge> 2 then argv ! 1 else default_part_msg)
               in channel_del env ch (connfd c) msg s1)"

definition Controller_topic :: "hash_order \<Rightarrow> Client \<Rightarrow> argv_t \<Rightarrow> Database \<Rightarrow> outcome" where
  "Controller_topic env c argv s =
     (let nm = argv ! 0 in
      case um_find (channels s) nm of
        None \<Rightarrow> (s, Some (Throw (CNum (err NOSUCHCHANNEL), [nm, ''No such channel''])))
      | Some ch \<Rightarrow>
          if \<not> client_in c (cname ch)
          then (s, Some (Throw (CNum (err NOTONCHANNEL), [nm, ''You'' @ [CHR 0x27] @ ''re not on that channel''])))
          else if length argv < 2 then (sendcmd (connfd c) (gettopic ch) (nickname c) s, None)
          else (changeTopic env ch (nickname c) (argv ! 1) s, None))"

text \<open>The body of the loop of LIST: a reply for each name that is a channel.\<close>

definition list_reply :: "Database \<Rightarrow> string \<Rightarrow> CMD_MSGS" where
  "list_reply s nm = (case um_find (channels s) nm of None \<Rightarrow> []
     | Some ch \<Rightarrow> [(CNum (rpl LIST), [cname ch, show_nat (length (users ch)), topic ch])])"

definition Controller_list :: "hash_order \<Rightarrow> Client \<Rightarrow> argv_t \<Rightarrow> Database \<Rightarrow> outcome" where
  "Controller_list env c argv s =
     (let nms = (if length argv > 0 then [argv ! 0] else name_order env (um_keys (channels s)));
          out = (CNum (rpl LISTSTART), [''Channel :Users  Name'']) # concat (map (list_reply s) nms)
                @ [(CNum (rpl LISTEND), [''End of LIST''])]
      in (sendcmds (connfd c) out (nickname c) s, None))"

definition Controller_privmsg :: "hash_order \<Rightarrow> Client \<Rightarrow> argv_t \<Rightarrow> Database \<Rightarrow> outcome" where
  "Controller_privmsg env c argv s =
     (if length argv < 1 then (s, Some (Throw (CNum (err NORECIPIENT), [''No recipient given (PRIVMSG)''])))
      else if length argv < 2 then (s, Some (Throw (CNum (err NOTEXTTOSEND), [''No text to send''])))
      else let nm = argv ! 0; txt = argv ! 1 in
        case um_find (channels s) nm of
          None \<Rightarrow> (s, Some (Throw (CNum (err NOSUCHNICK), [nm, ''No such nick/channel''])))
        | Some ch \<Rightarrow>
            (sendall (filter (\<lambda>fd. fd \<noteq> connfd c) (member_fds env ch))
               (CStr ''PRIVMSG'', [nm, txt]) (nickname c) s, None))"

definition Controller_ping :: "hash_order \<Rightarrow> Client \<Rightarrow> argv_t \<Rightarrow> Database \<Rightarrow> outcome" where
  "Controller_ping env c argv s =
     (if argv = [] then (s, Some (Throw (CNum (err NOORIGIN), [''No origin specified''])))
      else (sendstr (connfd c) (''PONG'' @ [LF]) s, None))"

subsection \<open>USERS and its buffer\<close>

definition users_mxname :: "Database \<Rightarrow> nat" where
  "users_mxname s = foldl (\<lambda>m p. max m (length (nickname (snd p)))) 6 (clients s)"

text \<open>\<^verbatim>\<open>size_t size = mxname + 1 + 8 + 1 + 11 + 1\<close>: the bytes allocated for a row.\<close>

definition users_bufsize :: "Database \<Rightarrow> nat" where
  "users_bufsize s = users_mxname s + 1 + 8 + 1 + 11 + 1"

text \<open>\<^verbatim>\<open>sprintf(buf, "%-*s %-8s %-21s", mxname, name, term, host)\<close> without the terminator.\<close>

definition users_row :: "nat \<Rightarrow> string \<Rightarrow> string \<Rightarrow> string \<Rightarrow> string" where
  "users_row mx nm trm hst = pad_right mx nm @ '' '' @ pad_right 8 trm @ '' '' @ pad_right 21 hst"

definition users_rows :: "hash_order \<Rightarrow> Database \<Rightarrow> (RPL \<times> string) list" where
  "users_rows env s =
     (IrcMsg.USERSSTART, users_row (users_mxname s) ''UserID'' ''Terminal'' ''Host'')
     # map (\<lambda>fd. case um_find (clients s) fd of
               Some u \<Rightarrow> (IrcMsg.USERS, users_row (users_mxname s) (nickname u) ''-'' (host u))
             | None \<Rightarrow> (IrcMsg.USERS, []))
         (fd_order env (um_keys (clients s)))"

text \<open>A row and its terminator that do not fit the buffer are written past its end.\<close>

definition Controller_users :: "hash_order \<Rightarrow> Client \<Rightarrow> argv_t \<Rightarrow> Database \<Rightarrow> outcome" where
  "Controller_users env c argv s =
     (if \<exists>(r, txt) \<in> set (users_rows env s). length txt + 1 > users_bufsize s
      then (s, Some Undefined)
      else (sendcmds (connfd c) (map (\<lambda>(r, txt). (CNum (rpl r), [txt])) (users_rows env s)) [] s, None))"

section \<open>Dispatch\<close>

definition unreg_allow :: "string list" where
  "unreg_allow = [''NICK'', ''USER'', ''QUIT'']"

type_synonym handler = "Client \<Rightarrow> argv_t \<Rightarrow> Database \<Rightarrow> outcome"

definition cmds :: "hash_order \<Rightarrow> (string, nat \<times> handler) um" where
  "cmds env =
    [ (''NICK'', 0, Controller_nick env),
      (''USER'', 4, Controller_user env),
      (''QUIT'', 0, Controller_quit env),
      (''JOIN'', 1, Controller_join env),
      (''PART'', 1, Controller_part env),
      (''TOPIC'', 1, Controller_topic env),
      (''NAMES'', 0, Controller_names env),
      (''LIST'', 0, Controller_list env),
      (''PRIVMSG'', 0, Controller_privmsg env),
      (''PING'', 0, Controller_ping env),
      (''USERS'', 0, Controller_users env) ]"

text \<open>The end of \<^verbatim>\<open>call\<close>: a client that has just sent both NICK and USER is welcomed.\<close>

definition finish_regist :: "int \<Rightarrow> Database \<Rightarrow> outcome" where
  "finish_regist fd s =
     (case getuser s fd of None \<Rightarrow> (s, Some Undefined)
      | Some c \<Rightarrow> (case regist c of
            (c', True) \<Rightarrow> (sendcmds fd WELCOME_CMDS (nickname c') (put_client c' s), None)
          | (c', False) \<Rightarrow> (s, None)))"

definition call :: "hash_order \<Rightarrow> int \<Rightarrow> argv_t \<Rightarrow> Database \<Rightarrow> outcome" where
  "call env fd argv s =
     (case argv of [] \<Rightarrow> (s, None)
      | cmd # args \<Rightarrow>
         (case um_find (cmds env) cmd of
            None \<Rightarrow> (s, Some (Throw (CNum (err UNKNOWNCOMMAND), [cmd, ''Unknown command''])))
          | Some (parm_min, fp) \<Rightarrow>
             (case getuser s fd of None \<Rightarrow> (s, Some Undefined)
              | Some c \<Rightarrow>
                 if \<not> hasRegist c \<and> cmd \<notin> set unreg_allow
                 then (s, Some (Throw (CNum (err NOTREGISTERED), [''You have not registered''])))
                 else if length args < parm_min
                 then (s, Some (Throw (CNum (err NEEDMOREPARAMS), [cmd, ''Not enough parameters''])))
                 else (case fp c args s of
                         (s', Some e) \<Rightarrow> (s', Some e)
                       | (s', None) \<Rightarrow> if \<not> hasRegist c then finish_regist fd s' else (s', None)))))"

end
