(* ===== verification/IrcServer.thy ===== *)
theory IrcServer
  imports IrcController
begin

text \<open>
  The event loop of the IRC server (\<^verbatim>\<open>src/server.cpp\<close>): accepting a client, reading its input and
  disconnecting it, over the database of the controller and the set of descriptors registered
  with epoll. The kernel decides what \<^verbatim>\<open>accept\<close> and \<^verbatim>\<open>read\<close> return; those values are the events.
  In a release build \<^verbatim>\<open>fail\<close> only prints, so a failed \<^verbatim>\<open>accept\<close> goes on with descriptor -1.
\<close>

record Server = Database +
  epfds :: "int list"

definition MAX_LINE :: nat where
  "MAX_LINE = 1024"

datatype event =
    Accept int string string  \<comment> \<open>what \<^verbatim>\<open>accept\<close> returned, and the peer's texts\<close>
  | Input int "char list"     \<comment> \<open>the bytes \<^verbatim>\<open>read\<close> delivered; none for end of file or an error\<close>

definition db :: "Server \<Rightarrow> Database" where
  "db s = Database.truncate s"

definition with_db :: "Server \<Rightarrow> Database \<Rightarrow> Server" where
  "with_db s d = Database.extend d \<lparr>epfds = epfds s\<rparr>"

definition init_server :: Server where
  "init_server = \<lparr>clients = [], nick_mp = [], channels = [], next_oid = 0, sent = [], epfds = []\<rparr>"

definition disconnect :: "int \<Rightarrow> Server \<Rightarrow> Server" where
  "disconnect fd s =
     (case client_del fd (db s) of
        (d, False) \<Rightarrow> s
      | (d, True) \<Rightarrow> (with_db s d)\<lparr>epfds := removeAll fd (epfds s)\<rparr>)"

definition handle_new_client :: "int \<Rightarrow> string \<Rightarrow> string \<Rightarrow> Server \<Rightarrow> Server" where
  "handle_new_client fd i h s =
     (let s1 = with_db s (client_add fd i h (db s))
      in if fd < 0 then s1 else s1\<lparr>epfds := epfds s1 @ [fd]\<rparr>)"

text \<open>One pass of the loop over the lines of a read, with its two catch clauses. The flag says
  that the pass was defined.\<close>

definition handle_line :: "hash_order \<Rightarrow> int \<Rightarrow> string \<Rightarrow> Server \<Rightarrow> Server \<times> bool" where
  "handle_line env fd token s =
     (case call env fd (parse token (length token)) (db s) of
        (d, None) \<Rightarrow> (with_db s d, True)
      | (d, Some (Throw cmd)) \<Rightarrow> (with_db s (sendcmd fd cmd [] d), True)
      | (d, Some (Event DISCONNECT)) \<Rightarrow> (disconnect fd (with_db s d), True)
      | (d, Some Undefined) \<Rightarrow> (with_db s d, False))"

fun handle_lines :: "hash_order \<Rightarrow> int \<Rightarrow> string list \<Rightarrow> Server \<Rightarrow> Server \<times> bool" where
  "handle_lines env fd [] s = (s, True)"
| "handle_lines env fd (t # ts) s =
     (case handle_line env fd t s of
        (s', True) \<Rightarrow> handle_lines env fd ts s'
      | (s', False) \<Rightarrow> (s', False))"

text \<open>The zeroed buffer after \<^verbatim>\<open>read\<close>; a read that fills it leaves no terminator, and
  \<^verbatim>\<open>strtok_r\<close> then runs past its end.\<close>

definition line_buf :: "char list \<Rightarrow> char list" where
  "line_buf bytes = bytes @ replicate (MAX_LINE - length bytes) NUL"

definition handle_client_input :: "hash_order \<Rightarrow> int \<Rightarrow> char list \<Rightarrow> Server \<Rightarrow> Server \<times> bool" where
  "handle_client_input env fd bytes s =
     (if bytes = [] then (disconnect fd s, True)
      else if NUL \<notin> set (line_buf bytes) then (s, False)
      else handle_lines env fd (strtok_all [CR, LF] (cstr (line_buf bytes))) s)"

definition server_step :: "hash_order \<Rightarrow> event \<Rightarrow> Server \<Rightarrow> Server \<times> bool" where
  "server_step env ev s =
     (case ev of Accept fd i h \<Rightarrow> (handle_new_client fd i h s, True)
      | Input fd bytes \<Rightarrow> handle_client_input env fd bytes s)"

text \<open>
  What the kernel guarantees: \<^verbatim>\<open>accept\<close> returns a descriptor that is not open or -1, epoll reports
  registered descriptors only, and \<^verbatim>\<open>read\<close> delivers at most the buffer's size.
\<close>

definition kernel_ok :: "Server \<Rightarrow> event \<Rightarrow> bool" where
  "kernel_ok s ev =
     (case ev of Accept fd i h \<Rightarrow> fd = -1 \<or> (0 \<le> fd \<and> fd \<notin> set (epfds s))
      | Input fd bytes \<Rightarrow> fd \<in> set (epfds s) \<and> length bytes \<le> MAX_LINE)"

text \<open>The states the server can reach by defined steps.\<close>

inductive reachable :: "Server \<Rightarrow> bool" where
  start: "reachable init_server"
| step: "reachable s \<Longrightarrow> fair_order env \<Longrightarrow> kernel_ok s ev \<Longrightarrow> server_step env ev s = (s', True)
    \<Longrightarrow> reachable s'"

end
