(* ===== verification/IrcInvariant.thy ===== *)
theory IrcInvariant
  imports IrcServer
begin

text \<open>
  The well-formedness invariant of the IRC database and what every operation does to it.

  \<open>wf_data\<close>: keys agree with the objects they hold, node identities are unique, the registration
  bits agree with the nickname, channel names are valid, a client's \<^verbatim>\<open>channels\<close> and the channels'
  \<^verbatim>\<open>users\<close> describe the same membership, and no reference points to a live node at another
  descriptor. \<open>refs_live\<close>, which disconnecting can break, says that no reference dangles.
  \<open>nick_wf\<close>, which a refused NICK can break, says that \<^verbatim>\<open>nick_mp\<close> lists exactly the nicknames in use.
\<close>

section \<open>Definitions\<close>

definition client_ok :: "int \<Rightarrow> nat \<Rightarrow> Client \<Rightarrow> bool" where
  "client_ok fd n c \<longleftrightarrow> connfd c = fd \<and> oid c < n
     \<and> (hasNick c \<longleftrightarrow> nickname c \<noteq> []) \<and> (nickname c \<noteq> [] \<longrightarrow> valid_nick (nickname c))
     \<and> (hasRegist c \<longrightarrow> canRegist c)"

definition channel_ok :: "string \<Rightarrow> nat \<Rightarrow> Channel \<Rightarrow> bool" where
  "channel_ok nm n ch \<longleftrightarrow> cname ch = nm \<and> valid_channel_name nm \<and> um_wf (users ch)
     \<and> (\<forall>fd r. um_find (users ch) fd = Some r \<longrightarrow> r < n)"

definition oids_unique :: "(int, Client) um \<Rightarrow> bool" where
  "oids_unique cs \<longleftrightarrow> (\<forall>fd c fd' c'. um_find cs fd = Some c \<longrightarrow> um_find cs fd' = Some c'
     \<longrightarrow> oid c = oid c' \<longrightarrow> fd = fd')"

definition refs_placed :: "(int, Client) um \<Rightarrow> (string, Channel) um \<Rightarrow> bool" where
  "refs_placed cs hs \<longleftrightarrow> (\<forall>nm ch fd r fd' c'. um_find hs nm = Some ch \<longrightarrow> um_find (users ch) fd = Some r
     \<longrightarrow> um_find cs fd' = Some c' \<longrightarrow> oid c' = r \<longrightarrow> fd' = fd)"

definition member :: "(string, Channel) um \<Rightarrow> string \<Rightarrow> int \<Rightarrow> nat \<Rightarrow> bool" where
  "member hs nm fd r \<longleftrightarrow> (case um_find hs nm of None \<Rightarrow> False | Some ch \<Rightarrow> um_find (users ch) fd = Some r)"

definition members_agree :: "(int, Client) um \<Rightarrow> (string, Channel) um \<Rightarrow> bool" where
  "members_agree cs hs \<longleftrightarrow> (\<forall>fd c nm. um_find cs fd = Some c
     \<longrightarrow> (client_in c nm \<longleftrightarrow> member hs nm fd (oid c)))"

definition wf_data :: "(int, Client) um \<Rightarrow> (string, Channel) um \<Rightarrow> nat \<Rightarrow> bool" where
  "wf_data cs hs n \<longleftrightarrow> um_wf cs \<and> um_wf hs
     \<and> (\<forall>fd c. um_find cs fd = Some c \<longrightarrow> client_ok fd n c)
     \<and> (\<forall>nm ch. um_find hs nm = Some ch \<longrightarrow> channel_ok nm n ch)
     \<and> oids_unique cs \<and> refs_placed cs hs \<and> members_agree cs hs"

definition db_wf :: "('a) Database_scheme \<Rightarrow> bool" where
  "db_wf s \<longleftrightarrow> wf_data (clients s) (channels s) (next_oid s)"

definition refs_live :: "('a) Database_scheme \<Rightarrow> bool" where
  "refs_live s \<longleftrightarrow> (\<forall>nm ch fd r. um_find (channels s) nm = Some ch \<longrightarrow> um_find (users ch) fd = Some r
     \<longrightarrow> (\<exists>c. um_find (clients s) fd = Some c \<and> oid c = r))"

definition nick_wf :: "('a) Database_scheme \<Rightarrow> bool" where
  "nick_wf s \<longleftrightarrow>
     (\<forall>fd c. um_find (clients s) fd = Some c \<longrightarrow> nickname c \<noteq> []
        \<longrightarrow> um_find (nick_mp s) (nickname c) = Some (oid c)) \<and>
     (\<forall>n r. um_find (nick_mp s) n = Some r
        \<longrightarrow> (\<exists>fd c. um_find (clients s) fd = Some c \<and> oid c = r \<and> nickname c = n \<and> n \<noteq> []))"

lemma wf_dataI:
  assumes "um_wf cs" and "um_wf hs"
    and "\<And>fd c. um_find cs fd = Some c \<Longrightarrow> client_ok fd n c"
    and "\<And>nm ch. um_find hs nm = Some ch \<Longrightarrow> channel_ok nm n ch"
    and "oids_unique cs" and "refs_placed cs hs" and "members_agree cs hs"
  shows "wf_data cs hs n"
  using assms unfolding wf_data_def by blast

lemma wf_dataD:
  assumes "wf_data cs hs n"
  shows "um_wf cs" and "um_wf hs"
    and "um_find cs fd = Some c \<Longrightarrow> client_ok fd n c"
    and "um_find hs nm = Some ch \<Longrightarrow> channel_ok nm n ch"
    and "oids_unique cs" and "refs_placed cs hs" and "members_agree cs hs"
  using assms unfolding wf_data_def by blast+

lemma refs_placedD:
  "refs_placed cs hs \<Longrightarrow> um_find hs nm = Some ch \<Longrightarrow> um_find (users ch) fd = Some (oid c)
    \<Longrightarrow> um_find cs fd' = Some c \<Longrightarrow> fd' = fd"
  unfolding refs_placed_def by blast

lemma members_agreeD:
  "members_agree cs hs \<Longrightarrow> um_find cs fd = Some c \<Longrightarrow> client_in c nm \<longleftrightarrow> member hs nm fd (oid c)"
  unfolding members_agree_def by blast

section \<open>The primitive updates keep the invariant\<close>

text \<open>A client is rewritten without touching its identity or its channels.\<close>

lemma wf_put_client:
  assumes wf: "wf_data cs hs n" and c: "um_find cs fd = Some c"
    and c': "oid c' = oid c" "joined c' = joined c" "client_ok fd n c'"
  shows "wf_data (um_assign fd c' cs) hs n"
proof (rule wf_dataI)
  note w = wf_dataD [OF wf]
  show "um_wf (um_assign fd c' cs)" using w(1) by (rule um.wf_assign)
  show "um_wf hs" by (rule w(2))
  show "\<And>fd' d. um_find (um_assign fd c' cs) fd' = Some d \<Longrightarrow> client_ok fd' n d"
    using w(3) c' by (auto simp: um_simps split: if_splits)
  show "\<And>nm ch. um_find hs nm = Some ch \<Longrightarrow> channel_ok nm n ch" by (rule w(4))
  show "oids_unique (um_assign fd c' cs)"
    using w(5) c c'(1) unfolding oids_unique_def by (auto simp: um_simps split: if_splits)
  show "refs_placed (um_assign fd c' cs) hs"
    using w(6) c c'(1) unfolding refs_placed_def by (auto simp: um_simps split: if_splits)
  show "members_agree (um_assign fd c' cs) hs"
    using w(7) c c'(1,2) unfolding members_agree_def
    by (auto simp: um_simps client_in_def split: if_splits)
qed

text \<open>A fresh channel.\<close>

lemma wf_new_channel:
  assumes wf: "wf_data cs hs n" and fresh: "um_find hs nm = None" and ok: "valid_channel_name nm"
  shows "wf_data cs (um_emplace nm \<lparr>cname = nm, topic = [], users = []\<rparr> hs) n"
proof (rule wf_dataI)
  note w = wf_dataD [OF wf]
  show "um_wf cs" by (rule w(1))
  show "um_wf (um_emplace nm \<lparr>cname = nm, topic = [], users = []\<rparr> hs)" using w(2) by (rule um.wf_emplace)
  show "\<And>fd c. um_find cs fd = Some c \<Longrightarrow> client_ok fd n c" by (rule w(3))
  show "\<And>m ch. um_find (um_emplace nm \<lparr>cname = nm, topic = [], users = []\<rparr> hs) m = Some ch \<Longrightarrow> channel_ok m n ch"
    using w(4) ok by (auto simp: um_simps channel_ok_def split: if_splits)
  show "oids_unique cs" by (rule w(5))
  show "refs_placed cs (um_emplace nm \<lparr>cname = nm, topic = [], users = []\<rparr> hs)"
    using w(6) unfolding refs_placed_def by (auto simp: um_simps split: if_splits)
  show "members_agree cs (um_emplace nm \<lparr>cname = nm, topic = [], users = []\<rparr> hs)"
    using w(7) fresh unfolding members_agree_def
    by (auto simp: um_simps member_def split: if_splits)
qed

text \<open>A channel is rewritten without touching its name or its members.\<close>

lemma wf_put_channel:
  assumes wf: "wf_data cs hs n" and ch: "um_find hs nm = Some ch"
    and ch': "cname ch' = cname ch" "users ch' = users ch"
  shows "wf_data cs (um_assign nm ch' hs) n"
proof (rule wf_dataI)
  note w = wf_dataD [OF wf]
  show "um_wf cs" by (rule w(1))
  show "um_wf (um_assign nm ch' hs)" using w(2) by (rule um.wf_assign)
  show "\<And>fd c. um_find cs fd = Some c \<Longrightarrow> client_ok fd n c" by (rule w(3))
  show "\<And>m k. um_find (um_assign nm ch' hs) m = Some k \<Longrightarrow> channel_ok m n k"
    using w(4) ch ch' by (auto simp: um_simps channel_ok_def split: if_splits)
  show "oids_unique cs" by (rule w(5))
  show "refs_placed cs (um_assign nm ch' hs)"
    using w(6) ch ch' unfolding refs_placed_def by (auto simp: um_simps split: if_splits)
  show "members_agree cs (um_assign nm ch' hs)"
    using w(7) ch ch' unfolding members_agree_def
    by (auto simp: um_simps member_def split: if_splits)
qed

text \<open>A client enters a channel in which its descriptor is free, or already its own.\<close>

lemma wf_join:
  assumes wf: "wf_data cs hs n" and c: "um_find cs fd = Some c" and ch: "um_find hs nm = Some ch"
    and free: "um_find (users ch) fd = None \<or> um_find (users ch) fd = Some (oid c)"
  shows "wf_data (um_assign fd (client_join c nm) cs)
           (um_assign nm (ch\<lparr>users := um_emplace fd (oid c) (users ch)\<rparr>) hs) n"
    (is "wf_data ?cs ?hs n")
proof (rule wf_dataI)
  note w = wf_dataD [OF wf]
  have cok: "client_ok fd n c" and chok: "channel_ok nm n ch" using w(3) c w(4) ch by auto
  show "um_wf ?cs" using w(1) by (rule um.wf_assign)
  show "um_wf ?hs" using w(2) by (rule um.wf_assign)
  show "\<And>fd' d. um_find ?cs fd' = Some d \<Longrightarrow> client_ok fd' n d"
    using w(3) c by (auto simp: um_simps client_join_def client_ok_def hasNick_def hasRegist_def
        canRegist_def split: if_splits)
  show "\<And>m k. um_find ?hs m = Some k \<Longrightarrow> channel_ok m n k"
    using w(4) chok cok by (auto simp: um_simps channel_ok_def client_ok_def split: if_splits)
  show "oids_unique ?cs"
    using w(5) c unfolding oids_unique_def by (auto simp: um_simps client_join_def split: if_splits)
  show "refs_placed ?cs ?hs"
    using w(5,6) c ch unfolding refs_placed_def oids_unique_def
    by (auto simp: um_simps client_join_def split: if_splits)
  show "members_agree ?cs ?hs"
    using w(7) c ch free unfolding members_agree_def
    by (auto simp: um_simps client_in_def client_join_def member_def split: if_splits option.splits)
qed

text \<open>A client leaves a channel.\<close>

lemma wf_part:
  assumes wf: "wf_data cs hs n" and c: "um_find cs fd = Some c" and ch: "um_find hs nm = Some ch"
  shows "wf_data (um_assign fd (client_part c nm) cs)
           (um_assign nm (ch\<lparr>users := um_erase fd (users ch)\<rparr>) hs) n"
    (is "wf_data ?cs ?hs n")
proof (rule wf_dataI)
  note w = wf_dataD [OF wf]
  have chok: "channel_ok nm n ch" using w(4) ch by auto
  show "um_wf ?cs" using w(1) by (rule um.wf_assign)
  show "um_wf ?hs" using w(2) by (rule um.wf_assign)
  show "\<And>fd' d. um_find ?cs fd' = Some d \<Longrightarrow> client_ok fd' n d"
    using w(3) c by (auto simp: um_simps client_part_def client_ok_def hasNick_def hasRegist_def
        canRegist_def split: if_splits)
  show "\<And>m k. um_find ?hs m = Some k \<Longrightarrow> channel_ok m n k"
    using w(4) chok by (auto simp: um_simps channel_ok_def split: if_splits)
  show "oids_unique ?cs"
    using w(5) c unfolding oids_unique_def by (auto simp: um_simps client_part_def split: if_splits)
  show "refs_placed ?cs ?hs"
    using w(6) c ch unfolding refs_placed_def
    by (auto simp: um_simps client_part_def split: if_splits) blast
  show "members_agree ?cs ?hs"
    using w(7) c ch unfolding members_agree_def
    by (auto simp: um_simps client_in_def client_part_def member_def split: if_splits option.splits)
qed

text \<open>A new connection, and the end of one.\<close>

lemma wf_client_add:
  assumes wf: "wf_data cs hs n" and fresh: "um_find cs fd = None"
  shows "wf_data (um_emplace fd (new_client n fd i h) cs) hs (Suc n)" (is "wf_data ?cs hs _")
proof (rule wf_dataI)
  note w = wf_dataD [OF wf]
  have old: "\<And>fd c. um_find cs fd = Some c \<Longrightarrow> oid c < n" using w(3) by (simp add: client_ok_def)
  have refs: "\<And>nm ch fd r. um_find hs nm = Some ch \<Longrightarrow> um_find (users ch) fd = Some r \<Longrightarrow> r < n"
    using w(4) by (auto simp: channel_ok_def)
  show "um_wf ?cs" using w(1) by (rule um.wf_emplace)
  show "um_wf hs" by (rule w(2))
  show "\<And>fd' d. um_find ?cs fd' = Some d \<Longrightarrow> client_ok fd' (Suc n) d"
    using w(3) by (fastforce simp: um_simps client_ok_def new_client_def hasNick_def hasRegist_def
        NICK_def WELCOMED_def split: if_splits)
  show "\<And>nm ch. um_find hs nm = Some ch \<Longrightarrow> channel_ok nm (Suc n) ch"
    using w(4) by (fastforce simp: channel_ok_def)
  show "oids_unique ?cs"
    using w(5) unfolding oids_unique_def
    by (auto simp: um_simps new_client_def split: if_splits dest: old)
  show "refs_placed ?cs hs"
    using w(6) unfolding refs_placed_def
    by (auto simp: um_simps new_client_def split: if_splits dest: refs)
  show "members_agree ?cs hs"
    using w(7) unfolding members_agree_def
    by (auto simp: um_simps new_client_def client_in_def member_def split: if_splits option.splits
        dest: refs)
qed

lemma wf_client_del:
  assumes wf: "wf_data cs hs n"
  shows "wf_data (um_erase fd cs) hs n"
proof (rule wf_dataI)
  note w = wf_dataD [OF wf]
  show "um_wf (um_erase fd cs)" using w(1) by (rule um.wf_erase)
  show "um_wf hs" by (rule w(2))
  show "\<And>fd' d. um_find (um_erase fd cs) fd' = Some d \<Longrightarrow> client_ok fd' n d"
    using w(3) by (auto simp: um_simps split: if_splits)
  show "\<And>nm ch. um_find hs nm = Some ch \<Longrightarrow> channel_ok nm n ch" by (rule w(4))
  show "oids_unique (um_erase fd cs)"
    using w(5) unfolding oids_unique_def by (auto simp: um_simps split: if_splits)
  show "refs_placed (um_erase fd cs) hs"
    using w(6) unfolding refs_placed_def by (auto simp: um_simps split: if_splits)
  show "members_agree (um_erase fd cs) hs"
    using w(7) unfolding members_agree_def by (auto simp: um_simps split: if_splits)
qed

section \<open>Following references\<close>

lemma deref_Some:
  assumes "um_wf (clients s)" and "deref s r = Some c"
  shows "\<exists>fd. um_find (clients s) fd = Some c \<and> oid c = r"
proof -
  from assms(2) have "oid c = r" and "c \<in> snd ` set (clients s)"
    unfolding deref_def find_Some_iff by (auto simp: set_conv_nth)
  then obtain fd where "(fd, c) \<in> set (clients s)" by auto
  then show ?thesis using um_in_set_find [OF assms(1)] \<open>oid c = r\<close> by auto
qed

lemma deref_unique:
  assumes wf: "um_wf (clients s)" and uniq: "oids_unique (clients s)" and c: "um_find (clients s) fd = Some c"
  shows "deref s (oid c) = Some c"
proof -
  have "(fd, c) \<in> set (clients s)" using um_in_set_find [OF wf] c by auto
  then have "deref s (oid c) \<noteq> None"
    unfolding deref_def find_None_iff by force
  then obtain d where d: "deref s (oid c) = Some d" by auto
  then obtain fd' where "um_find (clients s) fd' = Some d" "oid d = oid c"
    using deref_Some [OF wf] by blast
  then show ?thesis using uniq c d unfolding oids_unique_def by metis
qed

lemma deref_live:
  assumes "wf_data (clients s) (channels s) n" and "um_find (clients s) fd = Some c"
  shows "deref s (oid c) = Some c"
  using deref_unique wf_dataD(1,5) [OF assms(1)] assms(2) by blast

lemma usersstr_loop_defined:
  "(\<exists>t. usersstr_loop s us fds str = Some t) \<longleftrightarrow>
     (\<forall>fd \<in> set fds. \<exists>r u. um_find us fd = Some r \<and> deref s r = Some u)"
  by (induction fds arbitrary: str) (auto split: option.splits)

lemma set_member_fds: "fair_order env \<Longrightarrow> fd \<in> set (member_fds env ch) \<longleftrightarrow> (\<exists>r. um_find (users ch) fd = Some r)"
  by (simp add: member_fds_def um_keys_find)

lemma getusers_defined:
  assumes "fair_order env"
  shows "(\<exists>ms. getusers env ch s = Some ms) \<longleftrightarrow>
     (\<forall>fd r. um_find (users ch) fd = Some r \<longrightarrow> deref s r \<noteq> None)"
proof -
  have "(\<exists>t. usersstr env ch s = Some t) \<longleftrightarrow> (\<forall>fd r. um_find (users ch) fd = Some r \<longrightarrow> deref s r \<noteq> None)"
    using assms unfolding usersstr_def usersstr_loop_defined
    by (fastforce simp: Ball_def set_member_fds)
  then show ?thesis
    by (auto simp: getusers_def Let_def)
qed

section \<open>The handlers keep the invariant\<close>

text \<open>Sending changes nothing but the output.\<close>

lemma sends_data [simp]:
  "clients (sendstr fd b s) = clients s" "channels (sendstr fd b s) = channels s"
  "next_oid (sendstr fd b s) = next_oid s" "nick_mp (sendstr fd b s) = nick_mp s"
  "clients (sendcmds fd ms n s) = clients s" "channels (sendcmds fd ms n s) = channels s"
  "next_oid (sendcmds fd ms n s) = next_oid s" "nick_mp (sendcmds fd ms n s) = nick_mp s"
  "clients (sendcmd fd m n s) = clients s" "channels (sendcmd fd m n s) = channels s"
  "next_oid (sendcmd fd m n s) = next_oid s" "nick_mp (sendcmd fd m n s) = nick_mp s"
  "clients (sendall fds m n s) = clients s" "channels (sendall fds m n s) = channels s"
  "next_oid (sendall fds m n s) = next_oid s" "nick_mp (sendall fds m n s) = nick_mp s"
  by (simp_all add: sendall_eq sendcmd_def sendcmds_def sendstr_def)

lemma puts_data [simp]:
  "clients (put_client c s) = um_assign (connfd c) c (clients s)"
  "channels (put_client c s) = channels s" "next_oid (put_client c s) = next_oid s"
  "nick_mp (put_client c s) = nick_mp s"
  "channels (put_channel ch s) = um_assign (cname ch) ch (channels s)"
  "clients (put_channel ch s) = clients s" "next_oid (put_channel ch s) = next_oid s"
  "nick_mp (put_channel ch s) = nick_mp s"
  by (simp_all add: put_client_def put_channel_def)

text \<open>What \<^verbatim>\<open>getchannel\<close> does to the database: it finds the channel, or adds an empty one.\<close>

lemma getchannel_cases:
  assumes "getchannel s nm = Inr (s1, ch)" and "db_wf s"
  obtains (found) "s1 = s" "um_find (channels s) nm = Some ch" "cname ch = nm"
  | (created) "um_find (channels s) nm = None" "valid_channel_name nm"
      "ch = \<lparr>cname = nm, topic = [], users = []\<rparr>"
      "s1 = s\<lparr>channels := um_emplace nm ch (channels s)\<rparr>"
  using assms by (auto simp: getchannel_def new_channel_def db_wf_def channel_ok_def
      dest: wf_dataD(4) split: option.splits if_splits)

lemma getchannel_wf:
  assumes "getchannel s nm = Inr (s1, ch)" and "db_wf s"
  shows "db_wf s1" and "um_find (channels s1) nm = Some ch" and "cname ch = nm"
    and "clients s1 = clients s" and "nick_mp s1 = nick_mp s" and "next_oid s1 = next_oid s"
    and "sent s1 = sent s"
  using assms
  by (cases rule: getchannel_cases; auto simp: db_wf_def um_simps intro: wf_new_channel)+

lemma getuser_ok: "db_wf s \<Longrightarrow> getuser s fd = Some c \<Longrightarrow> client_ok fd (next_oid s) c"
  by (simp add: db_wf_def getuser_def wf_dataD(3))

text \<open>The registration bits of the status byte.\<close>

lemma status_consts: "NICK = 2 ^ 0" "USER = 2 ^ 1" "WELCOMED = 2 ^ 2"
  by (simp_all add: NICK_def USER_def WELCOMED_def)

lemma status_bit [simp]: "bit NICK k \<longleftrightarrow> k = 0" "bit USER k \<longleftrightarrow> k = 1" "bit WELCOMED k \<longleftrightarrow> k = 2"
  unfolding status_consts bit_exp_iff by auto

lemma and_mask_iff: "w AND m = m \<longleftrightarrow> (\<forall>k. bit m k \<longrightarrow> bit w k)" for w m :: "8 word"
  by (metis (full_types) bit_and_iff bit_word_eqI)

lemma status_flags [simp]:
  "w AND NICK = NICK \<longleftrightarrow> bit w 0" "w AND WELCOMED = WELCOMED \<longleftrightarrow> bit w 2"
  "w AND REGIST = REGIST \<longleftrightarrow> bit w 0 \<and> bit w 1"
  unfolding and_mask_iff by (auto simp: bit_or_iff REGIST_def)

lemma flags_bits: "hasNick c \<longleftrightarrow> bit (status c) 0" "hasRegist c \<longleftrightarrow> bit (status c) 2"
  "canRegist c \<longleftrightarrow> bit (status c) 0 \<and> bit (status c) 1"
  by (simp_all add: hasNick_def hasRegist_def canRegist_def)


text \<open>The handlers, one by one.\<close>

lemma changeNick_wf:
  assumes "db_wf s" and "um_find (clients s) fd = Some c" and "changeNick c nick s = (s', r)"
  shows "db_wf s'"
proof -
  have ok: "client_ok fd (next_oid s) c"
    using assms(1,2) by (simp add: db_wf_def wf_dataD(3))
  show ?thesis
    using assms ok
    by (auto simp: changeNick_def db_wf_def Let_def client_ok_def flags_bits valid_nick_def hd_conv_nth
        bit_or_iff split: if_splits intro!: wf_put_client)
qed

lemma Controller_nick_wf:
  assumes "db_wf s" and "getuser s fd = Some c" and "Controller_nick env c argv s = (s', r)"
  shows "db_wf s'"
  using assms
  by (auto simp: Controller_nick_def Let_def db_wf_def getuser_def split: if_splits
      dest!: changeNick_wf [unfolded db_wf_def, rotated 2])

lemma Controller_user_wf:
  assumes "db_wf s" and "getuser s fd = Some c" and "Controller_user env c argv s = (s', r)"
  shows "db_wf s'"
  using assms getuser_ok [OF assms(1,2)]
  by (auto simp: Controller_user_def db_wf_def getuser_def client_ok_def flags_bits bit_or_iff
      split: if_splits intro!: wf_put_client)

lemma wf_sends [simp]:
  "db_wf (sendstr fd b s) = db_wf s" "db_wf (sendcmds fd ms n s) = db_wf s"
  "db_wf (sendcmd fd m n s) = db_wf s" "db_wf (sendall fds m n s) = db_wf s"
  "refs_live (sendstr fd b s) = refs_live s" "refs_live (sendcmds fd ms n s) = refs_live s"
  "refs_live (sendcmd fd m n s) = refs_live s" "refs_live (sendall fds m n s) = refs_live s"
  "nick_wf (sendstr fd b s) = nick_wf s" "nick_wf (sendcmds fd ms n s) = nick_wf s"
  "nick_wf (sendcmd fd m n s) = nick_wf s" "nick_wf (sendall fds m n s) = nick_wf s"
  by (simp_all add: db_wf_def refs_live_def nick_wf_def)

lemma Controller_names_wf:
  assumes "db_wf s" and "Controller_names env c argv s = (s', r)"
  shows "db_wf s'"
  using assms
  by (auto simp: Controller_names_def split: if_splits option.splits sum.splits)
    (blast intro: getchannel_wf(1))+

text \<open>JOIN on an existing channel: its effect on the data, when it is defined.\<close>

lemma stale_undefined:
  assumes wf: "wf_data cs hs n" and c: "um_find cs fd = Some c" and ch: "um_find hs nm = Some ch"
    and stale: "um_find (users ch) fd = Some r" "r \<noteq> oid c"
    and s: "clients s = um_assign fd (client_join c nm) cs"
  shows "deref s r = None"
proof (rule ccontr)
  assume "deref s r \<noteq> None"
  then obtain u where u: "deref s r = Some u" by auto
  have "um_wf (clients s)" using wf_dataD(1) [OF wf] s by (simp add: um.wf_assign)
  then obtain fd' where "um_find (clients s) fd' = Some u" "oid u = r" using deref_Some u by blast
  then obtain u' where u': "um_find cs fd' = Some u'" "oid u' = r"
    using s c by (auto simp: um_simps client_join_def split: if_splits)
  then have "fd' = fd"
    using wf_dataD(6) [OF wf] ch stale(1) unfolding refs_placed_def by blast
  with u' c stale(2) show False by simp
qed

lemma Controller_join_effect:
  assumes wf: "db_wf s" and c: "getuser s fd = Some c" and fair: "fair_order env"
    and j: "Controller_join env c argv s = (s', r)" and r: "r \<noteq> Some Undefined"
    and g: "getchannel s (argv ! 0) = Inr (s1, ch)"
  shows "um_find (users ch) fd = None \<or> um_find (users ch) fd = Some (oid c)"
    and "clients s' = um_assign fd (client_join c (argv ! 0)) (clients s)"
    and "channels s' = um_assign (argv ! 0) (ch\<lparr>users := um_emplace fd (oid c) (users ch)\<rparr>) (channels s1)"
    and "next_oid s' = next_oid s" and "nick_mp s' = nick_mp s" and "r = None"
proof -
  define nm where "nm = argv ! 0"
  note g1 = getchannel_wf [OF g [folded nm_def] wf]
  define c' where "c' = client_join c nm"
  define ch' where "ch' = ch\<lparr>users := um_emplace fd (oid c) (users ch)\<rparr>"
  define s3 where "s3 = sendcmd fd (gettopic ch) nm (channel_add env ch c' (put_client c' s1))"
  have fd: "connfd c = fd" using getuser_ok [OF wf c] by (simp add: client_ok_def)
  have c's: "connfd c' = fd" "oid c' = oid c" using fd by (simp_all add: c'_def client_join_def)
  have ch's: "cname ch' = nm" "users ch' = um_emplace fd (oid c) (users ch)"
    using g1(3) by (simp_all add: ch'_def)
  have d3: "clients s3 = um_assign fd c' (clients s)" "channels s3 = um_assign nm ch' (channels s1)"
      "next_oid s3 = next_oid s" "nick_mp s3 = nick_mp s"
    using c's ch's g1 by (simp_all add: s3_def channel_add_def Let_def ch'_def)
  have find3: "um_find (channels s3) nm = Some ch'"
    using g1(2) by (simp add: d3 um_simps)
  have cs: "um_find (clients s1) fd = Some c" using c g1(4) by (simp add: getuser_def)
  have nn: "Controller_join env c argv s = Controller_names env c' [nm] s3"
    using g c's fd g1(3)
    by (simp add: Controller_join_def nm_def s3_def c'_def Let_def client_join_def)
  have ns: "Controller_names env c' [nm] s3 = (case getusers env ch' s3 of None \<Rightarrow> (s3, Some Undefined)
      | Some out \<Rightarrow> (sendcmds fd out (nickname c') s3, None))"
    using find3 c's by (simp add: Controller_names_def getchannel_def split: option.split)
  have free: "um_find (users ch) fd = None \<or> um_find (users ch) fd = Some (oid c)"
  proof (rule ccontr)
    assume "\<not> ?thesis"
    then obtain r0 where r0: "um_find (users ch) fd = Some r0" "r0 \<noteq> oid c" by auto
    have "deref s3 r0 = None"
      using stale_undefined [OF g1(1) [unfolded db_wf_def] cs g1(2) r0] d3(1) g1(4) by (simp add: c'_def)
    moreover have "um_find (users ch') fd = Some r0"
      using r0 ch's by (simp add: um_simps)
    ultimately have "getusers env ch' s3 = None"
      using getusers_defined [OF fair, of ch' s3] by fastforce
    then show False using j r nn ns by auto
  qed
  have out: "\<exists>out. getusers env ch' s3 = Some out \<and> s' = sendcmds fd out (nickname c') s3 \<and> r = None"
    using j r nn ns by (auto split: option.splits)
  show "um_find (users ch) fd = None \<or> um_find (users ch) fd = Some (oid c)" by (rule free)
  show "clients s' = um_assign fd (client_join c (argv ! 0)) (clients s)"
    "channels s' = um_assign (argv ! 0) (ch\<lparr>users := um_emplace fd (oid c) (users ch)\<rparr>) (channels s1)"
    "next_oid s' = next_oid s" "nick_mp s' = nick_mp s" "r = None"
    using out d3 by (auto simp: c'_def ch'_def nm_def)
qed

lemma Controller_join_wf:
  assumes wf: "db_wf s" and c: "getuser s fd = Some c" and fair: "fair_order env"
    and j: "Controller_join env c argv s = (s', r)" and r: "r \<noteq> Some Undefined"
  shows "db_wf s'"
proof (cases "getchannel s (argv ! 0)")
  case (Inl e)
  then show ?thesis using wf j by (simp add: Controller_join_def Let_def)
next
  case (Inr p)
  obtain s1 ch where p: "p = (s1, ch)" by (cases p)
  note e = Controller_join_effect [OF wf c fair j r Inr [unfolded p]]
  note g = getchannel_wf [OF Inr [unfolded p] wf]
  have "wf_data (clients s') (channels s') (next_oid s1)"
    unfolding e(2,3) g(4) [symmetric]
    by (rule wf_join) (use g e(1) c in \<open>auto simp: db_wf_def getuser_def\<close>)
  then show ?thesis using e(4) g(6) by (simp add: db_wf_def)
qed

text \<open>PART, TOPIC and the handlers that only read.\<close>

lemma Controller_part_effect:
  assumes wf: "db_wf s" and c: "getuser s fd = Some c"
    and p: "Controller_part env c argv s = (s', None)"
  shows "\<exists>ch. um_find (channels s) (argv ! 0) = Some ch
     \<and> um_find (users ch) fd = Some (oid c)
     \<and> clients s' = um_assign fd (client_part c (argv ! 0)) (clients s)
     \<and> channels s' = um_assign (argv ! 0) (ch\<lparr>users := um_erase fd (users ch)\<rparr>) (channels s)
     \<and> next_oid s' = next_oid s \<and> nick_mp s' = nick_mp s"
proof -
  have fd: "connfd c = fd" using getuser_ok [OF wf c] by (simp add: client_ok_def)
  obtain ch where ch: "um_find (channels s) (argv ! 0) = Some ch" "client_in c (cname ch)"
    using p by (auto simp: Controller_part_def Let_def split: option.splits if_splits)
  have nm: "cname ch = argv ! 0"
    using wf ch(1) by (auto simp: db_wf_def channel_ok_def dest: wf_dataD(4))
  have "members_agree (clients s) (channels s)"
    using wf by (simp add: db_wf_def wf_dataD(7))
  then have "um_find (users ch) fd = Some (oid c)"
    using members_agreeD [of _ _ fd c "argv ! 0"] c ch nm by (simp add: getuser_def member_def)
  then show ?thesis
    using p ch nm fd
    by (auto simp: Controller_part_def channel_del_def client_part_def Let_def split: option.splits if_splits)
qed

lemma Controller_part_wf:
  assumes wf: "db_wf s" and c: "getuser s fd = Some c"
    and p: "Controller_part env c argv s = (s', r)" and r: "r \<noteq> Some Undefined"
  shows "db_wf s'"
proof (cases r)
  case None
  then obtain ch where e: "um_find (channels s) (argv ! 0) = Some ch"
     "clients s' = um_assign fd (client_part c (argv ! 0)) (clients s)"
     "channels s' = um_assign (argv ! 0) (ch\<lparr>users := um_erase fd (users ch)\<rparr>) (channels s)"
     "next_oid s' = next_oid s"
    using Controller_part_effect [OF wf c] p by blast
  show ?thesis
    unfolding db_wf_def e(2,3,4)
    by (rule wf_part) (use wf c e(1) in \<open>auto simp: db_wf_def getuser_def\<close>)
next
  case (Some e)
  then have "s' = s"
    using p r by (auto simp: Controller_part_def channel_del_def Let_def split: option.splits if_splits)
  then show ?thesis using wf by simp
qed

lemma Controller_topic_wf:
  assumes wf: "db_wf s" and p: "Controller_topic env c argv s = (s', r)"
  shows "db_wf s'"
proof -
  have "db_wf (changeTopic env ch nick t s)" if "um_find (channels s) (argv ! 0) = Some ch" for ch nick t
  proof -
    have "cname ch = argv ! 0"
      using wf that by (auto simp: db_wf_def channel_ok_def dest: wf_dataD(4))
    then show ?thesis
      using wf that by (auto simp: changeTopic_def Let_def db_wf_def intro!: wf_put_channel)
  qed
  then show ?thesis
    using wf p by (auto simp: Controller_topic_def Let_def split: option.splits if_splits)
qed

definition readers :: "hash_order \<Rightarrow> handler set" where
  "readers env = {Controller_list env, Controller_privmsg env, Controller_ping env,
     Controller_users env, Controller_quit env}"

lemma readers_data:
  assumes "fp \<in> readers env" and "fp c argv s = (s', r)"
  shows "clients s' = clients s" and "channels s' = channels s" and "next_oid s' = next_oid s"
    and "nick_mp s' = nick_mp s"
  using assms
  by (auto simp: readers_def Controller_list_def Controller_privmsg_def Controller_ping_def
      Controller_users_def Controller_quit_def Let_def split: if_splits option.splits)

lemma readers_wf:
  assumes "fp \<in> readers env" and "fp c argv s = (s', r)"
  shows "db_wf s' = db_wf s" and "refs_live s' = refs_live s" and "nick_wf s' = nick_wf s"
  using readers_data [OF assms] by (simp_all add: db_wf_def refs_live_def nick_wf_def)

lemma finish_regist_wf:
  assumes wf: "db_wf s" and "finish_regist fd s = (s', r)"
  shows "db_wf s'"
proof (cases "getuser s fd")
  case None
  then show ?thesis using assms by (simp add: finish_regist_def)
next
  case (Some c)
  have "wf_data (um_assign fd (c\<lparr>status := status c OR WELCOMED\<rparr>) (clients s)) (channels s) (next_oid s)"
    if "canRegist c"
    using getuser_ok [OF wf Some] that wf Some
    by (intro wf_put_client [of _ _ _ _ c])
      (auto simp: client_ok_def flags_bits bit_or_iff db_wf_def getuser_def)
  then show ?thesis
    using assms Some getuser_ok [OF wf Some]
    by (auto simp: finish_regist_def regist_def db_wf_def client_ok_def split: if_splits)
qed

text \<open>The dispatcher, unfolded once: either it refuses the line, or one of the handlers runs.\<close>

lemma cmds_cases:
  assumes "um_find (cmds env) cmd = Some (k, fp)"
  obtains "cmd = ''NICK''" "k = 0" "fp = Controller_nick env" | "cmd = ''USER''" "k = 4" "fp = Controller_user env"
  | "cmd = ''QUIT''" "k = 0" "fp = Controller_quit env" | "cmd = ''JOIN''" "k = 1" "fp = Controller_join env"
  | "cmd = ''PART''" "k = 1" "fp = Controller_part env" | "cmd = ''TOPIC''" "k = 1" "fp = Controller_topic env"
  | "cmd = ''NAMES''" "k = 0" "fp = Controller_names env" | "cmd = ''LIST''" "k = 0" "fp = Controller_list env"
  | "cmd = ''PRIVMSG''" "k = 0" "fp = Controller_privmsg env" | "cmd = ''PING''" "k = 0" "fp = Controller_ping env"
  | "cmd = ''USERS''" "k = 0" "fp = Controller_users env"
  using assms unfolding cmds_def by (simp split: if_splits)

lemma handler_wf:
  assumes h: "um_find (cmds env) cmd = Some (k, fp)" and wf: "db_wf s" and c: "getuser s fd = Some c"
    and fair: "fair_order env" and run: "fp c args s = (s', r)" and r: "r \<noteq> Some Undefined"
  shows "db_wf s'"
proof -
  have read: "db_wf s'" if "fp \<in> readers env"
    using wf readers_wf(1) [OF that run] by simp
  from h show ?thesis
    by (cases rule: cmds_cases)
      (use run wf c fair r read in \<open>auto simp: readers_def intro: Controller_nick_wf Controller_user_wf
        Controller_join_wf Controller_part_wf Controller_topic_wf Controller_names_wf\<close>)
qed

lemma call_wf:
  assumes wf: "db_wf s" and fair: "fair_order env" and run: "call env fd argv s = (s', r)"
    and r: "r \<noteq> Some Undefined"
  shows "db_wf s'"
  using wf run r
  by (auto simp: call_def split: list.splits option.splits if_splits prod.splits
      dest: handler_wf [OF _ wf _ fair] finish_regist_wf)

end
