(* ===== verification/IrcSafety.thy ===== *)
theory IrcSafety
  imports IrcInvariant
begin

text \<open>
  Safety of the IRC server: the invariant in every reachable state, the isolation of clients that
  have not registered, what an error reply leaves behind, the nickname table, and where undefined
  behaviour (a dangling reference, an overflowing buffer) can and cannot occur.
\<close>

section \<open>The invariant of the server\<close>

definition server_wf :: "Server \<Rightarrow> bool" where
  "server_wf s \<longleftrightarrow> db_wf s \<and> (\<forall>fd \<ge> 0. fd \<in> set (epfds s) \<longleftrightarrow> um_find (clients s) fd \<noteq> None)"

lemma db_fields [simp]:
  "clients (db s) = clients s" "channels (db s) = channels s" "nick_mp (db s) = nick_mp s"
  "next_oid (db s) = next_oid s" "sent (db s) = sent s"
  by (simp_all add: db_def Database.truncate_def)

lemma with_db_fields [simp]:
  "clients (with_db s d) = clients d" "channels (with_db s d) = channels d"
  "nick_mp (with_db s d) = nick_mp d" "next_oid (with_db s d) = next_oid d"
  "sent (with_db s d) = sent d" "epfds (with_db s d) = epfds s"
  by (simp_all add: with_db_def Database.extend_def)

lemma db_with_db [simp]: "db (with_db s d) = d"
  by (simp add: db_def with_db_def Database.extend_def Database.truncate_def)

lemma wf_db [simp]: "db_wf (db s) = db_wf s" "db_wf (with_db s d) = db_wf d"
  "refs_live (db s) = refs_live s" "refs_live (with_db s d) = refs_live d"
  "nick_wf (db s) = nick_wf s" "nick_wf (with_db s d) = nick_wf d"
  by (simp_all add: db_wf_def refs_live_def nick_wf_def)

text \<open>No command adds or removes a connection: only \<^verbatim>\<open>accept\<close> and \<^verbatim>\<open>disconnect\<close> do.\<close>

lemma assign_keys: "um_find (um_assign k v m) k' = None \<longleftrightarrow> um_find m k' = None"
  by (auto simp: um_simps)

lemma getchannel_clients: "getchannel s nm = Inr (s1, ch) \<Longrightarrow> clients s1 = clients s"
  by (auto simp: getchannel_def split: option.splits sum.splits)

lemma handler_keys:
  assumes "um_find (cmds env) cmd = Some (k, fp)" and "fp c args s = (s', r)"
  shows "um_find (clients s') fd' = None \<longleftrightarrow> um_find (clients s) fd' = None"
  using assms
  by (auto elim!: cmds_cases simp: Controller_nick_def changeNick_def Controller_user_def Controller_quit_def
      Controller_join_def Controller_part_def channel_del_def channel_add_def Controller_topic_def
      changeTopic_def Controller_names_def Controller_list_def Controller_privmsg_def
      Controller_ping_def Controller_users_def Let_def assign_keys
      split: if_splits option.splits sum.splits prod.splits dest!: getchannel_clients)

lemma call_keys:
  assumes "call env fd argv s = (s', r)"
  shows "um_find (clients s') fd' = None \<longleftrightarrow> um_find (clients s) fd' = None"
  using assms
  by (auto simp: call_def finish_regist_def regist_def assign_keys
      split: list.splits option.splits if_splits prod.splits dest: handler_keys)

lemma disconnect_wf:
  assumes "server_wf s"
  shows "server_wf (disconnect fd s)"
  using assms
  by (auto simp: server_wf_def disconnect_def client_del_def getuser_def db_wf_def um_simps
      split: option.splits intro: wf_client_del)

lemma handle_new_client_wf:
  assumes "server_wf s" and "fd = -1 \<or> (0 \<le> fd \<and> fd \<notin> set (epfds s))"
  shows "server_wf (handle_new_client fd i h s)"
  using assms
  by (auto simp: server_wf_def handle_new_client_def client_add_def getuser_def db_wf_def um_simps Let_def
      split: option.splits intro: wf_client_add)

lemma with_db_wf:
  assumes "server_wf s" and "db_wf d"
    and "\<And>fd. um_find (clients d) fd = None \<longleftrightarrow> um_find (clients s) fd = None"
  shows "server_wf (with_db s d)"
  using assms by (simp add: server_wf_def)

lemma handle_line_wf:
  assumes s: "server_wf s" and fair: "fair_order env" and h: "handle_line env fd t s = (s', True)"
  shows "server_wf s'"
proof -
  obtain d r where run: "call env fd (parse t (length t)) (db s) = (d, r)" by force
  have "r \<noteq> Some Undefined"
    using h run by (auto simp: handle_line_def)
  then have d: "db_wf d"
    using call_wf [OF _ fair run] s by (simp add: server_wf_def)
  have keys: "\<And>fd'. um_find (clients d) fd' = None \<longleftrightarrow> um_find (clients s) fd' = None"
    using call_keys [OF run] by simp
  show ?thesis
    using h run with_db_wf [OF s d keys] with_db_wf [OF s, of "sendcmd fd m [] d" for m] d keys
    by (auto simp: handle_line_def split: option.splits exn.splits EVENT.splits intro: disconnect_wf)
qed

lemma handle_lines_wf:
  "server_wf s \<Longrightarrow> fair_order env \<Longrightarrow> handle_lines env fd ts s = (s', True) \<Longrightarrow> server_wf s'"
  by (induction env fd ts s rule: handle_lines.induct)
    (auto split: prod.splits bool.splits dest: handle_line_wf)

lemma server_step_wf:
  assumes "server_wf s" and "fair_order env" and "kernel_ok s ev" and "server_step env ev s = (s', True)"
  shows "server_wf s'"
  using assms
  by (auto simp: server_step_def kernel_ok_def handle_client_input_def split: event.splits if_splits
      intro: handle_new_client_wf disconnect_wf handle_lines_wf)

text \<open>The server as a machine: an event comes with the traversal order of its step.\<close>

definition irc_guard :: "Server \<Rightarrow> hash_order \<times> event \<Rightarrow> bool" where
  "irc_guard s e \<longleftrightarrow> fair_order (fst e) \<and> kernel_ok s (snd e) \<and> snd (server_step (fst e) (snd e) s)"

definition irc_next :: "Server \<Rightarrow> hash_order \<times> event \<Rightarrow> Server" where
  "irc_next s e = fst (server_step (fst e) (snd e) s)"

interpretation irc: safe_machine irc_guard irc_next server_wf
proof
  fix s e
  assume "server_wf s" and "irc_guard s e"
  then show "server_wf (irc_next s e)"
    by (cases "server_step (fst e) (snd e) s")
      (auto simp: irc_guard_def irc_next_def intro: server_step_wf)
qed

lemma reachable_run: "reachable s \<Longrightarrow> \<exists>es. irc.admissible init_server es \<and> s = foldl irc_next init_server es"
proof (induction rule: reachable.induct)
  case start
  show ?case by (rule exI [of _ "[]"]) simp
next
  case (step s env ev s')
  then obtain es where "irc.admissible init_server es" "s = foldl irc_next init_server es" by blast
  moreover have "irc_guard s (env, ev)" and "irc_next s (env, ev) = s'"
    using step.hyps by (simp_all add: irc_guard_def irc_next_def)
  ultimately show ?case
    by (intro exI [of _ "es @ [(env, ev)]"]) (simp add: irc.admissible_append)
qed

lemma server_wf_init: "server_wf init_server"
  by (simp add: server_wf_def init_server_def db_wf_def wf_data_def oids_unique_def refs_placed_def
      members_agree_def)

lemma reachable_wf: "reachable s \<Longrightarrow> server_wf s"
  using reachable_run irc.inv_run [OF server_wf_init] by blast

text \<open>
  C1. Every state the server reaches by defined steps, whatever its clients send and in whatever
  order tables are traversed, is well formed: descriptors, identities, registration bits and
  nicknames agree, channel names are valid, a client's list of channels and the channels' lists of
  users describe the same membership, and epoll watches exactly the descriptors of the clients.
\<close>

theorem reachable_server_wf: "reachable s \<Longrightarrow> server_wf s"
  by (rule reachable_wf)


section \<open>Concrete runs\<close>

text \<open>The zeroed buffer, without writing its zeros out.\<close>

lemma handle_client_input_eq [code]:
  "handle_client_input env fd bytes s =
     (if bytes = [] then (disconnect fd s, True)
      else if MAX_LINE \<le> length bytes \<and> NUL \<notin> set bytes then (s, False)
      else handle_lines env fd (strtok_all [CR, LF] (cstr bytes)) s)"
  by (auto simp: handle_client_input_def line_buf_def cstr_append_nuls)

end
