(* ===== verification/IrcCalls.thy ===== *)
theory IrcCalls
  imports IrcSafety
begin

text \<open>
  What one command line does to the database, over the whole dispatcher \<^verbatim>\<open>Controller::call\<close>:
  \<open>call_cases\<close> splits a run of \<open>call\<close> into a refused line, a handler that stopped with an
  exception and a handler that ran to its end, and every theorem here is the lemma for the
  handlers lifted through it. In turn: what an error leaves behind, the isolation of clients that
  have not registered, the table of nicknames, and the references held by the channels.
\<close>

section \<open>The dispatcher, case by case\<close>

lemma call_cases:
  assumes "call env fd argv s = (s', r)"
  obtains (refused) "s' = s" "r = None \<or> r = Some Undefined \<or> (\<exists>n ps. r = Some (Throw (CNum n, ps)) \<and> n \<noteq> 432)"
    "r = None \<longleftrightarrow> argv = []"
  | (stopped) cmd args k fp c e where "argv = cmd # args" "um_find (cmds env) cmd = Some (k, fp)"
      "getuser s fd = Some c" "k \<le> length args" "hasRegist c \<or> cmd \<in> set unreg_allow"
      "fp c args s = (s', Some e)" "r = Some e"
  | (ran) cmd args k fp c s1 where "argv = cmd # args" "um_find (cmds env) cmd = Some (k, fp)"
      "getuser s fd = Some c" "k \<le> length args" "hasRegist c \<or> cmd \<in> set unreg_allow"
      "fp c args s = (s1, None)" "hasRegist c \<Longrightarrow> s' = s1 \<and> r = None"
      "\<not> hasRegist c \<Longrightarrow> finish_regist fd s1 = (s', r)"
proof (cases argv)
  case Nil
  then show thesis using assms refused by (simp add: call_def)
next
  case (Cons cmd args)
  note argv = this
  show thesis
  proof (cases "um_find (cmds env) cmd")
    case None
    then show thesis using assms argv by (intro refused) (auto simp: call_def)
  next
    case (Some p)
    obtain k fp where p: "um_find (cmds env) cmd = Some (k, fp)" using Some by (cases p) auto
    show thesis
    proof (cases "getuser s fd")
      case None
      then show thesis using assms argv p by (intro refused) (auto simp: call_def)
    next
      case (Some c)
      show thesis
      proof (cases "(\<not> hasRegist c \<and> cmd \<notin> set unreg_allow) \<or> length args < k")
        case True
        then show thesis using assms argv p Some by (intro refused) (auto simp: call_def split: if_splits)
      next
        case False
        obtain s1 r1 where h: "fp c args s = (s1, r1)" by force
        have run: "(s', r) = (case (s1, r1) of (s', Some e) \<Rightarrow> (s', Some e)
            | (s', None) \<Rightarrow> if \<not> hasRegist c then finish_regist fd s' else (s', None))"
          using assms argv p Some h False by (auto simp: call_def split: option.splits)
        from False have ok: "k \<le> length args" "hasRegist c \<or> cmd \<in> set unreg_allow" by auto
        show thesis
        proof (cases r1)
          case None
          then show thesis using run h by (intro ran [OF argv p Some ok]) auto
        next
          case (Some e)
          then show thesis using run h by (intro stopped [OF argv p \<open>getuser s fd = Some c\<close> ok]) auto
        qed
      qed
    qed
  qed
qed

section \<open>Errors\<close>

lemma handler_error:
  assumes h: "um_find (cmds env) cmd = Some (k, fp)" and wf: "db_wf s" and c: "getuser s fd = Some c"
    and fair: "fair_order env" and run: "fp c args s = (s', Some e)" and e: "e \<noteq> Undefined"
    and n: "\<And>ps. e \<noteq> Throw (CNum 432, ps)"
  shows "s' = s"
proof (cases "fp = Controller_join env")
  case True
  then have j: "Controller_join env c args s = (s', Some e)" using run by simp
  then obtain e' where "getchannel s (args ! 0) = Inl e'"
    using Controller_join_effect(6) [OF wf c fair j] e by (cases "getchannel s (args ! 0)") auto
  then show ?thesis using j by (simp add: Controller_join_def Let_def)
next
  case False
  from h show ?thesis
    by (cases rule: cmds_cases)
      (use run e n False in \<open>auto simp: Controller_nick_def changeNick_def Controller_user_def Controller_quit_def
      Controller_part_def channel_del_def Controller_topic_def Controller_names_def
      Controller_list_def Controller_privmsg_def Controller_ping_def Controller_users_def Let_def
      split: if_splits option.splits sum.splits prod.splits\<close>)
qed

lemma finish_regist_runs:
  "getuser s fd = Some c \<Longrightarrow> \<exists>s'. finish_regist fd s = (s', None)"
  by (simp add: finish_regist_def split: prod.split bool.split)

lemma handler_keeps_client:
  assumes "um_find (cmds env) cmd = Some (k, fp)" and "fp c args s = (s1, r1)" and "getuser s fd = Some c'"
  obtains c1 where "getuser s1 fd = Some c1"
  using handler_keys [OF assms(1,2), of fd] assms(3) by (auto simp: getuser_def)

text \<open>
  C8. An error reply leaves the server as it was: whatever command line is sent, a handler that throws
  changes nothing, with one exception, the reply 432 to a NICK with a bad nickname.
\<close>

theorem error_keeps_state:
  assumes wf: "db_wf s" and fair: "fair_order env" and run: "call env fd argv s = (s', Some e)" and "e \<noteq> Undefined"
    and "\<And>ps. e \<noteq> Throw (CNum (err ERRONEUSNICKNAME), ps)"
  shows "s' = s"
  using run
proof (cases rule: call_cases)
  case refused
  then show ?thesis by simp
next
  case (stopped cmd args k fp c e')
  then show ?thesis using handler_error [OF _ wf _ fair] assms(4,5) by simp
next
  case (ran cmd args k fp c s1)
  then obtain c1 where "getuser s1 fd = Some c1" using handler_keeps_client by blast
  then have "\<exists>s2. finish_regist fd s1 = (s2, None)" by (rule finish_regist_runs)
  then show ?thesis using ran by (cases "hasRegist c") auto
qed

section \<open>Isolation of unregistered clients\<close>

text \<open>
  What a step may touch: the output to one client, that client, and in the table of nicknames the
  entry under the client's own name and a free name it asks for.
\<close>

definition sends_only :: "int \<Rightarrow> Database \<Rightarrow> Database \<Rightarrow> bool" where
  "sends_only fd s s' \<longleftrightarrow> take (length (sent s)) (sent s') = sent s
     \<and> (\<forall>(d, b) \<in> set (drop (length (sent s)) (sent s')). d = fd)"

definition touches_only :: "int \<Rightarrow> string \<Rightarrow> string set \<Rightarrow> Database \<Rightarrow> Database \<Rightarrow> bool" where
  "touches_only fd own asked s s' \<longleftrightarrow> channels s' = channels s \<and> next_oid s' = next_oid s
     \<and> (\<forall>fd'. fd' \<noteq> fd \<longrightarrow> getuser s' fd' = getuser s fd')
     \<and> (\<forall>c. getuser s fd = Some c \<longrightarrow> (\<exists>c'. getuser s' fd = Some c' \<and> oid c' = oid c \<and> joined c' = joined c))
     \<and> (\<forall>n. n \<noteq> own \<longrightarrow> um_find (nick_mp s') n = um_find (nick_mp s) n \<or> um_find (nick_mp s) n = None \<and> n \<in> asked)"

text \<open>The entries of the other clients' names are as they were.\<close>

definition others_named :: "int \<Rightarrow> Database \<Rightarrow> Database \<Rightarrow> bool" where
  "others_named fd s s' \<longleftrightarrow> (\<forall>fd' d. fd' \<noteq> fd \<and> getuser s fd' = Some d \<and> nickname d \<noteq> [] \<longrightarrow>
     um_find (nick_mp s') (nickname d) = um_find (nick_mp s) (nickname d))"

lemma touches_refl: "touches_only fd own asked s s" "sends_only fd s s"
  by (auto simp: touches_only_def sends_only_def)

lemma touches_trans: "touches_only fd own asked s t \<Longrightarrow> touches_only fd own asked t u \<Longrightarrow> touches_only fd own asked s u"
  unfolding touches_only_def by (intro conjI) (fastforce+)

lemma sends_trans: 
  assumes "sends_only fd s t" "sends_only fd t u" shows "sends_only fd s u"
proof -
  obtain x where x: "sent t = sent s @ x" "\<forall>(d, b) \<in> set x. d = fd"
    using assms(1) unfolding sends_only_def by (metis append_take_drop_id)
  obtain y where y: "sent u = sent t @ y" "\<forall>(d, b) \<in> set y. d = fd"
    using assms(2) unfolding sends_only_def by (metis append_take_drop_id)
  show ?thesis using x y unfolding sends_only_def by auto
qed

lemma unregistered_handlers:
  assumes wf: "db_wf s" and c: "getuser s fd = Some c" and "cmd \<in> set unreg_allow" 
    and h: "um_find (cmds env) cmd = Some (k, fp)" and run: "fp c args s = (s', r)"
  shows "touches_only fd (nickname c) (set (take 1 args)) s s' \<and> sends_only fd s s'"
proof -
  have first: "take (Suc 0) args = [args ! 0]" if "args \<noteq> []" using that by (cases args) simp_all
  have "connfd c = fd" using getuser_ok [OF wf c] by (simp add: client_ok_def)
  moreover have "fp \<in> {Controller_nick env, Controller_user env, Controller_quit env}"
    using h assms(3) by (auto simp: unreg_allow_def elim!: cmds_cases)
  ultimately show ?thesis
    using c run
    by (auto simp: Controller_nick_def Controller_user_def Controller_quit_def changeNick_def touches_only_def
      first nickInUse_def sends_only_def Let_def getuser_def um_simps sendcmd_def sendcmds_def sendstr_def put_client_def split: if_splits)
qed

lemma finish_regist_isolated:
  assumes wf: "db_wf s" and "finish_regist fd s = (s', r)"
  shows "touches_only fd own asked s s' \<and> sends_only fd s s'"
  using assms(2) getuser_ok [OF wf, of fd]
  by (auto simp: finish_regist_def regist_def touches_refl client_ok_def touches_only_def sends_only_def getuser_def
      um_simps sendcmds_def sendstr_def put_client_def split: option.splits if_splits)

text \<open>Where the table is exact, no other client's entry is under the client's own name.\<close>

lemma touches_others:
  assumes wf: "db_wf s" and nw: "nick_wf s" and c: "getuser s fd = Some c" and t: "touches_only fd (nickname c) asked s s'"
  shows "others_named fd s s'"
  unfolding others_named_def
proof (intro allI impI)
  fix fd' d
  assume d: "fd' \<noteq> fd \<and> getuser s fd' = Some d \<and> nickname d \<noteq> []"
  have uniq: "oids_unique (clients s)" using wf by (simp add: db_wf_def wf_dataD(5))
  have f: "um_find (nick_mp s) (nickname d) = Some (oid d)" using nw d unfolding nick_wf_def getuser_def by blast
  moreover have "nickname d \<noteq> nickname c"
  proof
    assume eq: "nickname d = nickname c"
    then have "um_find (nick_mp s) (nickname c) = Some (oid c)" using nw c d unfolding nick_wf_def getuser_def by metis
    then have "oid d = oid c" using f eq by simp
    then show False using uniq c d unfolding oids_unique_def getuser_def by metis
  qed
  ultimately show "um_find (nick_mp s') (nickname d) = um_find (nick_mp s) (nickname d)"
    using t unfolding touches_only_def by (metis option.distinct(1))
qed

text \<open>
  C5. A client that has not completed NICK and USER touches nothing of the others: whatever command line
  it sends, no channel, no other client and no node's identity changes, its own identity and channels
  stay, every byte the server sends goes to that client, and the table of nicknames changes at most
  at the client's present name and at a free name it asks for. As long as the table is exact (it is
  until a NICK is first refused with 432), the entries of all other clients stay as they were.
\<close>

theorem unregistered_isolated:
  assumes wf: "db_wf s" and fair: "fair_order env" and c: "getuser s fd = Some c" and un: "\<not> hasRegist c"
    and run: "call env fd argv s = (s', r)"
  shows "touches_only fd (nickname c) (set (take 1 (tl argv))) s s' \<and> sends_only fd s s' \<and>
    (nick_wf s \<longrightarrow> others_named fd s s')"
proof -
  have "touches_only fd (nickname c) (set (take 1 (tl argv))) s s' \<and> sends_only fd s s'"
    using run
  proof (cases rule: call_cases)
    case refused
    then show ?thesis by (simp add: touches_refl)
  next
    case (stopped cmd args k fp c' e')
    then show ?thesis using unregistered_handlers [OF wf c _ stopped(2)] un c by simp
  next
    case (ran cmd args k fp c' s1)
    then have one: "touches_only fd (nickname c) (set (take 1 (tl argv))) s s1 \<and> sends_only fd s s1"
      using unregistered_handlers [OF wf c _ ran(2)] un c by simp
    have "db_wf s1" by (rule handler_wf [OF ran(2) wf ran(3) fair ran(6)]) simp
    then have "touches_only fd (nickname c) (set (take 1 (tl argv))) s1 s' \<and> sends_only fd s1 s'"
      using finish_regist_isolated ran un c by simp
    then show ?thesis using one touches_trans sends_trans by blast
  qed
  then show ?thesis using touches_others [OF wf _ c] by blast
qed

section \<open>The table of nicknames\<close>

lemma nick_wfD:
  assumes "nick_wf s"
  shows "um_find (clients s) fd = Some c \<Longrightarrow> nickname c \<noteq> [] \<Longrightarrow> um_find (nick_mp s) (nickname c) = Some (oid c)"
    and "um_find (nick_mp s) n = Some r \<Longrightarrow>
      \<exists>fd c. um_find (clients s) fd = Some c \<and> oid c = r \<and> nickname c = n \<and> n \<noteq> []"
  using assms unfolding nick_wf_def by blast+

text \<open>A client is rewritten without touching its identity or its nickname.\<close>

lemma nick_wf_put:
  assumes "nick_wf s" and "um_find (clients s) fd = Some c" and "oid c' = oid c" "nickname c' = nickname c"
    and "clients s' = um_assign fd c' (clients s)" "nick_mp s' = nick_mp s"
  shows "nick_wf s'"
  using assms unfolding nick_wf_def by (auto simp: um_simps split: if_splits) (metis option.inject)+

lemma nick_wf_same: "clients s' = clients s \<Longrightarrow> nick_mp s' = nick_mp s \<Longrightarrow> nick_wf s' = nick_wf s"
  by (simp add: nick_wf_def)

lemma changeNick_nick_wf:
  assumes wf: "db_wf s" and nw: "nick_wf s" and c: "getuser s fd = Some c"
    and run: "Controller_nick env c args s = (s', r)" and n: "\<And>ps. r \<noteq> Some (Throw (CNum 432, ps))"
  shows "nick_wf s'"
proof (cases r)
  case (Some e)
  then have "s' = s"
    using run n by (auto simp: Controller_nick_def changeNick_def Let_def split: if_splits)
  then show ?thesis using nw by simp
next
  case None
  define nn where "nn = args ! 0"
  define c' where "c' = c\<lparr>status := status c OR NICK, nickname := nn\<rparr>"
  have ok: "client_ok fd (next_oid s) c" using getuser_ok [OF wf c] .
  have c1: "um_find (clients s) fd = Some c" using c by (simp add: getuser_def)
  have uniq: "oids_unique (clients s)" using wf by (simp add: db_wf_def wf_dataD(5))
  have free: "um_find (nick_mp s) nn = None" and nne: "nn \<noteq> []"
    and cl: "clients s' = um_assign fd c' (clients s)"
    and mp: "nick_mp s' = um_emplace nn (oid c)
       (if hasNick c then um_erase (nickname c) (nick_mp s) else nick_mp s)"
    using run None ok
    by (auto simp: Controller_nick_def changeNick_def Let_def nn_def c'_def nickInUse_def client_ok_def split: if_splits)
  have h: "hasNick c \<longleftrightarrow> nickname c \<noteq> []" using ok by (simp add: client_ok_def)
  have mpf: "um_find (nick_mp s') m = (if m = nn then Some (oid c)
     else if nickname c \<noteq> [] \<and> m = nickname c then None else um_find (nick_mp s) m)" for m
    using free h by (auto simp: mp um_simps)
  show ?thesis
    unfolding nick_wf_def
  proof (intro conjI allI impI)
    fix fd' d assume d: "um_find (clients s') fd' = Some d" "nickname d \<noteq> []"
    show "um_find (nick_mp s') (nickname d) = Some (oid d)"
    proof (cases "fd' = fd")
      case True
      then have "d = c'" using d cl c1 by (simp add: um_simps)
      then show ?thesis by (simp add: mpf c'_def)
    next
      case False
      then have d': "um_find (clients s) fd' = Some d" using d cl by (simp add: um_simps)
      have f: "um_find (nick_mp s) (nickname d) = Some (oid d)" using nick_wfD(1) [OF nw d' d(2)] .
      have "nickname d \<noteq> nn" using f free by auto
      moreover have "nickname d \<noteq> nickname c"
        using f nick_wfD(1) [OF nw c1] d(2) d' c1 uniq False unfolding oids_unique_def by (metis option.inject)
      ultimately show ?thesis using f by (simp add: mpf)
    qed
  next
    fix m q assume m: "um_find (nick_mp s') m = Some q"
    show "\<exists>fd' d. um_find (clients s') fd' = Some d \<and> oid d = q \<and> nickname d = m \<and> m \<noteq> []"
    proof (cases "m = nn")
      case True
      then show ?thesis using m nne c1 cl by (intro exI [of _ fd] exI [of _ c']) (auto simp: mpf um_simps c'_def)
    next
      case False
      then have "um_find (nick_mp s) m = Some q" "\<not> (nickname c \<noteq> [] \<and> m = nickname c)"
        using m by (auto simp: mpf split: if_splits)
      moreover obtain fd' d where d: "um_find (clients s) fd' = Some d" "oid d = q" "nickname d = m" "m \<noteq> []"
        using nick_wfD(2) [OF nw calculation(1)] by blast
      ultimately have "fd' \<noteq> fd" using c1 by auto
      then show ?thesis using d cl by (intro exI [of _ fd'] exI [of _ d]) (simp add: um_simps)
    qed
  qed
qed

lemma handler_nick_wf:
  assumes h: "um_find (cmds env) cmd = Some (k, fp)" and wf: "db_wf s" and nw: "nick_wf s"
    and c: "getuser s fd = Some c" and fair: "fair_order env"
    and run: "fp c args s = (s', r)" and n: "\<And>ps. r \<noteq> Some (Throw (CNum 432, ps))" and u: "r \<noteq> Some Undefined"
  shows "nick_wf s'"
proof -
  have c1: "um_find (clients s) fd = Some c" using c by (simp add: getuser_def)
  have fd: "connfd c = fd" using getuser_ok [OF wf c] by (simp add: client_ok_def)
  have join: "nick_wf s'" if f: "fp = Controller_join env"
  proof -
    have j: "Controller_join env c args s = (s', r)" using run f by simp
    show ?thesis
    proof (cases "getchannel s (args ! 0)")
    case (Inl e)
    then show ?thesis using j nw by (simp add: Controller_join_def Let_def)
  next
    case (Inr p)
    obtain s1 ch where "p = (s1, ch)" by (cases p)
    note e = Controller_join_effect [OF wf c fair j u Inr [unfolded this]]
    show ?thesis by (rule nick_wf_put [OF nw c1 _ _ e(2,5)]) (simp_all add: client_join_def)
    qed
  qed
  have part: "nick_wf s'" if f: "fp = Controller_part env"
  proof (cases r)
    case None
    then have e: "clients s' = um_assign fd (client_part c (args ! 0)) (clients s)" "nick_mp s' = nick_mp s"
      using Controller_part_effect [OF wf c, of env args s'] run f by blast+
    show ?thesis by (rule nick_wf_put [OF nw c1 _ _ e]) (simp_all add: client_part_def)
  next
    case (Some e)
    then have "s' = s"
      using run f u by (auto simp: Controller_part_def channel_del_def Let_def split: option.splits if_splits)
    then show ?thesis using nw by simp
  qed
  have user: "nick_wf s'" if f: "fp = Controller_user env"
  proof (cases r)
    case None
    then have e: "clients s' = um_assign fd (c\<lparr>status := status c OR USER, username := args ! 0,
        hostname := args ! 1, servername := args ! 2, realname := args ! 3\<rparr>) (clients s)" "nick_mp s' = nick_mp s"
      using run f fd by (auto simp: Controller_user_def split: if_splits)
    show ?thesis by (rule nick_wf_put [OF nw c1 _ _ e]) simp_all
  next
    case (Some e)
    then show ?thesis using run f nw by (auto simp: Controller_user_def split: if_splits)
  qed
  have topic: "nick_wf s'" if "fp = Controller_topic env"
  proof -
    have "clients s' = clients s \<and> nick_mp s' = nick_mp s"
      using that run by (auto simp: Controller_topic_def changeTopic_def Let_def split: option.splits if_splits)
    then show ?thesis using nick_wf_same nw by blast
  qed
  have names: "nick_wf s'" if "fp = Controller_names env"
  proof -
    have "clients s' = clients s \<and> nick_mp s' = nick_mp s"
      using that run
      by (auto simp: Controller_names_def getchannel_def split: option.splits if_splits sum.splits)
    then show ?thesis using nick_wf_same nw by blast
  qed
  have read: "nick_wf s'" if "fp \<in> readers env"
    using nw readers_wf(3) [OF that run] by simp
  have nick: "nick_wf s'" if "fp = Controller_nick env"
    using changeNick_nick_wf [OF wf nw c _ n] run that by blast
  from h show ?thesis
    by (cases rule: cmds_cases) (simp_all add: join part user topic names nick read readers_def)
qed

lemma finish_regist_nick_wf:
  assumes wf: "db_wf s" and nw: "nick_wf s" and "finish_regist fd s = (s', r)"
  shows "nick_wf s'"
proof (cases "getuser s fd")
  case None
  then show ?thesis using assms by (simp add: finish_regist_def)
next
  case (Some c)
  have "connfd c = fd" using getuser_ok [OF wf Some] by (simp add: client_ok_def)
  then have "s' = s \<or> (clients s' = um_assign fd (c\<lparr>status := status c OR WELCOMED\<rparr>) (clients s)
      \<and> nick_mp s' = nick_mp s)"
    using assms(3) Some by (auto simp: finish_regist_def regist_def split: if_splits)
  then show ?thesis
  proof
    assume "s' = s"
    then show ?thesis using nw by simp
  next
    assume e: "clients s' = um_assign fd (c\<lparr>status := status c OR WELCOMED\<rparr>) (clients s)
      \<and> nick_mp s' = nick_mp s"
    show ?thesis
      by (rule nick_wf_put [OF nw Some [unfolded getuser_def] _ _ e [THEN conjunct1] e [THEN conjunct2]]) simp_all
  qed
qed

lemma call_keeps_nicks:
  assumes wf: "db_wf s" and nw: "nick_wf s" and fair: "fair_order env" and run: "call env fd argv s = (s', r)"
    and n: "\<And>ps. r \<noteq> Some (Throw (CNum (err ERRONEUSNICKNAME), ps))" and u: "r \<noteq> Some Undefined"
  shows "nick_wf s'"
  using run
proof (cases rule: call_cases)
  case refused
  then show ?thesis using nw by simp
next
  case (stopped cmd args k fp c e)
  then show ?thesis using handler_nick_wf [OF stopped(2) wf nw stopped(3) fair stopped(6)] n u by simp
next
  case (ran cmd args k fp c s1)
  then have 1: "nick_wf s1" using handler_nick_wf [OF ran(2) wf nw ran(3) fair ran(6)] by simp
  have "db_wf s1" by (rule handler_wf [OF ran(2) wf ran(3) fair ran(6)]) simp
  then show ?thesis using 1 ran finish_regist_nick_wf by (cases "hasRegist c") auto
qed

text \<open>
  C7. Nicknames are unique: every command that is not refused with 432 keeps the table \<^verbatim>\<open>nick_mp\<close> in
  exact agreement with the clients' nicknames, so no two connected clients hold the same one.
\<close>

theorem call_nick_wf:
  assumes wf: "db_wf s" and nw: "nick_wf s" and fair: "fair_order env" and run: "call env fd argv s = (s', r)"
    and n: "\<And>ps. r \<noteq> Some (Throw (CNum (err ERRONEUSNICKNAME), ps))" and u: "r \<noteq> Some Undefined"
  shows "nick_wf s' \<and> (\<forall>fd1 fd2 c1 c2. getuser s' fd1 = Some c1 \<longrightarrow> getuser s' fd2 = Some c2
     \<longrightarrow> nickname c1 = nickname c2 \<longrightarrow> nickname c1 \<noteq> [] \<longrightarrow> fd1 = fd2)"
proof -
  have nw': "nick_wf s'" by (rule call_keeps_nicks [OF assms])
  have "db_wf s'" using call_wf [OF wf fair run u] .
  then have "oids_unique (clients s')" by (simp add: db_wf_def wf_dataD(5))
  then show ?thesis
    using nw' nick_wfD(1) [OF nw'] unfolding oids_unique_def getuser_def by (metis option.inject)
qed


text \<open>
  The exception: a NICK with an invalid name is answered 432, but \<^verbatim>\<open>nick_mp\<close> has been updated by
  then. The refused name stays listed, and the client's own nickname, which it keeps, is no longer
  reserved.
\<close>

theorem refused_nick_corrupts:
  assumes wf: "db_wf s" and nw: "nick_wf s" and c: "getuser s fd = Some c" and bad: "\<not> valid_nick nn"
    and run: "call env fd (''NICK'' # nn # rest) s = (s', r)"
  shows "r = Some (Throw (CNum (err ERRONEUSNICKNAME), [nn, ''Erroneous nickname'']))
    \<and> clients s' = clients s \<and> um_find (nick_mp s') nn = Some (oid c)
    \<and> (hasNick c \<longrightarrow> \<not> nickInUse s' (nickname c)) \<and> \<not> nick_wf s'"
proof -
  have free: "um_find (nick_mp s) nn = None"
  proof (rule ccontr)
    assume "um_find (nick_mp s) nn \<noteq> None"
    then obtain fd' d where "um_find (clients s) fd' = Some d" "nickname d = nn" "nn \<noteq> []"
      using nick_wfD(2) [OF nw] by blast
    then show False using bad getuser_ok [OF wf, of fd' d] by (auto simp: getuser_def client_ok_def)
  qed
  have ok: "client_ok fd (next_oid s) c" using getuser_ok [OF wf c] .
  have h: "um_find (cmds env) ''NICK'' = Some (0, Controller_nick env)" by (simp add: cmds_def)
  have s': "s' = s\<lparr>nick_mp := um_emplace nn (oid c) (if hasNick c then um_erase (nickname c) (nick_mp s) else nick_mp s)\<rparr>"
    and r: "r = Some (Throw (CNum (err ERRONEUSNICKNAME), [nn, ''Erroneous nickname'']))"
    using run h c bad free
    by (auto simp: call_def Controller_nick_def changeNick_def Let_def nickInUse_def unreg_allow_def
        valid_nick_def hd_conv_nth split: if_splits)
  have ne: "hasNick c \<Longrightarrow> nickname c \<noteq> nn" using ok bad by (auto simp: client_ok_def)
  have f: "um_find (nick_mp s') nn = Some (oid c)"
    using free by (simp add: s' um_simps)
  have "\<not> nick_wf s'"
  proof
    assume nw': "nick_wf s'"
    obtain fd' d where d: "um_find (clients s') fd' = Some d" "nickname d = nn" "nn \<noteq> []"
      using nick_wfD(2) [OF nw' f] by blast
    then show False using bad getuser_ok [OF wf, of fd' d] s' by (auto simp: getuser_def client_ok_def)
  qed
  moreover have "hasNick c \<longrightarrow> \<not> nickInUse s' (nickname c)" using ne by (auto simp: nickInUse_def s' um_simps)
  moreover have "clients s' = clients s" by (simp add: s')
  ultimately show ?thesis using r f by simp
qed

section \<open>References to clients\<close>

lemma deref_iff:
  "um_wf (clients s) \<Longrightarrow> deref s r \<noteq> None \<longleftrightarrow> (\<exists>fd c. um_find (clients s) fd = Some c \<and> oid c = r)"
  unfolding deref_def find_None_iff by (force simp: um_in_set_find [symmetric])

lemma refs_liveD:
  "refs_live s \<Longrightarrow> um_find (channels s) nm = Some ch \<Longrightarrow> um_find (users ch) fd = Some r
    \<Longrightarrow> \<exists>c. um_find (clients s) fd = Some c \<and> oid c = r"
  unfolding refs_live_def by blast

lemma refs_live_put:
  assumes "refs_live s" and "um_find (clients s) fd = Some c" and "oid c' = oid c"
    and "clients s' = um_assign fd c' (clients s)" "channels s' = channels s"
  shows "refs_live s'"
  using assms unfolding refs_live_def by (auto simp: um_simps) (metis option.inject)+

lemma getchannel_refs_live:
  assumes "getchannel s nm = Inr (s1, ch)" and "db_wf s" and "refs_live s"
  shows "refs_live s1"
  using assms by (cases rule: getchannel_cases) (auto simp: refs_live_def um_simps split: if_splits)

lemma getusers_live:
  assumes wf: "um_wf (clients s)" and fair: "fair_order env"
    and live: "\<And>fd r. um_find (users ch) fd = Some r \<Longrightarrow> \<exists>fd c. um_find (clients s) fd = Some c \<and> oid c = r"
  shows "\<exists>ms. getusers env ch s = Some ms"
  unfolding getusers_defined [OF fair] using live deref_iff [OF wf] by blast

lemma names_loop_live:
  assumes "db_wf s" and "refs_live s" and "fair_order env" and "\<forall>nm \<in> set nms. um_find (channels s) nm \<noteq> None"
  shows "\<exists>ms. names_loop env s nms out = Some ms"
  using assms(4)
proof (induction nms arbitrary: out)
  case (Cons nm nms)
  then obtain ch where ch: "um_find (channels s) nm = Some ch" by auto
  have "um_wf (clients s)" using assms(1) by (simp add: db_wf_def wf_dataD(1))
  then obtain ms where "getusers env ch s = Some ms"
    using getusers_live [OF _ assms(3)] refs_liveD [OF assms(2) ch] by meson
  then show ?case using Cons ch by simp
qed simp

lemma Controller_names_live:
  assumes wf: "db_wf s" and live: "refs_live s" and fair: "fair_order env"
    and run: "Controller_names env c args s = (s', r)"
  shows "refs_live s' \<and> r \<noteq> Some Undefined"
proof (cases "args = []")
  case True
  obtain ms where "names_loop env s (name_order env (um_keys (channels s))) [] = Some ms"
    using names_loop_live [OF wf live fair, of "name_order env (um_keys (channels s))"] fair
    by (auto simp: um_keys_find)
  then show ?thesis using run live True by (auto simp: Controller_names_def)
next
  case False
  show ?thesis
  proof (cases "getchannel s (args ! 0)")
    case (Inl e)
    then show ?thesis
      using run live False by (auto simp: Controller_names_def getchannel_def new_channel_def split: option.splits if_splits)
  next
    case (Inr p)
    obtain s1 ch where p: "p = (s1, ch)" by (cases p)
    note g = getchannel_wf [OF Inr [unfolded p] wf]
    have l1: "refs_live s1" using getchannel_refs_live [OF Inr [unfolded p] wf live] .
    have "um_wf (clients s1)" using g(1) by (simp add: db_wf_def wf_dataD(1))
    then obtain ms where "getusers env ch s1 = Some ms"
      using getusers_live [OF _ fair] refs_liveD [OF l1 g(2)] by meson
    then show ?thesis using run False Inr p l1 by (auto simp: Controller_names_def)
  qed
qed

text \<open>JOIN up to the call of \<^verbatim>\<open>names\<close>.\<close>

definition joined_db :: "hash_order \<Rightarrow> Client \<Rightarrow> string \<Rightarrow> Channel \<Rightarrow> Database \<Rightarrow> Database" where
  "joined_db env c nm ch s1 =
     sendcmd (connfd c) (gettopic ch) nm (channel_add env ch (client_join c nm) (put_client (client_join c nm) s1))"

lemma join_before_names:
  assumes wf: "db_wf s" and live: "refs_live s" and c: "getuser s fd = Some c"
    and g: "getchannel s (args ! 0) = Inr (s1, ch)"
  shows "Controller_join env c args s = Controller_names env (client_join c (args ! 0)) [args ! 0] (joined_db env c (args ! 0) ch s1)"
    and "db_wf (joined_db env c (args ! 0) ch s1)" and "refs_live (joined_db env c (args ! 0) ch s1)"
    and "channels (joined_db env c (args ! 0) ch s1) =
      um_assign (args ! 0) (ch\<lparr>users := um_emplace fd (oid c) (users ch)\<rparr>) (channels s1)"
proof -
  define nm where "nm = args ! 0"
  define s3 where "s3 = joined_db env c nm ch s1"
  note gc = getchannel_wf [OF g [folded nm_def] wf]
  have fd: "connfd c = fd" using getuser_ok [OF wf c] by (simp add: client_ok_def)
  have c': "connfd (client_join c nm) = fd" "oid (client_join c nm) = oid c" using fd by (simp_all add: client_join_def)
  have cs: "um_find (clients s1) fd = Some c" using c gc(4) by (simp add: getuser_def)
  have l1: "refs_live s1" using getchannel_refs_live [OF g wf live] .
  have free: "um_find (users ch) fd = None \<or> um_find (users ch) fd = Some (oid c)"
    using refs_liveD [OF l1 gc(2)] cs by (cases "um_find (users ch) fd") fastforce+
  have d3: "clients s3 = um_assign fd (client_join c nm) (clients s1)"
     "channels s3 = um_assign nm (ch\<lparr>users := um_emplace fd (oid c) (users ch)\<rparr>) (channels s1)"
     "next_oid s3 = next_oid s1"
    using c' gc(3) by (simp_all add: s3_def joined_db_def channel_add_def Let_def)
  show "db_wf (joined_db env c (args ! 0) ch s1)"
    unfolding nm_def [symmetric] s3_def [symmetric] db_wf_def d3
    by (rule wf_join) (use gc cs free in \<open>auto simp: db_wf_def\<close>)
  show "refs_live (joined_db env c (args ! 0) ch s1)"
    unfolding nm_def [symmetric] s3_def [symmetric]
    using l1 gc(2) cs c'(2) free unfolding refs_live_def d3
    by (auto simp: um_simps split: if_splits) (metis option.inject)+
  show "channels (joined_db env c (args ! 0) ch s1) = um_assign (args ! 0) (ch\<lparr>users := um_emplace fd (oid c) (users ch)\<rparr>) (channels s1)"
    using d3(2) by (simp add: s3_def nm_def)
  show "Controller_join env c args s = Controller_names env (client_join c (args ! 0)) [args ! 0] (joined_db env c (args ! 0) ch s1)"
    using g c' gc(3) fd
    by (simp add: Controller_join_def nm_def joined_db_def Let_def client_join_def)
qed

lemma Controller_join_live:
  assumes wf: "db_wf s" and live: "refs_live s" and fair: "fair_order env" and c: "getuser s fd = Some c"
    and run: "Controller_join env c args s = (s', r)"
  shows "refs_live s' \<and> r \<noteq> Some Undefined"
proof (cases "getchannel s (args ! 0)")
  case (Inl e)
  then show ?thesis
    using run live by (auto simp: Controller_join_def Let_def getchannel_def new_channel_def split: option.splits if_splits)
next
  case (Inr p)
  then obtain s1 ch where g: "getchannel s (args ! 0) = Inr (s1, ch)" by (cases p) simp
  note j = join_before_names [OF wf live c g, of env]
  show ?thesis using Controller_names_live [OF j(2,3) fair] run unfolding j(1) by blast
qed

lemma Controller_part_live:
  assumes wf: "db_wf s" and live: "refs_live s" and fair: "fair_order env" and c: "getuser s fd = Some c"
    and run: "Controller_part env c args s = (s', r)"
  shows "refs_live s' \<and> r \<noteq> Some Undefined"
proof -
  have u: "r \<noteq> Some Undefined"
  proof
    assume bad: "r = Some Undefined"
    then obtain ch where ch: "um_find (channels s) (args ! 0) = Some ch" "client_in c (cname ch)"
      and d: "snd (channel_del env ch (connfd c) m (put_client (client_part c (cname ch)) s)) = Some Undefined"
      for m
      using run by (auto simp: Controller_part_def Let_def channel_del_def split: option.splits if_splits)
    have nm: "cname ch = args ! 0" using wf ch(1) by (auto simp: db_wf_def channel_ok_def dest: wf_dataD(4))
    have w: "members_agree (clients s) (channels s)" "um_wf (clients s)" using wf by (simp_all add: db_wf_def wf_dataD)
    have fd: "connfd c = fd" using getuser_ok [OF wf c] by (simp add: client_ok_def)
    have m: "um_find (users ch) fd = Some (oid c)"
      using members_agreeD [OF w(1), of fd c "args ! 0"] c ch nm by (simp add: getuser_def member_def)
    define t where "t = put_client (client_part c (cname ch)) s"
    have "um_wf (clients t)" "um_find (clients t) fd = Some (client_part c (cname ch))"
      using w(2) c fd by (simp_all add: t_def um.wf_assign um_simps getuser_def client_part_def)
    then have "deref t (oid c) \<noteq> None"
      unfolding deref_iff [OF \<open>um_wf (clients t)\<close>] using \<open>um_find (clients t) fd = _\<close>
      by (intro exI [of _ fd] exI [of _ "client_part c (cname ch)"]) (simp add: client_part_def)
    then show False using d [folded t_def] m fd by (auto simp: channel_del_def split: option.splits)
  qed
  show ?thesis
  proof (cases r)
    case None
    then obtain ch where e: "um_find (channels s) (args ! 0) = Some ch"
       "clients s' = um_assign fd (client_part c (args ! 0)) (clients s)"
       "channels s' = um_assign (args ! 0) (ch\<lparr>users := um_erase fd (users ch)\<rparr>) (channels s)"
      using Controller_part_effect [OF wf c] run by blast
    have "refs_live s'"
      using live e(1) c unfolding refs_live_def e(2,3)
      by (auto simp: um_simps client_part_def getuser_def split: if_splits) (metis option.inject)
    then show ?thesis using u by simp
  next
    case (Some e)
    then have "s' = s"
      using run u by (auto simp: Controller_part_def channel_del_def Let_def split: option.splits if_splits)
    then show ?thesis using live u by simp
  qed
qed

lemma handler_live:
  assumes h: "um_find (cmds env) cmd = Some (k, fp)" and wf: "db_wf s" and live: "refs_live s"
    and c: "getuser s fd = Some c" and fair: "fair_order env" and run: "fp c args s = (s', r)"
    and nu: "cmd \<noteq> ''USERS''"
  shows "refs_live s' \<and> r \<noteq> Some Undefined"
proof -
  have c1: "um_find (clients s) fd = Some c" using c by (simp add: getuser_def)
  have fd: "connfd c = fd" using getuser_ok [OF wf c] by (simp add: client_ok_def)
  have nick: ?thesis if "fp = Controller_nick env"
  proof -
    have "channels s' = channels s \<and> r \<noteq> Some Undefined \<and> (clients s' = clients s \<or>
       clients s' = um_assign fd (c\<lparr>status := status c OR NICK, nickname := args ! 0\<rparr>) (clients s))"
      using run that fd by (auto simp: Controller_nick_def changeNick_def Let_def split: if_splits)
    then show ?thesis
      using refs_live_put [OF live c1, of "c\<lparr>status := status c OR NICK, nickname := args ! 0\<rparr>" s'] live
      by (auto simp: refs_live_def)
  qed
  have user: ?thesis if "fp = Controller_user env"
  proof -
    define c' where "c' = c\<lparr>status := status c OR USER, username := args ! 0,
        hostname := args ! 1, servername := args ! 2, realname := args ! 3\<rparr>"
    have "channels s' = channels s \<and> r \<noteq> Some Undefined \<and>
       (clients s' = clients s \<or> clients s' = um_assign fd c' (clients s))"
      using run that fd by (auto simp: Controller_user_def c'_def split: if_splits)
    then show ?thesis
      using refs_live_put [OF live c1, of c' s'] live by (auto simp: refs_live_def c'_def)
  qed
  have topic: ?thesis if f: "fp = Controller_topic env"
  proof -
    have "r \<noteq> Some Undefined \<and> clients s' = clients s \<and> (channels s' = channels s \<or>
      (\<exists>ch. um_find (channels s) (args ! 0) = Some ch
        \<and> channels s' = um_assign (cname ch) (ch\<lparr>topic := args ! 1\<rparr>) (channels s)))"
      using run f by (auto simp: Controller_topic_def changeTopic_def Let_def split: option.splits if_splits)
    moreover have "cname ch = args ! 0" if "um_find (channels s) (args ! 0) = Some ch" for ch
      using wf that by (auto simp: db_wf_def channel_ok_def dest: wf_dataD(4))
    ultimately show ?thesis
      using live unfolding refs_live_def by (auto simp: um_simps split: if_splits)
  qed
  have read: ?thesis
    if f: "fp \<in> {Controller_list env, Controller_privmsg env, Controller_ping env, Controller_quit env}"
  proof -
    have "r \<noteq> Some Undefined"
      using run f by (auto simp: Controller_list_def Controller_privmsg_def Controller_ping_def
        Controller_quit_def Let_def split: if_splits option.splits)
    moreover have m: "fp \<in> readers env" using f by (auto simp: readers_def)
    ultimately show ?thesis using readers_wf(2) [OF m run] live by simp
  qed
  have other: ?thesis if "fp \<in> {Controller_join env, Controller_part env, Controller_names env}"
    using that run Controller_join_live [OF wf live fair c] Controller_part_live [OF wf live fair c]
      Controller_names_live [OF wf live fair] by blast
  from h nu show ?thesis
    by (cases rule: cmds_cases) (simp_all add: nick user topic read other)
qed

lemma finish_regist_live:
  assumes wf: "db_wf s" and live: "refs_live s" and run: "finish_regist fd s = (s', r)"
  shows "refs_live s'"
proof (cases "getuser s fd")
  case None
  then show ?thesis using assms by (simp add: finish_regist_def)
next
  case (Some c)
  have fd: "connfd c = fd" using getuser_ok [OF wf Some] by (simp add: client_ok_def)
  have "channels s' = channels s \<and> (clients s' = clients s
      \<or> clients s' = um_assign fd (c\<lparr>status := status c OR WELCOMED\<rparr>) (clients s))"
    using run Some fd by (auto simp: finish_regist_def regist_def split: if_splits)
  then show ?thesis
    using live refs_live_put [OF live Some [unfolded getuser_def], of "c\<lparr>status := status c OR WELCOMED\<rparr>" s']
    by (auto simp: refs_live_def)
qed

lemma call_live:
  assumes wf: "db_wf s" and live: "refs_live s" and fair: "fair_order env" and c: "getuser s fd = Some c"
    and nu: "argv = [] \<or> hd argv \<noteq> ''USERS''" and run: "call env fd argv s = (s', r)"
  shows "refs_live s' \<and> r \<noteq> Some Undefined"
  using run
proof (cases rule: call_cases)
  case refused
  have "r \<noteq> Some Undefined"
  proof
    assume u: "r = Some Undefined"
    obtain cmd args where a: "argv = cmd # args" using refused(3) u by (cases argv) auto
    obtain k fp where "um_find (cmds env) cmd = Some (k, fp)"
      using run u a by (auto simp: call_def split: option.splits)
    moreover have "fp c args s = (s', Some Undefined) \<or> (\<exists>s1. fp c args s = (s1, None) \<and> finish_regist fd s1 = (s', Some Undefined))"
      using run u a c calculation by (auto simp: call_def split: if_splits prod.splits option.splits)
    ultimately show False
      using handler_live [OF _ wf live c fair] nu a finish_regist_runs handler_keeps_client c
      by (metis list.sel(1) list.simps(3) option.distinct(1) prod.inject)
  qed
  then show ?thesis using refused live by simp
next
  case (stopped cmd args k fp c' e)
  then show ?thesis using handler_live [OF stopped(2) wf live stopped(3) fair stopped(6)] nu by simp
next
  case (ran cmd args k fp c' s1)
  have 1: "refs_live s1" using handler_live [OF ran(2) wf live ran(3) fair ran(6)] nu ran(1) by simp
  have wf1: "db_wf s1" by (rule handler_wf [OF ran(2) wf ran(3) fair ran(6)]) simp
  obtain c1 where "getuser s1 fd = Some c1" using handler_keeps_client [OF ran(2,6) c] .
  then obtain s2 where "finish_regist fd s1 = (s2, None)" using finish_regist_runs by blast
  then show ?thesis using 1 ran finish_regist_live [OF wf1] by (cases "hasRegist c'") auto
qed

text \<open>
  C6. No command other than USERS reaches undefined behaviour as long as the references held by the
  channels are live, and none of them makes a reference dangle.
\<close>

theorem call_defined:
  assumes wf: "db_wf s" and live: "refs_live s" and fair: "fair_order env" and c: "getuser s fd = Some c"
    and nu: "argv = [] \<or> hd argv \<noteq> ''USERS''" and run: "call env fd argv s = (s', r)"
  shows "refs_live s' \<and> r \<noteq> Some Undefined"
  by (rule call_live [OF assms])

end
