(* ===== verification/IrcService.thy ===== *)
theory IrcService
  imports IrcCalls
begin

text \<open>
  What the IRC server does for its clients: JOIN, PART, PRIVMSG, TOPIC and the registration, as
  functional specifications over the membership relation and the output; then the places where
  valid input reaches undefined behaviour, with runs of the server from its start that reach them.
\<close>

section \<open>Functional behaviour\<close>

lemma call_registered:
  assumes "getuser s fd = Some c" and "hasRegist c" and "um_find (cmds env) cmd = Some (k, fp)" and "k \<le> length args"
  shows "call env fd (cmd # args) s = fp c args s"
  using assms by (auto simp: call_def split: prod.split option.split)

lemma cmds_lookup [simp]:
  "um_find (cmds env) ''NICK'' = Some (0, Controller_nick env)"
  "um_find (cmds env) ''USER'' = Some (4, Controller_user env)"
  "um_find (cmds env) ''QUIT'' = Some (0, Controller_quit env)"
  "um_find (cmds env) ''JOIN'' = Some (1, Controller_join env)"
  "um_find (cmds env) ''PART'' = Some (1, Controller_part env)"
  "um_find (cmds env) ''TOPIC'' = Some (1, Controller_topic env)"
  "um_find (cmds env) ''NAMES'' = Some (0, Controller_names env)"
  "um_find (cmds env) ''PRIVMSG'' = Some (0, Controller_privmsg env)"
  "um_find (cmds env) ''USERS'' = Some (0, Controller_users env)"
  by (simp_all add: cmds_def)

text \<open>
  C9. JOIN: a registered client that names a valid or existing channel becomes a member of it, the
  channel being created when it is missing; the memberships of all others, all other channels and
  all other clients stay as they were.
\<close>

theorem join_functional:
  assumes wf: "db_wf s" and live: "refs_live s" and fair: "fair_order env" and c: "getuser s fd = Some c"
    and reg: "hasRegist c" and ok: "valid_channel_name nm \<or> hasChannel s nm"
    and run: "call env fd (''JOIN'' # nm # rest) s = (s', r)"
  shows "r = None \<and> (\<exists>c'. getuser s' fd = Some c' \<and> client_in c' nm)
    \<and> (\<forall>m fd' q. member (channels s') m fd' q \<longleftrightarrow> member (channels s) m fd' q \<or> (m = nm \<and> fd' = fd \<and> q = oid c))
    \<and> (\<forall>m. m \<noteq> nm \<longrightarrow> um_find (channels s') m = um_find (channels s) m)
    \<and> (\<forall>fd'. fd' \<noteq> fd \<longrightarrow> getuser s' fd' = getuser s fd')"
proof -
  have j: "Controller_join env c (nm # rest) s = (s', r)"
    using run call_registered [OF c reg, of env "''JOIN''" 1 _ "nm # rest"] by simp
  have u: "r \<noteq> Some Undefined" using Controller_join_live [OF wf live fair c j] by simp
  obtain s1 ch where g: "getchannel s ((nm # rest) ! 0) = Inr (s1, ch)"
    using ok by (cases "um_find (channels s) nm") (auto simp: getchannel_def new_channel_def hasChannel_def)
  note e = Controller_join_effect [OF wf c fair j u g]
  note h = getchannel_wf [OF g wf]
  have old: "um_find (channels s1) m = (if m = nm then Some ch else um_find (channels s) m)"
     and new: "um_find (channels s) nm = None \<Longrightarrow> users ch = []"
     and same: "um_find (channels s) nm = Some ch' \<Longrightarrow> ch' = ch" for m ch'
    using h(2) by (cases rule: getchannel_cases [OF g wf]; auto simp: um_simps)+
  have m: "member (channels s') m fd' q \<longleftrightarrow> member (channels s) m fd' q \<or> (m = nm \<and> fd' = fd \<and> q = oid c)" for m fd' q
    using old [of m] new same e(1)
    by (auto simp: member_def e(3) um_simps split: option.splits if_splits)
  have "um_find (clients s') fd = Some (client_join c nm)"
    using c by (simp add: e(2) um_simps getuser_def)
  then have "\<exists>c'. getuser s' fd = Some c' \<and> client_in c' nm"
    by (simp add: getuser_def client_join_def client_in_def um_simps)
  then show ?thesis
    using e(6) m old by (simp add: e(2,3) um_simps getuser_def)
qed

text \<open>
  PART: a member leaves the channel. Exactly its own membership is removed, and every member, the one
  that leaves included, is sent the PART message with the given text, or the default one.
\<close>

theorem part_functional:
  assumes wf: "db_wf s" and live: "refs_live s" and fair: "fair_order env" and c: "getuser s fd = Some c"
    and reg: "hasRegist c" and i: "client_in c nm"
    and run: "call env fd (''PART'' # nm # rest) s = (s', r)"
  shows "r = None \<and> (\<exists>c'. getuser s' fd = Some c' \<and> \<not> client_in c' nm)
    \<and> (\<forall>m fd' q. member (channels s') m fd' q \<longleftrightarrow> member (channels s) m fd' q \<and> \<not> (m = nm \<and> fd' = fd))
    \<and> (\<exists>ch. um_find (channels s) nm = Some ch \<and>
        sent s' = sent s @ map (\<lambda>d. (d, fmt_cmds [(CStr ''PART'', [nm, if rest = [] then default_part_msg else hd rest])]
             (nickname c))) (member_fds env ch))"
proof -
  have p: "Controller_part env c (nm # rest) s = (s', r)"
    using run call_registered [OF c reg, of env "''PART''" 1 _ "nm # rest"] by simp
  have u: "r \<noteq> Some Undefined" using Controller_part_live [OF wf live fair c p] by simp
  have w: "members_agree (clients s) (channels s)" "um_wf (clients s)" using wf by (simp_all add: db_wf_def wf_dataD)
  have c1: "um_find (clients s) fd = Some c" using c by (simp add: getuser_def)
  have "member (channels s) nm fd (oid c)" using members_agreeD [OF w(1) c1] i by simp
  then obtain ch where ch: "um_find (channels s) nm = Some ch" "um_find (users ch) fd = Some (oid c)"
    by (auto simp: member_def split: option.splits)
  have nm: "cname ch = nm" using wf ch(1) by (auto simp: db_wf_def channel_ok_def dest: wf_dataD(4))
  have fd: "connfd c = fd" using getuser_ok [OF wf c] by (simp add: client_ok_def)
  have none: "r = None"
    using p u i ch nm by (auto simp: Controller_part_def channel_del_def Let_def split: option.splits if_splits)
  note e = Controller_part_effect [OF wf c p [unfolded none]]
  define t where "t = put_client (client_part c nm) s"
  have ct: "clients t = um_assign fd (client_part c nm) (clients s)"
    using fd by (simp add: t_def client_part_def)
  have "um_wf (clients t)" using w(2) by (simp add: ct um.wf_assign)
  moreover have "um_find (clients t) fd = Some (client_part c nm)" using c1 by (simp add: ct um_simps)
  moreover have part: "oid (client_part c nm) = oid c" "nickname (client_part c nm) = nickname c"
    by (simp_all add: client_part_def)
  ultimately obtain d where d: "deref t (oid c) = Some d" using deref_iff [of t "oid c"] by auto
  obtain fd' where fd': "um_find (clients t) fd' = Some d" "oid d = oid c"
    using deref_Some [OF \<open>um_wf (clients t)\<close> d] by blast
  have nick: "nickname d = nickname c"
  proof -
    have "oids_unique (clients s)" using wf by (simp add: db_wf_def wf_dataD(5))
    then show ?thesis using fd' c1 part unfolding ct oids_unique_def by (auto simp: um_simps split: if_splits)
  qed
  have sent: "sent s' = sent s @ map (\<lambda>d. (d, fmt_cmds [(CStr ''PART'', [nm, if rest = [] then default_part_msg else hd rest])]
             (nickname c))) (member_fds env ch)"
    using p none i ch nm fd d nick
    by (cases rest) (auto simp: Controller_part_def channel_del_def t_def [symmetric] Let_def put_channel_def sendall_eq
        put_client_def t_def split: option.splits if_splits)
  have m: "member (channels s') m fd' q \<longleftrightarrow> member (channels s) m fd' q \<and> \<not> (m = nm \<and> fd' = fd)" for m fd' q
    using e ch by (auto simp: member_def um_simps split: option.splits if_splits)
  have "getuser s' fd = Some (client_part c nm)"
    using e c1 by (auto simp: getuser_def um_simps)
  then show ?thesis using none m sent ch by (auto simp: client_in_def client_part_def um_simps)
qed

text \<open>
  C10. PRIVMSG: the message is sent exactly once to every member of the channel other than the sender,
  to nobody else, and nothing but the output changes. (The README says \<^emph>\<open>to all users in the channel\<close>,
  which includes the sender; this is what the code does.)
\<close>

theorem privmsg_delivery:
  assumes wf: "db_wf s" and fair: "fair_order env" and c: "getuser s fd = Some c" and reg: "hasRegist c"
    and ch: "um_find (channels s) nm = Some ch"
  shows "\<exists>fds. call env fd (''PRIVMSG'' # nm # txt # rest) s
       = (s\<lparr>sent := sent s @ map (\<lambda>d. (d, fmt_cmds [(CStr ''PRIVMSG'', [nm, txt])] (nickname c))) fds\<rparr>, None)
     \<and> distinct fds \<and> set fds = {d. d \<noteq> fd \<and> (\<exists>q. member (channels s) nm d q)}"
proof -
  have fd: "connfd c = fd" using getuser_ok [OF wf c] by (simp add: client_ok_def)
  have "um_wf (users ch)" using wf ch by (auto simp: db_wf_def channel_ok_def dest: wf_dataD(4))
  then have "distinct (member_fds env ch)"
    using fair_fds_distinct [OF fair] by (simp add: member_fds_def um_wf_def)
  moreover have "set (member_fds env ch) = {d. \<exists>q. member (channels s) nm d q}"
    using set_member_fds [OF fair] ch by (auto simp: member_def)
  ultimately show ?thesis
    using ch fd call_registered [OF c reg, of env "''PRIVMSG''" 0 _ "nm # txt # rest"]
    by (intro exI [of _ "filter (\<lambda>d. d \<noteq> fd) (member_fds env ch)"])
      (auto simp: Controller_privmsg_def sendall_eq)
qed

text \<open>
  TOPIC: a nonempty topic that one member sets is what any member reads afterwards.
\<close>

theorem topic_set_get:
  assumes wf: "db_wf s" and c: "getuser s fd = Some c" and reg: "hasRegist c" and i: "client_in c nm"
    and set: "call env fd [''TOPIC'', nm, t] s = (s1, r1)" and ne: "t \<noteq> []"
    and c2: "getuser s fd2 = Some c2" and reg2: "hasRegist c2" and i2: "client_in c2 nm"
    and get: "call env fd2 [''TOPIC'', nm] s1 = (s2, r2)"
  shows "r1 = None \<and> r2 = None \<and> clients s1 = clients s
    \<and> s2 = s1\<lparr>sent := sent s1 @ [(fd2, fmt_cmds [(CNum (rpl IrcMsg.TOPIC), [nm, t])] (nickname c2))]\<rparr>"
proof -
  have w: "members_agree (clients s) (channels s)" using wf by (simp_all add: db_wf_def wf_dataD)
  have "member (channels s) nm fd (oid c)" using members_agreeD [OF w, of fd c] i c by (simp add: getuser_def)
  then obtain ch where ch: "um_find (channels s) nm = Some ch" by (auto simp: member_def split: option.splits)
  have nm: "cname ch = nm" using wf ch(1) by (auto simp: db_wf_def channel_ok_def dest: wf_dataD(4))
  have fd2: "connfd c2 = fd2" using getuser_ok [OF wf c2] by (simp add: client_ok_def)
  have "Controller_topic env c [nm, t] s = (s1, r1)"
    using set call_registered [OF c reg, of env "''TOPIC''" 1 _ "[nm, t]"] by simp
  then have 1: "s1 = changeTopic env ch (nickname c) t s" "r1 = None"
    using ch nm i by (simp_all add: Controller_topic_def)
  have cl: "clients s1 = clients s" and
    ch1: "um_find (channels s1) nm = Some (ch\<lparr>topic := t\<rparr>)"
    using ch nm by (simp_all add: 1 changeTopic_def Let_def um_simps)
  have "getuser s1 fd2 = Some c2" using c2 cl by (simp add: getuser_def)
  then have "Controller_topic env c2 [nm] s1 = (s2, r2)"
    using get call_registered [OF _ reg2, of s1 fd2 env "''TOPIC''" 1 _ "[nm]"] by simp
  then show ?thesis
    using 1 cl ch1 nm i2 ne fd2
    by (simp add: Controller_topic_def gettopic_def sendcmd_def sendcmds_def sendstr_def)
qed

text \<open>
  Registration: when a command of an unregistered client ends normally, the client is registered
  exactly when it has given both NICK and USER, and the welcome texts are sent then and only then,
  once, after the echo of a NICK that replaces another.
\<close>

theorem welcome_once:
  assumes wf: "db_wf s" and c: "getuser s fd = Some c" and un: "\<not> hasRegist c"
    and run: "call env fd (cmd # args) s = (s', None)"
  shows "\<exists>c' echo. getuser s' fd = Some c' \<and> (hasRegist c' \<longleftrightarrow> canRegist c')
     \<and> echo = (if hasNick c \<and> cmd = ''NICK'' then [(fd, fmt_cmds [(CStr ''NICK'', [args ! 0])] (nickname c))] else [])
     \<and> sent s' = sent s @ echo @ (if hasRegist c' then [(fd, fmt_cmds WELCOME_CMDS (nickname c'))] else [])"
  using run
proof (cases rule: call_cases)
  case refused
  then show ?thesis by simp
next
  case (stopped cmd' args' k fp c' e)
  then show ?thesis by simp
next
  case (ran cmd' args' k fp d s1)
  have eq: "cmd' = cmd" "args' = args" "d = c" using ran(1,3) c by auto
  have fin: "finish_regist fd s1 = (s', None)" using ran(8) un eq by simp
  have fd: "connfd c = fd" using getuser_ok [OF wf c] by (simp add: client_ok_def)
  have c1: "um_find (clients s) fd = Some c" using c by (simp add: getuser_def)
  define echo where "echo = (if hasNick c \<and> cmd = ''NICK'' then [(fd, fmt_cmds [(CStr ''NICK'', [args ! 0])] (nickname c))] else [])"
  have "\<exists>c1. um_find (clients s1) fd = Some c1 \<and> connfd c1 = fd \<and> \<not> hasRegist c1 \<and> sent s1 = sent s @ echo"
  proof -
    have nick: ?thesis if "cmd = ''NICK''"
    proof -
      have "Controller_nick env c args s = (s1, None)" using ran(2,6) eq that by simp
      then show ?thesis using c1 un fd that
        by (auto simp: Controller_nick_def changeNick_def Let_def echo_def um_simps put_client_def sendcmd_def
            sendcmds_def sendstr_def flags_bits bit_or_iff split: if_splits)
    qed
    have user: ?thesis if "cmd = ''USER''"
    proof -
      have "Controller_user env c args s = (s1, None)" using ran(2,6) eq that by simp
      then show ?thesis using c1 un fd that
        by (auto simp: Controller_user_def echo_def um_simps put_client_def flags_bits bit_or_iff split: if_splits)
    qed
    have "cmd \<noteq> ''QUIT''" using ran(2,6) eq by (auto simp: Controller_quit_def)
    then show ?thesis using ran(5) eq un nick user by (auto simp: unreg_allow_def)
  qed
  then obtain d1 where d1: "um_find (clients s1) fd = Some d1" "connfd d1 = fd" "\<not> hasRegist d1" "sent s1 = sent s @ echo"
    by blast
  have "\<exists>c'. getuser s' fd = Some c' \<and> (hasRegist c' \<longleftrightarrow> canRegist c')
     \<and> sent s' = sent s @ echo @ (if hasRegist c' then [(fd, fmt_cmds WELCOME_CMDS (nickname c'))] else [])"
    using fin d1
    by (auto simp: finish_regist_def regist_def getuser_def um_simps sendcmds_def sendstr_def put_client_def
        flags_bits bit_or_iff split: if_splits)
  then show ?thesis unfolding echo_def by blast
qed

section \<open>Faults\<close>

text \<open>
  The end of a connection leaves the references live exactly when the client is in no channel:
  \<^verbatim>\<open>client_del\<close> erases the client and its nickname but not its entries in the channels it has joined,
  whose \<^verbatim>\<open>Client&\<close> then dangle.
\<close>

theorem disconnect_refs_live:
  assumes wf: "server_wf s" and live: "refs_live s" and c: "um_find (clients s) fd = Some c"
  shows "refs_live (disconnect fd s) \<longleftrightarrow> (\<forall>nm. \<not> client_in c nm)"
proof -
  have d: "clients (disconnect fd s) = um_erase fd (clients s)" "channels (disconnect fd s) = channels s"
    using c by (simp_all add: disconnect_def client_del_def getuser_def)
  have m: "client_in c nm \<longleftrightarrow> member (channels s) nm fd (oid c)" for nm
    using wf c members_agreeD by (auto simp: server_wf_def db_wf_def dest!: wf_dataD(7))
  have "refs_live (disconnect fd s) \<longleftrightarrow> (\<forall>nm ch r. um_find (channels s) nm = Some ch \<longrightarrow> um_find (users ch) fd \<noteq> Some r)"
    using live unfolding refs_live_def d by (auto simp: um_simps)
  also have "\<dots> \<longleftrightarrow> (\<forall>nm. \<not> member (channels s) nm fd (oid c))"
  proof -
    have "r = oid c" if "um_find (channels s) nm = Some ch" "um_find (users ch) fd = Some r" for nm ch r
      using refs_liveD [OF live that] c by auto
    then show ?thesis unfolding member_def by (fastforce split: option.splits)
  qed
  finally show ?thesis using m by simp
qed

text \<open>
  C11. A crash that any two clients can cause: in every reachable state in which a client is in a channel
  and another one is registered, the first closes its connection; the channel then still lists its
  reference, which dangles, and a line of the other client that asks for the NAMES of the channel
  makes the server follow it, in whatever order the members are traversed.
\<close>

theorem disconnect_dangles:
  assumes reach: "reachable s" and fair: "fair_order env"
    and c: "um_find (clients s) fd = Some c" "client_in c nm" "fd \<in> set (epfds s)"
    and d: "fd' \<noteq> fd" "um_find (clients s) fd' = Some d" "hasRegist d"
    and line: "parse line (length line) = [''NAMES'', nm]"
  shows "server_step env (Input fd []) s = (disconnect fd s, True) \<and> reachable (disconnect fd s) \<and>
    (\<exists>ch r. um_find (channels (disconnect fd s)) nm = Some ch \<and> um_find (users ch) fd = Some r \<and>
       deref (db (disconnect fd s)) r = None) \<and>
    \<not> snd (handle_line env fd' line (disconnect fd s))"
proof -
  let ?s = "disconnect fd s"
  have wf: "server_wf s" using reachable_wf reach .
  then have data: "wf_data (clients s) (channels s) (next_oid s)" by (simp add: server_wf_def db_wf_def)
  have s': "clients ?s = um_erase fd (clients s)" "channels ?s = channels s"
    using c by (simp_all add: disconnect_def client_del_def getuser_def)
  have step: "server_step env (Input fd []) s = (?s, True)" by (simp add: server_step_def handle_client_input_def)
  have "kernel_ok s (Input fd [])" using c(3) by (simp add: kernel_ok_def)
  then have reach': "reachable ?s" using reachable.step [OF reach fair _ step] by blast
  have "member (channels s) nm fd (oid c)" using members_agreeD [OF wf_dataD(7) [OF data] c(1)] c(2) by simp
  then obtain ch where ch: "um_find (channels s) nm = Some ch" "um_find (users ch) fd = Some (oid c)"
    by (auto simp: member_def split: option.splits)
  have "db_wf (db ?s)" using reachable_wf [OF reach'] by (simp add: server_wf_def db_wf_def)
  then have wf': "um_wf (clients (db ?s))" by (simp add: db_wf_def wf_dataD(1))
  have dead: "deref (db ?s) (oid c) = None"
  proof (rule ccontr)
    assume "deref (db ?s) (oid c) \<noteq> None"
    then obtain g e where g: "um_find (clients (db ?s)) g = Some e" "oid e = oid c" unfolding deref_iff [OF wf'] by blast
    then have "g \<noteq> fd" "um_find (clients s) g = Some e" by (auto simp: s' um_simps split: if_splits)
    then show False using wf_dataD(5) [OF data] c(1) g(2) unfolding oids_unique_def by metis
  qed
  have user: "getuser (db ?s) fd' = Some d" using d by (simp add: getuser_def s' um_simps)
  have "getusers env ch (db ?s) = None" using getusers_defined [OF fair, of ch "db ?s"] ch(2) dead by (metis not_Some_eq)
  then have "call env fd' [''NAMES'', nm] (db ?s) = (db ?s, Some Undefined)"
    using ch(1) by (simp add: call_registered [OF user d(3)] Controller_names_def getchannel_def s')
  then have "\<not> snd (handle_line env fd' line ?s)" by (simp add: handle_line_def line)
  then show ?thesis using step reach' ch dead s'(2) by auto
qed

text \<open>
  USERS always writes past its buffer: for every registered client and every state, each row and its
  terminator are at least 10 bytes longer than the allocation.
\<close>

theorem users_overflows:
  assumes wf: "db_wf s" and c: "getuser s fd = Some c" and reg: "hasRegist c"
  shows "call env fd (''USERS'' # args) s = (s, Some Undefined)
     \<and> (\<forall>(r, txt) \<in> set (users_rows env s). txt \<noteq> [] \<longrightarrow> length txt + 1 \<ge> users_bufsize s + 10)"
proof -
  have row: "users_bufsize s + 10 \<le> length (users_row (users_mxname s) a b h) + 1" for a b h
    using max.cobounded1 [of "users_mxname s" "length a"] max.cobounded1 [of 8 "length b"]
      max.cobounded1 [of 21 "length h"]
    unfolding users_row_def users_bufsize_def length_append length_pad_right by simp
  have row_ne: "users_row mx a b h \<noteq> []" for mx a b h
    by (simp add: users_row_def)
  have all: "\<forall>(r, txt) \<in> set (users_rows env s). txt \<noteq> [] \<longrightarrow> length txt + 1 \<ge> users_bufsize s + 10"
    unfolding users_rows_def using row by (simp split: option.split)
  have "(IrcMsg.USERSSTART, users_row (users_mxname s) ''UserID'' ''Terminal'' ''Host'') \<in> set (users_rows env s)"
    by (simp add: users_rows_def)
  then have "\<exists>(r, txt) \<in> set (users_rows env s). length txt + 1 > users_bufsize s"
  proof (rule bexI [rotated])
    show "case (IrcMsg.USERSSTART, users_row (users_mxname s) ''UserID'' ''Terminal'' ''Host'') of
        (r, txt) \<Rightarrow> length txt + 1 > users_bufsize s"
      using row [of "''UserID''" "''Terminal''" "''Host''"] by simp
  qed
  moreover have "um_find (cmds env) ''USERS'' = Some (0, Controller_users env)" by (simp add: cmds_def)
  ultimately have "call env fd (''USERS'' # args) s = (s, Some Undefined)"
    using c reg by (simp add: call_def Controller_users_def)
  then show ?thesis using all by (rule conjI)
qed

lemma with_db_same [simp]: "with_db s (db s) = s"
  by (simp add: with_db_def db_def Database.extend_def Database.truncate_def)

text \<open>
  A line that follows QUIT in the same read, with any known command, dereferences \<^verbatim>\<open>end()\<close>: the
  client has been erased when \<^verbatim>\<open>getuser\<close> looks it up.
\<close>

theorem command_after_quit:
  assumes wf: "server_wf s" and c: "um_find (clients s) fd = Some c"
    and t: "parse t (length t) = cmd # args" and known: "um_find (cmds env) cmd = Some (k, fp)"
  shows "snd (handle_lines env fd (''QUIT'' # t # ts) s) = False"
proof -
  have q: "um_find (cmds env) ''QUIT'' = Some (0, Controller_quit env)" by (simp add: cmds_def)
  have p: "parse ''QUIT'' (length ''QUIT'') = [''QUIT'']" 
    by (subst parse_eq_split) (simp_all add: rstrip_def word_def)
  have "handle_line env fd ''QUIT'' s = (disconnect fd s, True)"
    unfolding handle_line_def p using q c 
    by (simp add: call_def Controller_quit_def unreg_allow_def getuser_def)
  moreover have "um_find (clients (disconnect fd s)) fd = None"
    using c by (simp add: disconnect_def client_del_def getuser_def um_simps)
  ultimately show ?thesis
    using t known by (simp add: handle_line_def call_def getuser_def)
qed

end
