(* ===== verification/IrcSpec.thy ===== *)
theory IrcSpec
  imports IrcCalls
begin

text \<open>
  What the IRC server promises, without its tables: who is connected, which channels there are and who is
  inside, and what every connection has been sent. There are no node identities, no references, no
  status bits, no table of nicknames and no order of traversal; where a reply lists something in an
  order that is not fixed, the order is an argument (\<open>listing\<close>). \<open>spec_call\<close> is one command line;
  that the dispatcher implements it is proved in \<open>IrcRefine\<close>.
\<close>

section \<open>The abstract state\<close>

record Person =
  p_nick :: "string option"
  p_user :: "(string \<times> string \<times> string \<times> string) option"
  p_welcomed :: bool

record Irc =
  people :: "int \<Rightarrow> Person option"
  topics :: "string \<Rightarrow> string option"  \<comment> \<open>of the channels there are\<close>
  inside :: "string \<Rightarrow> int set"
  outbox :: "int \<Rightarrow> string list"

record listing =
  chans :: "string list"
  members_of :: "string \<Rightarrow> int list"

definition listing_ok :: "listing \<Rightarrow> Irc \<Rightarrow> bool" where
  "listing_ok l a \<longleftrightarrow> set (chans l) = dom (topics a) \<and> distinct (chans l) \<and>
     (\<forall>nm. set (members_of l nm) = inside a nm \<and> distinct (members_of l nm))"

definition nick_str :: "Person \<Rightarrow> string" where
  "nick_str p = (case p_nick p of None \<Rightarrow> [] | Some n \<Rightarrow> n)"

definition tell :: "int \<Rightarrow> string \<Rightarrow> Irc \<Rightarrow> Irc" where
  "tell fd txt a = a\<lparr>outbox := (outbox a)(fd := outbox a fd @ [txt])\<rparr>"

definition tell_all :: "int set \<Rightarrow> string \<Rightarrow> Irc \<Rightarrow> Irc" where
  "tell_all fds txt a = a\<lparr>outbox := (\<lambda>fd. if fd \<in> fds then outbox a fd @ [txt] else outbox a fd)\<rparr>"

section \<open>The commands\<close>

type_synonym spec_outcome = "Irc \<times> exn option"
type_synonym spec_handler = "listing \<Rightarrow> int \<Rightarrow> Person \<Rightarrow> argv_t \<Rightarrow> Irc \<Rightarrow> spec_outcome"

definition throw :: "Irc \<Rightarrow> ERR \<Rightarrow> string list \<Rightarrow> spec_outcome" where
  "throw a e ps = (a, Some (Throw (CNum (err e), ps)))"

definition spec_nick :: spec_handler where
  "spec_nick l fd p args a =
     (if args = [] then throw a NONICKNAMEGIVEN [''No nickname given'']
      else let nn = args ! 0 in
        if \<exists>fd' q. people a fd' = Some q \<and> p_nick q = Some nn then throw a NICKCOLLISION [nn, ''Nickname collision KILL'']
        else if \<not> valid_nick nn then throw a ERRONEUSNICKNAME [nn, ''Erroneous nickname'']
        else let a1 = (case p_nick p of None \<Rightarrow> a | Some old \<Rightarrow> tell fd (fmt_cmds [(CStr ''NICK'', [nn])] old) a)
             in (a1\<lparr>people := (people a1)(fd \<mapsto> p\<lparr>p_nick := Some nn\<rparr>)\<rparr>, None))"

definition spec_user :: spec_handler where
  "spec_user l fd p args a =
     (if p_welcomed p then throw a ALREADYREGISTRED [''You may not reregister'']
      else (a\<lparr>people := (people a)(fd \<mapsto> p\<lparr>p_user := Some (args ! 0, args ! 1, args ! 2, args ! 3)\<rparr>)\<rparr>, None))"

definition spec_quit :: spec_handler where
  "spec_quit l fd p args a = (a, Some (Event DISCONNECT))"

text \<open>A channel that is named is made when there is none, if the name is good.\<close>

definition spec_open :: "string \<Rightarrow> Irc \<Rightarrow> CMD_MSG + Irc" where
  "spec_open nm a =
     (if topics a nm \<noteq> None then Inr a
      else if valid_channel_name nm then Inr (a\<lparr>topics := (topics a)(nm \<mapsto> [])\<rparr>)
      else Inl (CNum (err NOSUCHCHANNEL), [nm, ''No such channel'']))"

definition topic_msg :: "string \<Rightarrow> string \<Rightarrow> CMD_MSG" where
  "topic_msg nm t = (if t = [] then (CNum (rpl NOTOPIC), [nm, ''No topic is set'']) else (CNum (rpl IrcMsg.TOPIC), [nm, t]))"

definition join_names :: "string list \<Rightarrow> string" where
  "join_names ns = foldl (\<lambda>str n. (if str \<noteq> [] then str @ '' '' else str) @ n) [] ns"

definition nick_at :: "Irc \<Rightarrow> int \<Rightarrow> string" where
  "nick_at a fd = (case people a fd of None \<Rightarrow> [] | Some p \<Rightarrow> nick_str p)"

definition names_msgs :: "listing \<Rightarrow> Irc \<Rightarrow> string \<Rightarrow> CMD_MSGS" where
  "names_msgs l a nm =
     (if members_of l nm = [] then [] else [(CNum (rpl NAMREPLY), [nm, join_names (map (nick_at a) (members_of l nm))])])
     @ [(CNum (rpl ENDOFNAMES), [nm, ''End of /NAMES list''])]"

definition spec_names :: spec_handler where
  "spec_names l fd p args a =
     (if args = [] then (tell fd (fmt_cmds (concat (map (names_msgs l a) (chans l))) (nick_str p)) a, None)
      else case spec_open (args ! 0) a of Inl e \<Rightarrow> (a, Some (Throw e))
      | Inr a1 \<Rightarrow> (tell fd (fmt_cmds (names_msgs l a1 (args ! 0)) (nick_str p)) a1, None))"

text \<open>JOIN: all who are inside then, the new one included, are told; the new one gets topic and names.
  (The topic is addressed to the channel's name, where the client's nickname would be expected.)\<close>

definition spec_join :: spec_handler where
  "spec_join l fd p args a =
     (let nm = args ! 0 in
      case spec_open nm a of Inl e \<Rightarrow> (a, Some (Throw e))
      | Inr a1 \<Rightarrow>
          let a2 = a1\<lparr>inside := (inside a1)(nm := insert fd (inside a1 nm))\<rparr>;
              a3 = tell_all (inside a2 nm) (fmt_cmds [(CStr ''JOIN'', [nm])] (nick_str p)) a2;
              a4 = tell fd (fmt_cmds [topic_msg nm (case topics a1 nm of None \<Rightarrow> [] | Some t \<Rightarrow> t)] nm) a3
          in (tell fd (fmt_cmds (names_msgs l a4 nm) (nick_str p)) a4, None))"

definition spec_part :: spec_handler where
  "spec_part l fd p args a =
     (let nm = args ! 0; msg = (if length args \<ge> 2 then args ! 1 else default_part_msg) in
      if topics a nm = None then throw a NOSUCHCHANNEL [nm, ''No such channel'']
      else if fd \<notin> inside a nm then throw a NOTONCHANNEL [nm, ''You'' @ [CHR 0x27] @ ''re not on that channel'']
      else let a1 = tell_all (inside a nm) (fmt_cmds [(CStr ''PART'', [nm, msg])] (nick_str p)) a
           in (a1\<lparr>inside := (inside a1)(nm := inside a1 nm - {fd})\<rparr>, None))"

definition spec_topic :: spec_handler where
  "spec_topic l fd p args a =
     (let nm = args ! 0 in
      case topics a nm of None \<Rightarrow> throw a NOSUCHCHANNEL [nm, ''No such channel'']
      | Some t \<Rightarrow>
          if fd \<notin> inside a nm then throw a NOTONCHANNEL [nm, ''You'' @ [CHR 0x27] @ ''re not on that channel'']
          else if length args < 2 then (tell fd (fmt_cmds [topic_msg nm t] (nick_str p)) a, None)
          else let a1 = a\<lparr>topics := (topics a)(nm \<mapsto> args ! 1)\<rparr>
               in (tell_all (inside a nm) (fmt_cmds [(CStr ''TOPIC'', [nm, args ! 1])] (nick_str p)) a1, None))"

definition list_msgs :: "listing \<Rightarrow> Irc \<Rightarrow> string \<Rightarrow> CMD_MSGS" where
  "list_msgs l a nm = (case topics a nm of None \<Rightarrow> []
     | Some t \<Rightarrow> [(CNum (rpl LIST), [nm, show_nat (length (members_of l nm)), t])])"

definition spec_list :: spec_handler where
  "spec_list l fd p args a =
     (let nms = (if length args > 0 then [args ! 0] else chans l);
          out = (CNum (rpl LISTSTART), [''Channel :Users  Name'']) # concat (map (list_msgs l a) nms)
                @ [(CNum (rpl LISTEND), [''End of LIST''])]
      in (tell fd (fmt_cmds out (nick_str p)) a, None))"

definition spec_privmsg :: spec_handler where
  "spec_privmsg l fd p args a =
     (if length args < 1 then throw a NORECIPIENT [''No recipient given (PRIVMSG)'']
      else if length args < 2 then throw a NOTEXTTOSEND [''No text to send'']
      else let nm = args ! 0 in
        if topics a nm = None then throw a NOSUCHNICK [nm, ''No such nick/channel'']
        else (tell_all (inside a nm - {fd}) (fmt_cmds [(CStr ''PRIVMSG'', [nm, args ! 1])] (nick_str p)) a, None))"

definition spec_ping :: spec_handler where
  "spec_ping l fd p args a =
     (if args = [] then throw a NOORIGIN [''No origin specified''] else (tell fd (''PONG'' @ [LF]) a, None))"

section \<open>A command line\<close>

text \<open>The commands with the number of parameters they need, and whether they are open to those who have
  not registered. USERS is missing: it is never defined (\<open>users_overflows\<close>).\<close>

definition spec_cmds :: "(string, nat \<times> bool \<times> spec_handler) um" where
  "spec_cmds =
    [ (''NICK'', 0, True, spec_nick), (''USER'', 4, True, spec_user), (''QUIT'', 0, True, spec_quit),
      (''JOIN'', 1, False, spec_join), (''PART'', 1, False, spec_part), (''TOPIC'', 1, False, spec_topic),
      (''NAMES'', 0, False, spec_names), (''LIST'', 0, False, spec_list), (''PRIVMSG'', 0, False, spec_privmsg),
      (''PING'', 0, False, spec_ping) ]"

text \<open>Whoever has given a nickname and a user is welcomed, once.\<close>

definition spec_welcome :: "int \<Rightarrow> Irc \<Rightarrow> Irc" where
  "spec_welcome fd a =
     (case people a fd of None \<Rightarrow> a
      | Some p \<Rightarrow> if \<not> p_welcomed p \<and> p_nick p \<noteq> None \<and> p_user p \<noteq> None
                  then tell fd (fmt_cmds WELCOME_CMDS (nick_str p)) (a\<lparr>people := (people a)(fd \<mapsto> p\<lparr>p_welcomed := True\<rparr>)\<rparr>)
                  else a)"

definition spec_call :: "listing \<Rightarrow> int \<Rightarrow> argv_t \<Rightarrow> Irc \<Rightarrow> spec_outcome" where
  "spec_call l fd argv a =
     (case argv of [] \<Rightarrow> (a, None)
      | cmd # args \<Rightarrow>
         (case um_find spec_cmds cmd of None \<Rightarrow> throw a UNKNOWNCOMMAND [cmd, ''Unknown command'']
          | Some (parm_min, anyone, h) \<Rightarrow>
             (case people a fd of None \<Rightarrow> (a, Some Undefined)
              | Some p \<Rightarrow>
                 if \<not> p_welcomed p \<and> \<not> anyone then throw a NOTREGISTERED [''You have not registered'']
                 else if length args < parm_min then throw a NEEDMOREPARAMS [cmd, ''Not enough parameters'']
                 else (case h l fd p args a of (a', Some e) \<Rightarrow> (a', Some e) | (a', None) \<Rightarrow> (if p_welcomed p then a' else spec_welcome fd a', None)))))"

section \<open>The abstraction\<close>

definition person :: "Client \<Rightarrow> Person" where
  "person c = \<lparr>p_nick = (if hasNick c then Some (nickname c) else None),
     p_user = (if status c AND USER = USER then Some (username c, hostname c, servername c, realname c) else None),
     p_welcomed = hasRegist c\<rparr>"

definition irc_abs :: "Database \<Rightarrow> Irc" where
  "irc_abs s = \<lparr>people = (\<lambda>fd. map_option person (um_find (clients s) fd)),
     topics = (\<lambda>nm. map_option topic (um_find (channels s) nm)),
     inside = (\<lambda>nm. {fd. \<exists>r. member (channels s) nm fd r}),
     outbox = (\<lambda>fd. map snd (filter (\<lambda>p. fst p = fd) (sent s)))\<rparr>"

definition listing_of :: "hash_order \<Rightarrow> Database \<Rightarrow> listing" where
  "listing_of env s = \<lparr>chans = name_order env (um_keys (channels s)),
     members_of = (\<lambda>nm. case um_find (channels s) nm of None \<Rightarrow> [] | Some ch \<Rightarrow> member_fds env ch)\<rparr>"

end
