(* ===== verification/IrcRefine.thy ===== *)
theory IrcRefine
  imports IrcSpec
begin

text \<open>
  The IRC server implements its specification: every command line takes the abstraction of the
  database to where \<open>spec_call\<close> takes it, with the same outcome and the same texts to the same
  connections in the same order. First what the primitive updates do to the abstraction, then the
  handlers one by one, then the dispatcher.
\<close>

section \<open>Primitive updates\<close>

lemma irc_abs_parts:
  "people (irc_abs s) fd = map_option person (um_find (clients s) fd)"
  "topics (irc_abs s) nm = map_option topic (um_find (channels s) nm)"
  "inside (irc_abs s) nm = {fd. \<exists>r. member (channels s) nm fd r}"
  by (simp_all add: irc_abs_def)

lemma person_parts [simp]:
  "p_nick (person c) = (if hasNick c then Some (nickname c) else None)" "p_welcomed (person c) = hasRegist c"
  "p_user (person c) \<noteq> None \<longleftrightarrow> bit (status c) 1"
proof -
  have "status c AND USER = USER \<longleftrightarrow> bit (status c) 1" unfolding and_mask_iff by auto
  then show "p_user (person c) \<noteq> None \<longleftrightarrow> bit (status c) 1" by (simp add: person_def)
qed (simp_all add: person_def)

lemma nick_str_person: "client_ok fd n c \<Longrightarrow> nick_str (person c) = nickname c"
  by (auto simp: nick_str_def client_ok_def)

lemma abs_send [simp]:
  "irc_abs (sendstr fd b s) = tell fd b (irc_abs s)"
  "irc_abs (sendcmds fd ms n s) = tell fd (fmt_cmds ms n) (irc_abs s)"
  "irc_abs (sendcmd fd m n s) = tell fd (fmt_cmds [m] n) (irc_abs s)"
  by (auto simp: sendcmd_def sendcmds_def sendstr_def tell_def irc_abs_def fun_eq_iff)

lemma abs_sendall:
  assumes "distinct fds"
  shows "irc_abs (sendall fds m n s) = tell_all (set fds) (fmt_cmds [m] n) (irc_abs s)"
proof -
  have "map snd (filter (\<lambda>p. fst p = fd) (map (\<lambda>d. (d, x)) fds)) = (if fd \<in> set fds then [x] else [])" for fd and x :: string
    using assms by (induction fds) auto
  then show ?thesis by (auto simp: sendall_eq tell_all_def irc_abs_def fun_eq_iff)
qed

lemma abs_put_client:
  assumes "um_find (clients s) (connfd c) \<noteq> None"
  shows "irc_abs (put_client c s) = (irc_abs s)\<lparr>people := (people (irc_abs s))(connfd c \<mapsto> person c)\<rparr>"
  using assms by (auto simp: put_client_def irc_abs_def um_simps fun_eq_iff)

lemma abs_put_channel:
  assumes "um_find (channels s) (cname ch) \<noteq> None"
  shows "irc_abs (put_channel ch s) = (irc_abs s)\<lparr>topics := (topics (irc_abs s))(cname ch \<mapsto> topic ch),
    inside := (inside (irc_abs s))(cname ch := {fd. um_find (users ch) fd \<noteq> None})\<rparr>"
  using assms by (auto simp: put_channel_def irc_abs_def um_simps member_def fun_eq_iff)

lemma abs_nick_mp [simp]: "irc_abs (s\<lparr>nick_mp := m\<rparr>) = irc_abs s"
  by (simp add: irc_abs_def)

text \<open>A client that is rewritten to the same person.\<close>

lemma abs_inside: "um_find (channels s) nm = Some ch \<Longrightarrow> inside (irc_abs s) nm = {fd. um_find (users ch) fd \<noteq> None}"
  by (simp add: irc_abs_parts member_def)

lemma abs_open:
  assumes "db_wf s"
  shows "getchannel s nm = Inl e \<Longrightarrow> spec_open nm (irc_abs s) = Inl e"
    and "getchannel s nm = Inr (s1, ch) \<Longrightarrow> spec_open nm (irc_abs s) = Inr (irc_abs s1) \<and> topics (irc_abs s1) nm = Some (topic ch)"
proof -
  show "getchannel s nm = Inl e \<Longrightarrow> spec_open nm (irc_abs s) = Inl e"
    by (auto simp: getchannel_def new_channel_def spec_open_def irc_abs_parts split: option.splits if_splits)
  assume g: "getchannel s nm = Inr (s1, ch)"
  show "spec_open nm (irc_abs s) = Inr (irc_abs s1) \<and> topics (irc_abs s1) nm = Some (topic ch)"
  proof (cases rule: getchannel_cases [OF g assms])
    case 1
    then show ?thesis by (simp add: spec_open_def irc_abs_parts)
  next
    case 2
    have "irc_abs s1 = (irc_abs s)\<lparr>topics := (topics (irc_abs s))(nm \<mapsto> [])\<rparr>"
      using 2(1,3) by (auto simp: 2(4) irc_abs_def um_simps member_def fun_eq_iff split: option.split)
    then show ?thesis using 2 by (simp add: spec_open_def irc_abs_parts)
  qed
qed

section \<open>Lists of names\<close>

lemma fair_distinct:
  assumes "fair_order env"
  shows "um_wf (users ch) \<Longrightarrow> distinct (member_fds env ch)" and "um_wf (channels s) \<Longrightarrow> distinct (name_order env (um_keys (channels s)))"
proof -
  show "um_wf (users ch) \<Longrightarrow> distinct (member_fds env ch)"
    using fair_fds_distinct [OF assms] by (simp add: member_fds_def um_wf_def)
  assume "um_wf (channels s)"
  then have "distinct (um_keys (channels s))" by (simp add: um_wf_def)
  then show "distinct (name_order env (um_keys (channels s)))" using assms by (metis card_distinct distinct_card fair_order_def)
qed

lemma listing_of_ok:
  assumes "db_wf s" and "fair_order env"
  shows "listing_ok (listing_of env s) (irc_abs s)"
proof -
  note w = wf_dataD [OF assms(1) [unfolded db_wf_def]]
  have "set (member_fds env ch) = {fd. um_find (users ch) fd \<noteq> None} \<and> distinct (member_fds env ch)"
    if "um_find (channels s) nm = Some ch" for nm ch
    using w(4) [OF that] set_member_fds [OF assms(2), of _ ch] fair_distinct(1) [OF assms(2)] by (auto simp: channel_ok_def)
  then have "set (members_of (listing_of env s) nm) = inside (irc_abs s) nm \<and> distinct (members_of (listing_of env s) nm)" for nm
    by (auto simp: listing_of_def irc_abs_parts member_def split: option.split)
  moreover have "set (chans (listing_of env s)) = dom (topics (irc_abs s))"
    using assms(2) by (auto simp: listing_of_def irc_abs_def um_keys_find dom_def)
  ultimately show ?thesis using fair_distinct(2) [OF assms(2) w(2)] by (simp add: listing_ok_def listing_of_def)
qed

lemma usersstr_names:
  assumes "\<forall>fd \<in> set fds. \<exists>r u. um_find us fd = Some r \<and> deref s r = Some u \<and> nickname u = nick_at a fd"
  shows "usersstr_loop s us fds str = Some (foldl (\<lambda>str n. (if str \<noteq> [] then str @ '' '' else str) @ n) str (map (nick_at a) fds))"
  using assms
proof (induction fds arbitrary: str)
  case (Cons fd fds)
  then obtain r u where ru: "um_find us fd = Some r" "deref s r = Some u" "nickname u = nick_at a fd" by auto
  have "usersstr_loop s us (fd # fds) str = usersstr_loop s us fds ((if str \<noteq> [] then str @ '' '' else str) @ nick_at a fd)"
    by (simp only: usersstr_loop.simps ru option.case)
  moreover have "\<forall>fd \<in> set fds. \<exists>r u. um_find us fd = Some r \<and> deref s r = Some u \<and> nickname u = nick_at a fd"
    using Cons.prems by simp
  note IH = Cons.IH [OF this]
  ultimately show ?case by (simp only: IH list.map foldl.simps)
qed simp

lemma getusers_names:
  assumes wf: "db_wf s" and live: "refs_live s" and fair: "fair_order env" and ch: "um_find (channels s) nm = Some ch"
  shows "getusers env ch s = Some (names_msgs (listing_of env s) (irc_abs s) nm)"
proof -
  note w = wf_dataD [OF wf [unfolded db_wf_def]]
  have nm: "cname ch = nm" using w(4) [OF ch] by (simp add: channel_ok_def)
  have mem: "members_of (listing_of env s) nm = member_fds env ch" by (simp add: listing_of_def ch)
  have "\<exists>r u. um_find (users ch) fd = Some r \<and> deref s r = Some u \<and> nickname u = nick_at (irc_abs s) fd" if fd: "fd \<in> set (member_fds env ch)" for fd
  proof -
    obtain r where r: "um_find (users ch) fd = Some r" using fd set_member_fds [OF fair, of fd ch] by auto
    obtain u where u: "um_find (clients s) fd = Some u" "oid u = r" using refs_liveD [OF live ch r] by auto
    have "nickname u = nick_at (irc_abs s) fd" using nick_str_person [OF w(3) [OF u(1)]] by (simp add: nick_at_def irc_abs_parts u(1))
    moreover have "deref s r = Some u" using deref_live [OF wf [unfolded db_wf_def] u(1)] u(2) by simp
    ultimately show ?thesis using r by blast
  qed
  then have str: "usersstr env ch s = Some (join_names (map (nick_at (irc_abs s)) (member_fds env ch)))"
    unfolding usersstr_def join_names_def by (intro usersstr_names) blast
  have "users ch = [] \<longleftrightarrow> member_fds env ch = []"
  proof -
    have "set (member_fds env ch) = set (um_keys (users ch))" using fair by (simp add: member_fds_def)
    then show ?thesis by (metis set_empty um_keys_def map_is_Nil_conv)
  qed
  then show ?thesis by (simp add: getusers_def str names_msgs_def mem nm)
qed

lemma names_loop_names:
  assumes "db_wf s" and "refs_live s" and "fair_order env" and "\<forall>nm\<in>set nms. um_find (channels s) nm \<noteq> None"
  shows "names_loop env s nms out = Some (out @ concat (map (names_msgs (listing_of env s) (irc_abs s)) nms))"
  using assms(4)
proof (induction nms arbitrary: out)
  case (Cons nm nms)
  then obtain ch where "um_find (channels s) nm = Some ch" by auto
  then show ?case using Cons getusers_names [OF assms(1,2,3)] by simp
qed simp

section \<open>The handlers\<close>

text \<open>What is known when a handler is called.\<close>

definition called :: "hash_order \<Rightarrow> int \<Rightarrow> Client \<Rightarrow> Database \<Rightarrow> bool" where
  "called env fd c s \<longleftrightarrow> db_wf s \<and> nick_wf s \<and> refs_live s \<and> fair_order env \<and> getuser s fd = Some c"

lemma called_parts:
  assumes "called env fd c s"
  shows "db_wf s" "nick_wf s" "refs_live s" "fair_order env" "getuser s fd = Some c" "um_find (clients s) fd = Some c"
    "connfd c = fd" "nick_str (person c) = nickname c" "people (irc_abs s) fd = Some (person c)"
    "client_ok fd (next_oid s) c"
  using assms getuser_ok [of s fd c] nick_str_person
  by (auto simp: called_def getuser_def irc_abs_parts client_ok_def)

lemma listing_of_same: "channels t = channels s \<Longrightarrow> listing_of env t = listing_of env s"
  by (simp add: listing_of_def)

lemma user_flag [simp]: "w AND USER = USER \<longleftrightarrow> bit w 1"
  unfolding and_mask_iff by auto

lemma nick_taken:
  assumes wf: "db_wf s" and nw: "nick_wf s"
  shows "nickInUse s nn \<longleftrightarrow> (\<exists>fd' q. people (irc_abs s) fd' = Some q \<and> p_nick q = Some nn)"
proof -
  have ok: "p_nick (person c) = Some nn \<longleftrightarrow> nickname c = nn \<and> nn \<noteq> []" if "um_find (clients s) fd' = Some c" for fd' c
    using getuser_ok [OF wf, of fd' c] that by (auto simp: getuser_def client_ok_def)
  have "nickInUse s nn \<longleftrightarrow> (\<exists>fd' c. um_find (clients s) fd' = Some c \<and> nickname c = nn \<and> nn \<noteq> [])"
    using nick_wfD [OF nw] unfolding nickInUse_def by (metis not_Some_eq)
  also have "\<dots> \<longleftrightarrow> (\<exists>fd' c. um_find (clients s) fd' = Some c \<and> p_nick (person c) = Some nn)" using ok by blast
  also have "\<dots> \<longleftrightarrow> (\<exists>fd' q. people (irc_abs s) fd' = Some q \<and> p_nick q = Some nn)" unfolding irc_abs_parts by blast
  finally show ?thesis .
qed

lemma nick_refines:
  assumes called: "called env fd c s" and run: "Controller_nick env c args s = (s', r)"
  shows "spec_nick l fd (person c) args (irc_abs s) = (irc_abs s', r)"
proof -
  note k = called_parts [OF called]
  define nn where "nn = args ! 0"
  define c' where "c' = c\<lparr>status := status c OR NICK, nickname := nn\<rparr>"
  have person: "person c' = (person c)\<lparr>p_nick := Some nn\<rparr>" by (simp add: c'_def person_def flags_bits bit_or_iff)
  have bad: "(nn = [] \<or> \<not> isalpha (nn ! 0)) = (\<not> valid_nick nn)" by (auto simp: valid_nick_def hd_conv_nth)
  have conn: "connfd c' = fd" using k(7) by (simp add: c'_def)
  have put: "irc_abs (put_client c' t) = (irc_abs t)\<lparr>people := (people (irc_abs t))(fd \<mapsto> person c')\<rparr>" if "clients t = clients s" for t
    using abs_put_client [of t c'] k(6) that conn by simp
  show ?thesis
  proof (cases "args = [] \<or> nickInUse s nn \<or> \<not> valid_nick nn")
    case True
    then show ?thesis using run nick_taken [OF k(1,2), of nn]
      by (auto simp: Controller_nick_def changeNick_def Let_def bad throw_def spec_nick_def simp flip: nn_def split: if_splits)
  next
    case False
    define t where "t = s\<lparr>nick_mp := um_emplace nn (oid c) (if hasNick c then um_erase (nickname c) (nick_mp s) else nick_mp s)\<rparr>"
    have t: "irc_abs t = irc_abs s" "clients t = clients s" by (simp_all add: t_def irc_abs_def)
    have "s' = put_client c' (if hasNick c then sendcmd fd (CStr ''NICK'', [nn]) (nickname c) t else t)" "r = None"
      using run False bad k(7) by (auto simp: Controller_nick_def changeNick_def Let_def t_def c'_def simp flip: nn_def)
    then show ?thesis using False nick_taken [OF k(1,2), of nn] put [of "sendcmd fd (CStr ''NICK'', [nn]) (nickname c) t"] put [of t]
      by (auto simp: spec_nick_def Let_def t person simp flip: nn_def)
  qed
qed

lemma user_refines:
  assumes called: "called env fd c s" and run: "Controller_user env c args s = (s', r)"
  shows "spec_user l fd (person c) args (irc_abs s) = (irc_abs s', r)"
proof -
  note k = called_parts [OF called]
  define c' where "c' = c\<lparr>status := status c OR USER, username := args ! 0, hostname := args ! 1, servername := args ! 2, realname := args ! 3\<rparr>"
  have "person c' = (person c)\<lparr>p_user := Some (args ! 0, args ! 1, args ! 2, args ! 3)\<rparr>"
    by (simp add: c'_def person_def flags_bits bit_or_iff)
  moreover have "connfd c' = fd" using k(7) by (simp add: c'_def)
  ultimately have "irc_abs (put_client c' s) = (irc_abs s)\<lparr>people := (people (irc_abs s))(fd \<mapsto>
      (person c)\<lparr>p_user := Some (args ! 0, args ! 1, args ! 2, args ! 3)\<rparr>)\<rparr>"
    using abs_put_client [of s c'] k(6) by simp
  moreover have "Controller_user env c args s = (if hasRegist c then (s, Some (Throw (CNum (err ALREADYREGISTRED), [''You may not reregister''])))
      else (put_client c' s, None))"
    by (simp add: Controller_user_def c'_def)
  ultimately show ?thesis using run by (auto simp: spec_user_def throw_def split: if_splits)
qed

lemma channel_name: "db_wf s \<Longrightarrow> um_find (channels s) nm = Some ch \<Longrightarrow> cname ch = nm \<and> um_wf (users ch)"
  by (auto simp: db_wf_def channel_ok_def dest: wf_dataD(4))

lemma tell_members:
  assumes "db_wf s" and "fair_order env" and "um_find (channels s) nm = Some ch"
  shows "irc_abs (sendall (member_fds env ch) m n t) = tell_all (inside (irc_abs s) nm) (fmt_cmds [m] n) (irc_abs t)"
proof -
  have "distinct (member_fds env ch)" using fair_distinct(1) [OF assms(2)] channel_name [OF assms(1,3)] by simp
  moreover have "set (member_fds env ch) = inside (irc_abs s) nm" using set_member_fds [OF assms(2), of _ ch] by (auto simp: abs_inside [OF assms(3)])
  ultimately show ?thesis using abs_sendall by simp
qed

lemma inside_iff:
  assumes "called env fd c s" and "um_find (channels s) nm = Some ch"
  shows "client_in c nm \<longleftrightarrow> fd \<in> inside (irc_abs s) nm" and "client_in c nm \<Longrightarrow> um_find (users ch) fd = Some (oid c)"
proof -
  note k = called_parts [OF assms(1)]
  have "members_agree (clients s) (channels s)" using k(1) by (simp add: db_wf_def wf_dataD(7))
  then have agree: "client_in c nm \<longleftrightarrow> member (channels s) nm fd (oid c)" using members_agreeD k(6) by blast
  have "r = oid c" if "um_find (users ch) fd = Some r" for r
    using refs_liveD [OF k(3) assms(2) that] k(6) by simp
  then show "client_in c nm \<longleftrightarrow> fd \<in> inside (irc_abs s) nm" using agree assms(2) by (auto simp: abs_inside member_def)
  show "client_in c nm \<Longrightarrow> um_find (users ch) fd = Some (oid c)" using agree assms(2) by (simp add: member_def)
qed

lemma part_refines:
  assumes called: "called env fd c s" and run: "Controller_part env c args s = (s', r)"
  shows "spec_part l fd (person c) args (irc_abs s) = (irc_abs s', r)"
proof -
  note k = called_parts [OF called]
  define nm where "nm = args ! 0"
  show ?thesis
  proof (cases "\<exists>ch. um_find (channels s) nm = Some ch \<and> client_in c nm")
    case False
    then show ?thesis using run inside_iff(1) [OF called, of nm] channel_name [OF k(1), of nm]
      by (auto simp: Controller_part_def spec_part_def throw_def Let_def irc_abs_parts(2) simp flip: nm_def split: option.splits)
  next
    case True
    then obtain ch where ch: "um_find (channels s) nm = Some ch" and i: "client_in c nm" by blast
    note ins = inside_iff [OF called ch]
    have name: "cname ch = nm" using channel_name [OF k(1) ch] by simp
    define msg where "msg = (if length args \<ge> 2 then args ! 1 else default_part_msg)"
    define t where "t = put_client (client_part c nm) s"
    have part: "connfd (client_part c nm) = fd" "oid (client_part c nm) = oid c" "nickname (client_part c nm) = nickname c"
      "person (client_part c nm) = person c"
      using k(7) by (simp_all add: client_part_def person_def hasNick_def hasRegist_def)
    have t: "clients t = um_assign fd (client_part c nm) (clients s)" using part(1) by (simp add: t_def)
    have w: "um_wf (clients s)" "oids_unique (clients s)" using k(1) by (simp_all add: db_wf_def wf_dataD)
    have "oids_unique (clients t)" using w(2) k(6) part(2) unfolding oids_unique_def t by (auto simp: um_simps split: if_splits)
    then have deref: "deref t (oid c) = Some (client_part c nm)"
      using deref_unique [of t fd "client_part c nm"] w(1) k(6) part(2) by (simp add: t um.wf_assign um_simps)
    have same: "irc_abs t = irc_abs s"
      using abs_put_client [of s "client_part c nm"] k(6,9) part by (simp add: t_def fun_upd_idem)
    define u where "u = sendall (member_fds env ch) (CStr ''PART'', [nm, msg]) (nickname c) t"
    have u: "irc_abs u = tell_all (inside (irc_abs s) nm) (fmt_cmds [(CStr ''PART'', [nm, msg])] (nickname c)) (irc_abs s)"
      "channels u = channels s"
      using tell_members [OF k(1,4) ch] same by (simp_all add: u_def t_def)
    have out: "s' = put_channel (ch\<lparr>users := um_erase fd (users ch)\<rparr>) u" "r = None"
      using run ch i name ins(2) [OF i] k(7) deref part(3)
      by (simp_all add: Controller_part_def channel_del_def Let_def u_def t_def msg_def flip: nm_def)
    have "{fd'. um_find (um_erase fd (users ch)) fd' \<noteq> None} = inside (irc_abs s) nm - {fd}"
      by (auto simp: um_simps abs_inside [OF ch])
    moreover have "topics (irc_abs u) nm = Some (topic ch)" using u(2) ch by (simp add: irc_abs_parts)
    ultimately have "irc_abs s' = (irc_abs u)\<lparr>inside := (inside (irc_abs u))(nm := inside (irc_abs s) nm - {fd})\<rparr>"
      using abs_put_channel [of u "ch\<lparr>users := um_erase fd (users ch)\<rparr>"] u(2) ch name out(1) by (simp add: fun_upd_idem)
    moreover have "inside (irc_abs u) nm = inside (irc_abs s) nm" using u(2) by (simp add: irc_abs_parts)
    moreover have "topics (irc_abs s) nm = Some (topic ch)" "fd \<in> inside (irc_abs s) nm" using ch ins(1) i by (simp_all add: irc_abs_parts(2))
    ultimately show ?thesis using u(1) k(8) out(2) by (simp add: spec_part_def Let_def msg_def flip: nm_def)
  qed
qed

lemma names_reply_refines:
  assumes "db_wf s" and "refs_live s" and "fair_order env" and ch: "um_find (channels s) nm = Some ch"
    and run: "Controller_names env c [nm] s = (s', r)"
  shows "irc_abs s' = tell (connfd c) (fmt_cmds (names_msgs (listing_of env s') (irc_abs s) nm) (nickname c)) (irc_abs s) \<and> r = None
    \<and> channels s' = channels s"
proof -
  have "getchannel s nm = Inr (s, ch)" by (simp add: getchannel_def ch)
  then have "s' = sendcmds (connfd c) (names_msgs (listing_of env s) (irc_abs s) nm) (nickname c) s" "r = None"
    using run getusers_names [OF assms(1,2,3) ch] by (auto simp: Controller_names_def)
  then show ?thesis using listing_of_same [of s' s env] by simp
qed

lemma names_refines:
  assumes called: "called env fd c s" and run: "Controller_names env c args s = (s', r)"
  shows "spec_names (listing_of env s') fd (person c) args (irc_abs s) = (irc_abs s', r)"
proof -
  note k = called_parts [OF called]
  show ?thesis
  proof (cases "args = []")
    case True
    have "\<forall>nm\<in>set (name_order env (um_keys (channels s))). um_find (channels s) nm \<noteq> None"
      using k(4) by (simp add: um_keys_find)
    from names_loop_names [OF k(1,3,4) this, of "[]"] have "s' = sendcmds fd (concat (map (names_msgs (listing_of env s) (irc_abs s))
        (chans (listing_of env s)))) (nickname c) s" "r = None"
      using run True k(7) by (auto simp: Controller_names_def listing_of_def)
    then show ?thesis using True k(8) listing_of_same [of s' s env] by (simp add: spec_names_def)
  next
    case False
    show ?thesis
    proof (cases "getchannel s (args ! 0)")
      case (Inl e)
      then show ?thesis using run False abs_open(1) [OF k(1) Inl] by (auto simp: Controller_names_def spec_names_def)
    next
      case (Inr p)
      then obtain s1 ch where g: "getchannel s (args ! 0) = Inr (s1, ch)" by (cases p) simp
      note h = getchannel_wf [OF g k(1)] and l1 = getchannel_refs_live [OF g k(1,3)]
      have "Controller_names env c [args ! 0] s1 = (s', r)"
        using run False g h(2) by (simp add: Controller_names_def getchannel_def)
      from names_reply_refines [OF h(1) l1 k(4) h(2) this] show ?thesis
        using False abs_open(2) [OF k(1) g] k(7,8) by (simp add: spec_names_def)
    qed
  qed
qed

lemma join_refines:
  assumes called: "called env fd c s" and run: "Controller_join env c args s = (s', r)"
  shows "spec_join (listing_of env s') fd (person c) args (irc_abs s) = (irc_abs s', r)"
proof -
  note k = called_parts [OF called]
  define nm where "nm = args ! 0"
  show ?thesis
  proof (cases "getchannel s nm")
    case (Inl e)
    then show ?thesis using run abs_open(1) [OF k(1) Inl]
      by (auto simp: Controller_join_def spec_join_def Let_def simp flip: nm_def)
  next
    case (Inr p)
    then obtain s1 ch where g: "getchannel s nm = Inr (s1, ch)" by (cases p) simp
    note h = getchannel_wf [OF g k(1)] and opened = abs_open(2) [OF k(1) g]
    note j = join_before_names [OF k(1,3,5) g [unfolded nm_def], of env, folded nm_def]
    define c' where "c' = client_join c nm"
    define ch' where "ch' = ch\<lparr>users := um_emplace fd (oid c) (users ch)\<rparr>"
    define s3 where "s3 = joined_db env c nm ch s1"
    have c': "connfd c' = fd" "oid c' = oid c" "nickname c' = nickname c" "person c' = person c"
      using k(7) by (simp_all add: c'_def client_join_def person_def hasNick_def hasRegist_def)
    have people1: "people (irc_abs s1) fd = Some (person c)" using h(4) k(6) by (simp add: irc_abs_parts)
    have a1: "irc_abs (put_client c' s1) = irc_abs s1"
      using abs_put_client [of s1 c'] h(4) k(6) c' people1 by (simp add: fun_upd_idem)
    define u where "u = put_channel ch' (put_client c' s1)"
    have ch': "cname ch' = nm" "topic ch' = topic ch" using h(3) by (simp_all add: ch'_def)
    have "{fd'. um_find (users ch') fd' \<noteq> None} = insert fd (inside (irc_abs s1) nm)"
      by (auto simp: ch'_def um_simps abs_inside [OF h(2)])
    then have au: "irc_abs u = (irc_abs s1)\<lparr>inside := (inside (irc_abs s1))(nm := insert fd (inside (irc_abs s1) nm))\<rparr>"
      using abs_put_channel [of "put_client c' s1" ch'] h(2) ch' a1 opened by (simp add: u_def fun_upd_idem)
    have find: "um_find (channels s3) nm = Some ch'" using h(2) by (simp add: s3_def j(4) ch'_def um_simps)
    have gettopic: "gettopic ch = topic_msg nm (topic ch)" using h(3) by (simp add: gettopic_def topic_msg_def)
    have inside: "inside (irc_abs s3) nm = inside (irc_abs u) nm" 
      unfolding abs_inside [OF find] au using \<open>{fd'. um_find (users ch') fd' \<noteq> None} = _\<close> by simp
    have s3: "s3 = sendcmd fd (gettopic ch) nm (sendall (member_fds env ch') (CStr ''JOIN'', [nm]) (nickname c) u)"
      using k(7) c' ch' by (simp add: s3_def joined_db_def channel_add_def Let_def u_def ch'_def c'_def)
    note j' = j [folded s3_def c'_def]
    have "irc_abs (sendcmd fd (gettopic ch) nm (sendall (member_fds env ch') (CStr ''JOIN'', [nm]) (nickname c) u)) =
        tell fd (fmt_cmds [topic_msg nm (topic ch)] nm) (tell_all (inside (irc_abs u) nm) (fmt_cmds [(CStr ''JOIN'', [nm])] (nickname c)) (irc_abs u))"
      unfolding abs_send tell_members [OF j'(2) k(4) find] gettopic inside ..
    then have a3: "irc_abs s3 = tell fd (fmt_cmds [topic_msg nm (topic ch)] nm)
        (tell_all (inside (irc_abs u) nm) (fmt_cmds [(CStr ''JOIN'', [nm])] (nickname c)) (irc_abs u))"
      using s3 by simp
    have "Controller_names env c' [nm] s3 = (s', r)" using run j'(1) by simp
    note names = names_reply_refines [OF j'(2,3) k(4) find this]
    have "inside (irc_abs u) nm = insert fd (inside (irc_abs s1) nm)" by (simp add: au)
    then show ?thesis using names opened c' k(8) unfolding spec_join_def nm_def [symmetric]
      by (simp add: Let_def a3 au)
  qed
qed

lemma topic_refines:
  assumes called: "called env fd c s" and run: "Controller_topic env c args s = (s', r)"
  shows "spec_topic l fd (person c) args (irc_abs s) = (irc_abs s', r)"
proof -
  note k = called_parts [OF called]
  define nm where "nm = args ! 0"
  show ?thesis
  proof (cases "\<exists>ch. um_find (channels s) nm = Some ch \<and> client_in c nm")
    case False
    then show ?thesis using run inside_iff(1) [OF called, of nm] channel_name [OF k(1), of nm]
      by (auto simp: Controller_topic_def spec_topic_def throw_def Let_def irc_abs_parts(2) simp flip: nm_def split: option.splits)
  next
    case True
    then obtain ch where ch: "um_find (channels s) nm = Some ch" and i: "client_in c nm" by blast
    note ins = inside_iff(1) [OF called ch]
    have name: "cname ch = nm" using channel_name [OF k(1) ch] by simp
    have put: "irc_abs (put_channel (ch\<lparr>topic := t\<rparr>) s) = (irc_abs s)\<lparr>topics := (topics (irc_abs s))(nm \<mapsto> t)\<rparr>" for t
      using abs_put_channel [of s "ch\<lparr>topic := t\<rparr>"] ch name by (simp add: fun_upd_idem abs_inside)
    have "member_fds env (ch\<lparr>topic := t\<rparr>) = member_fds env ch" for t by (simp add: member_fds_def)
    then have change: "irc_abs (changeTopic env ch (nickname c) t s) = tell_all (inside (irc_abs s) nm)
        (fmt_cmds [(CStr ''TOPIC'', [nm, t])] (nickname c)) ((irc_abs s)\<lparr>topics := (topics (irc_abs s))(nm \<mapsto> t)\<rparr>)" for t
      using tell_members [OF k(1,4) ch] put name by (simp add: changeTopic_def Let_def)
    have "gettopic ch = topic_msg nm (topic ch)" using name by (simp add: gettopic_def topic_msg_def)
    then show ?thesis using run ch i ins name k(7,8) change
      by (auto simp: Controller_topic_def spec_topic_def Let_def irc_abs_parts(2) simp flip: nm_def split: if_splits)
  qed
qed

lemma fair_length: "fair_order env \<Longrightarrow> length (fd_order env xs) = length xs"
  unfolding fair_order_def by blast

lemma list_refines:
  assumes called: "called env fd c s" and run: "Controller_list env c args s = (s', r)"
  shows "spec_list (listing_of env s') fd (person c) args (irc_abs s) = (irc_abs s', r)"
proof -
  note k = called_parts [OF called]
  have same: "channels s' = channels s" using run by (auto simp: Controller_list_def Let_def)
  have one: "list_reply s nm = list_msgs (listing_of env s') (irc_abs s) nm" for nm
  proof (cases "um_find (channels s) nm")
    case None
    then show ?thesis by (simp add: list_reply_def list_msgs_def irc_abs_parts(2))
  next
    case (Some ch)
    have "length (member_fds env ch) = length (users ch)"
      unfolding member_fds_def using fair_length [OF k(4)] by (simp add: um_keys_def)
    then show ?thesis using Some channel_name(1) [OF k(1) Some]
      by (simp add: list_reply_def list_msgs_def irc_abs_parts(2) listing_of_def same)
  qed
  have order: "name_order env (um_keys (channels s)) = chans (listing_of env s')" by (simp add: listing_of_def same)
  have each: "list_reply s = list_msgs (listing_of env s') (irc_abs s)" by (rule ext) (rule one)
  have "Controller_list env c args s = (sendcmds fd ((CNum (rpl LISTSTART), [''Channel :Users  Name''])
      # concat (map (list_msgs (listing_of env s') (irc_abs s)) (if length args > 0 then [args ! 0] else chans (listing_of env s')))
      @ [(CNum (rpl LISTEND), [''End of LIST''])]) (nickname c) s, None)"
    unfolding Controller_list_def Let_def each order k(7) ..
  then have "(s', r) = (sendcmds fd ((CNum (rpl LISTSTART), [''Channel :Users  Name''])
      # concat (map (list_msgs (listing_of env s') (irc_abs s)) (if length args > 0 then [args ! 0] else chans (listing_of env s')))
      @ [(CNum (rpl LISTEND), [''End of LIST''])]) (nickname c) s, None)" (is "_ = (?t, None)")
    using run by (simp only:)
  then have "irc_abs s' = irc_abs ?t" "r = None" by (simp_all only: prod.inject)
  then show ?thesis unfolding spec_list_def Let_def k(8) by (simp only: abs_send(2))
qed

lemma privmsg_refines:
  assumes called: "called env fd c s" and run: "Controller_privmsg env c args s = (s', r)"
  shows "spec_privmsg l fd (person c) args (irc_abs s) = (irc_abs s', r)"
proof -
  note k = called_parts [OF called]
  define nm where "nm = args ! 0"
  have "irc_abs (sendall (filter (\<lambda>d. d \<noteq> fd) (member_fds env ch)) m n s) = tell_all (inside (irc_abs s) nm - {fd}) (fmt_cmds [m] n) (irc_abs s)"
    if ch: "um_find (channels s) nm = Some ch" for ch m n
  proof -
    have "distinct (member_fds env ch)" using fair_distinct(1) [OF k(4)] channel_name [OF k(1) ch] by simp
    moreover have "set (filter (\<lambda>d. d \<noteq> fd) (member_fds env ch)) = inside (irc_abs s) nm - {fd}"
      using set_member_fds [OF k(4), of _ ch] by (auto simp: abs_inside [OF ch])
    ultimately show ?thesis using abs_sendall [of "filter (\<lambda>d. d \<noteq> fd) (member_fds env ch)"] by simp
  qed
  then show ?thesis using run k(7,8)
    by (auto simp: Controller_privmsg_def spec_privmsg_def throw_def Let_def irc_abs_parts(2) simp flip: nm_def split: if_splits option.splits)
qed

lemma ping_refines:
  assumes called: "called env fd c s" and run: "Controller_ping env c args s = (s', r)"
  shows "spec_ping l fd (person c) args (irc_abs s) = (irc_abs s', r)"
  using run called_parts(7) [OF called] by (auto simp: Controller_ping_def spec_ping_def throw_def split: if_splits)

section \<open>The dispatcher\<close>

lemma spec_cmds_lookup:
  "cmd \<noteq> ''USERS'' \<Longrightarrow> um_find (cmds env) cmd = None \<Longrightarrow> um_find spec_cmds cmd = None"
  "um_find spec_cmds ''NICK'' = Some (0, True, spec_nick)" "um_find spec_cmds ''USER'' = Some (4, True, spec_user)"
  "um_find spec_cmds ''QUIT'' = Some (0, True, spec_quit)" "um_find spec_cmds ''JOIN'' = Some (1, False, spec_join)"
  "um_find spec_cmds ''PART'' = Some (1, False, spec_part)" "um_find spec_cmds ''TOPIC'' = Some (1, False, spec_topic)"
  "um_find spec_cmds ''NAMES'' = Some (0, False, spec_names)" "um_find spec_cmds ''LIST'' = Some (0, False, spec_list)"
  "um_find spec_cmds ''PRIVMSG'' = Some (0, False, spec_privmsg)" "um_find spec_cmds ''PING'' = Some (0, False, spec_ping)"
  unfolding spec_cmds_def cmds_def by (simp_all split: if_splits)

lemma handler_refines:
  assumes "um_find (cmds env) cmd = Some (k, fp)" and "cmd \<noteq> ''USERS''"
  obtains h where "um_find spec_cmds cmd = Some (k, cmd \<in> set unreg_allow, h)"
    and "\<And>c s args s' r. called env fd c s \<Longrightarrow> fp c args s = (s', r) \<Longrightarrow>
      h (listing_of env s') fd (person c) args (irc_abs s) = (irc_abs s', r)"
proof -
  have quit: "Controller_quit env c args s = (s', r) \<Longrightarrow> spec_quit l fd (person c) args (irc_abs s) = (irc_abs s', r)" for c args s s' r l
    by (simp add: Controller_quit_def spec_quit_def)
  show thesis using assms(1)
  proof (cases rule: cmds_cases)
    case 1 then show thesis using that [of spec_nick] nick_refines by (simp add: spec_cmds_lookup unreg_allow_def)
  next
    case 2 then show thesis using that [of spec_user] user_refines by (simp add: spec_cmds_lookup unreg_allow_def)
  next
    case 3 then show thesis using that [of spec_quit] quit by (simp add: spec_cmds_lookup unreg_allow_def)
  next
    case 4 then show thesis using that [of spec_join] join_refines by (simp add: spec_cmds_lookup unreg_allow_def)
  next
    case 5 then show thesis using that [of spec_part] part_refines by (simp add: spec_cmds_lookup unreg_allow_def)
  next
    case 6 then show thesis using that [of spec_topic] topic_refines by (simp add: spec_cmds_lookup unreg_allow_def)
  next
    case 7 then show thesis using that [of spec_names] names_refines by (simp add: spec_cmds_lookup unreg_allow_def)
  next
    case 8 then show thesis using that [of spec_list] list_refines by (simp add: spec_cmds_lookup unreg_allow_def)
  next
    case 9 then show thesis using that [of spec_privmsg] privmsg_refines by (simp add: spec_cmds_lookup unreg_allow_def)
  next
    case 10 then show thesis using that [of spec_ping] ping_refines by (simp add: spec_cmds_lookup unreg_allow_def)
  next
    case 11 then show thesis using assms(2) by simp
  qed
qed

lemma welcome_refines:
  assumes wf: "db_wf s" and c: "getuser s fd = Some c" and run: "finish_regist fd s = (s', r)"
  shows "irc_abs s' = spec_welcome fd (irc_abs s) \<and> r = None \<and> channels s' = channels s"
proof -
  have ok: "connfd c = fd" "nick_str (person c) = nickname c"
    using getuser_ok [OF wf c] nick_str_person by (auto simp: client_ok_def)
  have c1: "um_find (clients s) fd = Some c" using c by (simp add: getuser_def)
  define c' where "c' = c\<lparr>status := status c OR WELCOMED\<rparr>"
  have "person c' = (person c)\<lparr>p_welcomed := True\<rparr>" by (simp add: c'_def person_def flags_bits bit_or_iff)
  moreover have "connfd c' = fd" "nickname c' = nickname c" using ok(1) by (simp_all add: c'_def)
  ultimately have put: "irc_abs (put_client c' s) = (irc_abs s)\<lparr>people := (people (irc_abs s))(fd \<mapsto> (person c)\<lparr>p_welcomed := True\<rparr>)\<rparr>"
    using abs_put_client [of s c'] c1 by simp
  have fin: "finish_regist fd s = (if hasRegist c \<or> \<not> canRegist c then (s, None)
      else (sendcmds fd WELCOME_CMDS (nickname c) (put_client c' s), None))"
    using \<open>nickname c' = nickname c\<close> by (simp add: finish_regist_def c regist_def c'_def)
  have "canRegist c \<longleftrightarrow> p_nick (person c) \<noteq> None \<and> p_user (person c) \<noteq> None"
    unfolding person_parts(3) by (simp add: flags_bits)
  then have "spec_welcome fd (irc_abs s) = (if hasRegist c \<or> \<not> canRegist c then irc_abs s
      else tell fd (fmt_cmds WELCOME_CMDS (nickname c)) (irc_abs (put_client c' s)))"
    unfolding spec_welcome_def irc_abs_parts(1) c1 option.map option.case put ok(2) person_parts(2) by auto
  then show ?thesis using run fin by (auto split: if_splits)
qed

lemma call_refines:
  assumes wf: "db_wf s" and nw: "nick_wf s" and live: "refs_live s" and fair: "fair_order env" and c: "getuser s fd = Some c"
    and nu: "argv = [] \<or> hd argv \<noteq> ''USERS''" and run: "call env fd argv s = (s', r)"
  shows "spec_call (listing_of env s') fd argv (irc_abs s) = (irc_abs s', r)"
proof (cases argv)
  case Nil
  then show ?thesis using run by (simp add: call_def spec_call_def)
next
  case (Cons cmd args)
  have called: "called env fd c s" using assms by (simp add: called_def)
  note k = called_parts [OF called]
  show ?thesis
  proof (cases "um_find (cmds env) cmd")
    case None
    then show ?thesis using run nu Cons spec_cmds_lookup(1) [of cmd env] by (auto simp: call_def spec_call_def throw_def)
  next
    case (Some p)
    then obtain m fp where fp: "um_find (cmds env) cmd = Some (m, fp)" by (cases p) simp
    have "cmd \<noteq> ''USERS''" using nu Cons by simp
    then obtain h where h: "um_find spec_cmds cmd = Some (m, cmd \<in> set unreg_allow, h)"
      and step: "\<And>c s args s' r. called env fd c s \<Longrightarrow> fp c args s = (s', r) \<Longrightarrow>
        h (listing_of env s') fd (person c) args (irc_abs s) = (irc_abs s', r)"
      using handler_refines [OF fp, of fd] by metis
    show ?thesis
    proof (cases "(\<not> hasRegist c \<and> cmd \<notin> set unreg_allow) \<or> length args < m")
      case True
      then show ?thesis using run Cons fp h k(5,9) by (auto simp: call_def spec_call_def throw_def split: if_splits)
    next
      case False
      obtain s1 r1 where s1: "fp c args s = (s1, r1)" by fastforce
      have spec: "spec_call l fd argv (irc_abs s) = (case h l fd (person c) args (irc_abs s) of
          (a', Some e) \<Rightarrow> (a', Some e) | (a', None) \<Rightarrow> (if hasRegist c then a' else spec_welcome fd a', None))" for l
        using Cons h k(9) False by (auto simp: spec_call_def split: prod.split option.split)
      show ?thesis
      proof (cases r1)
        case (Some e)
        then have "s' = s1" "r = Some e" using run Cons fp k(5) False s1 by (auto simp: call_def)
        then show ?thesis using step [OF called s1] Some by (simp add: spec)
      next
        case None
        obtain c1 where c1: "getuser s1 fd = Some c1" using handler_keeps_client [OF fp s1 c] .
        have wf1: "db_wf s1" by (rule handler_wf [OF fp wf c fair s1]) (simp add: None)
        have fin: "(s', r) = (if \<not> hasRegist c then finish_regist fd s1 else (s1, None))"
          using run Cons fp k(5) False s1 None by (auto simp: call_def split: if_splits)
        have "irc_abs s' = (if hasRegist c then irc_abs s1 else spec_welcome fd (irc_abs s1)) \<and> r = None \<and> channels s' = channels s1"
          using fin welcome_refines [OF wf1 c1, of s' r] by (auto split: if_splits)
        then show ?thesis using step [OF called s1] None listing_of_same [of s' s1 env] by (simp add: spec)
      qed
    qed
  qed
qed

text \<open>
  C3. The dispatcher implements the abstract server, for every command but USERS (which overflows its
  buffer, \<open>users_overflows\<close>), in the well-formed states whose table of nicknames is exact and in which
  no channel holds a dangling reference. Reachable states leave that domain in two ways only: a NICK
  refused with 432 makes the table wrong (\<open>call_nick_wf\<close>, \<open>refused_nick_corrupts\<close>), and a
  disconnecting member leaves a dangling reference (\<open>call_defined\<close>, \<open>disconnect_dangles\<close>). In it, every
  command line, whether it succeeds or is refused, takes the abstract view of the state to what
  \<open>spec_call\<close> says, and returns the same reply. The view has the people with the names they gave, the
  channels with topics and members, and all text sent to every connection; where names are listed,
  they come in some order, each once.
\<close>

theorem irc_refines:
  assumes "db_wf s" and "nick_wf s" and "refs_live s" and "fair_order env" and "getuser s fd = Some c"
    and "argv = [] \<or> hd argv \<noteq> ''USERS''" and "call env fd argv s = (s', r)"
  shows "\<exists>l. listing_ok l (irc_abs s') \<and> spec_call l fd argv (irc_abs s) = (irc_abs s', r)"
proof -
  have "r \<noteq> Some Undefined" using call_live [OF assms(1,3-7)] by simp
  then have "db_wf s'" using call_wf [OF assms(1,4,7)] by simp
  then show ?thesis using listing_of_ok [of s' env] assms(4) call_refines [OF assms] by blast
qed

end
