(* ===== verification/EventLoop.thy ===== *)
theory EventLoop
  imports Prelude "HOL-Library.Multiset"
begin

text \<open>
  Event loops whose steps may be undefined: runs, the runs the kernel can cause, and the interfaces under
  which such a loop never gets stuck (\<open>event_loop\<close>) and implements an abstract machine that may have
  choices of its own (\<open>simulating_loop\<close>) or none (\<open>refining_loop\<close>). Used for the chat server, the throughput
  server with its client, and the IRC server.
\<close>

fun run_opt :: "('s \<Rightarrow> 'e \<Rightarrow> 's option) \<Rightarrow> 's \<Rightarrow> 'e list \<Rightarrow> 's option" where
  "run_opt step s [] = Some s"
| "run_opt step s (e # es) = (case step s e of None \<Rightarrow> None | Some s' \<Rightarrow> run_opt step s' es)"

fun admitted :: "('s \<Rightarrow> 'e \<Rightarrow> 's option) \<Rightarrow> ('s \<Rightarrow> 'e \<Rightarrow> bool) \<Rightarrow> 's \<Rightarrow> 'e list \<Rightarrow> bool" where
  "admitted step guard s [] = True"
| "admitted step guard s (e # es) =
     (guard s e \<and> (case step s e of None \<Rightarrow> True | Some s' \<Rightarrow> admitted step guard s' es))"

lemma run_opt_append: "run_opt step s (xs @ ys) = Option.bind (run_opt step s xs) (\<lambda>s'. run_opt step s' ys)"
  by (induction xs arbitrary: s) (auto split: option.splits)

text \<open>What the kernel causes avoids some events, or there is a first of them.\<close>

lemma admitted_or_first:
  "admitted step guard s es \<Longrightarrow> admitted step (\<lambda>s e. guard s e \<and> \<not> bad s e) s es \<or>
     (\<exists>pre e post s'. es = pre @ e # post \<and> admitted step (\<lambda>s e. guard s e \<and> \<not> bad s e) s pre \<and>
       run_opt step s pre = Some s' \<and> guard s' e \<and> bad s' e)"
proof (induction es arbitrary: s)
  case (Cons e es)
  show ?case
  proof (cases "bad s e")
    case True
    then show ?thesis using Cons.prems by (intro disjI2 exI [of _ "[]"]) simp
  next
    case False
    show ?thesis
    proof (cases "step s e")
      case None
      then show ?thesis using Cons.prems False by simp
    next
      case (Some s1)
      then have "admitted step guard s1 es" using Cons.prems by simp
      from Cons.IH [OF this] show ?thesis
      proof
        assume "admitted step (\<lambda>s e. guard s e \<and> \<not> bad s e) s1 es"
        then show ?thesis using Some False Cons.prems by simp
      next
        assume "\<exists>pre e post s'. es = pre @ e # post \<and> admitted step (\<lambda>s e. guard s e \<and> \<not> bad s e) s1 pre \<and>
          run_opt step s1 pre = Some s' \<and> guard s' e \<and> bad s' e"
        then obtain pre e' post s' where "es = pre @ e' # post" "admitted step (\<lambda>s e. guard s e \<and> \<not> bad s e) s1 pre"
          "run_opt step s1 pre = Some s'" "guard s' e'" "bad s' e'" by blast
        then show ?thesis using Some False Cons.prems
          by (intro disjI2 exI [of _ "e # pre"] exI [of _ e'] exI [of _ post] exI [of _ s']) simp
      qed
    qed
  qed
qed simp

locale event_loop =
  fixes step :: "'s \<Rightarrow> 'e \<Rightarrow> 's option"
    and guard :: "'s \<Rightarrow> 'e \<Rightarrow> bool"
    and inv :: "'s \<Rightarrow> bool"
  assumes progress: "inv s \<Longrightarrow> guard s e \<Longrightarrow> \<exists>s'. step s e = Some s' \<and> inv s'"
begin

lemma run_total: "inv s \<Longrightarrow> admitted step guard s es \<Longrightarrow> \<exists>s'. run_opt step s es = Some s' \<and> inv s'"
proof (induction es arbitrary: s)
  case (Cons e es)
  then obtain s' where "step s e = Some s'" "inv s'" using progress [of s e] by auto
  then show ?case using Cons by simp
qed simp

lemma admitted_prefix: "admitted step guard s (xs @ ys) \<Longrightarrow> admitted step guard s xs"
  by (induction xs arbitrary: s) (auto split: option.splits)

end

text \<open>A loop that implements an abstract machine without errors, step by step.\<close>

locale refining_loop = event_loop +
  fixes abs :: "'a \<Rightarrow> 'c"
    and astep :: "'c \<Rightarrow> 'b \<Rightarrow> 'c"
  assumes sim: "inv s \<Longrightarrow> guard s e \<Longrightarrow> step s e = Some s' \<Longrightarrow> abs s' = astep (abs s) e"
begin

lemma run_refines:
  "inv s \<Longrightarrow> admitted step guard s es \<Longrightarrow> \<exists>s'. run_opt step s es = Some s' \<and> inv s' \<and> abs s' = foldl astep (abs s) es"
proof (induction es arbitrary: s)
  case (Cons e es)
  then obtain s' where "step s e = Some s'" "inv s'" "abs s' = astep (abs s) e"
    using progress [of s e] sim [of s e] by auto
  then show ?case using Cons.IH [of s'] Cons.prems by simp
qed simp

end

text \<open>A loop that implements an abstract machine with choices of its own.\<close>

inductive rel_run :: "('c \<Rightarrow> 'e \<Rightarrow> 'c \<Rightarrow> bool) \<Rightarrow> 'c \<Rightarrow> 'e list \<Rightarrow> 'c \<Rightarrow> bool" for r where
  stop: "rel_run r a [] a"
| step: "r a e b \<Longrightarrow> rel_run r b es c \<Longrightarrow> rel_run r a (e # es) c"

locale simulating_loop = event_loop +
  fixes abs :: "'a \<Rightarrow> 'c"
    and arel :: "'c \<Rightarrow> 'b \<Rightarrow> 'c \<Rightarrow> bool"
  assumes sim_rel: "inv s \<Longrightarrow> guard s e \<Longrightarrow> step s e = Some s' \<Longrightarrow> arel (abs s) e (abs s')"
begin

lemma run_simulates:
  "inv s \<Longrightarrow> admitted step guard s es \<Longrightarrow> \<exists>s'. run_opt step s es = Some s' \<and> inv s' \<and> rel_run arel (abs s) es (abs s')"
proof (induction es arbitrary: s)
  case Nil
  then show ?case by (simp add: rel_run.stop)
next
  case (Cons e es)
  then obtain s' where "step s e = Some s'" "inv s'" "arel (abs s) e (abs s')"
    using progress [of s e] sim_rel [of s e] by auto
  then show ?case using Cons.IH [of s'] Cons.prems by (auto intro: rel_run.step)
qed

end

text \<open>A function is the relation without a choice.\<close>

sublocale refining_loop \<subseteq> simulating_loop step guard inv abs "\<lambda>a e b. b = astep a e"
  by unfold_locales (rule sim)

section \<open>More on the maps\<close>

text \<open>\<^verbatim>\<open>operator[]\<close> followed by an assignment.\<close>

definition um_put :: "'k \<Rightarrow> 'v \<Rightarrow> ('k, 'v) um \<Rightarrow> ('k, 'v) um" where
  "um_put k v m = um_assign k v (um_emplace k v m)"

lemma um_find_put: "um_find (um_put k v m) k' = (if k' = k then Some v else um_find m k')"
  by (auto simp: um_put_def um_laws)

lemma um_put_fresh:
  assumes "um_find m k = None"
  shows "um_put k v m = m @ [(k, v)]"
proof -
  have k: "k \<notin> fst ` set m" using assms by (simp add: um_find_def map_of_eq_None_iff)
  then have "um_assign k v m = m" unfolding um_assign_def by (intro map_idI) force
  then show ?thesis using assms by (simp add: um_put_def um_emplace_def um_assign_def)
qed

lemma set_um_assign: "p \<in> set (um_assign k v m) \<Longrightarrow> p \<in> set m \<or> snd p = v"
  by (auto simp: um_assign_def split: if_splits)

lemma length_um_erase: "um_wf m \<Longrightarrow> um_find m k = Some v \<Longrightarrow> Suc (length (um_erase k m)) = length m"
proof (induction m)
  case (Cons p m)
  show ?case
  proof (cases "fst p = k")
    case True
    then have "k \<notin> fst ` set m" using Cons.prems(1) by (auto simp: um_wf_def um_keys_def)
    then have "um_erase k m = m" unfolding um_erase_def by (intro filter_True) auto
    then show ?thesis using True by (simp add: um_erase_def)
  next
    case False
    then have "um_find m k = Some v" "um_wf m" using Cons.prems by (auto simp: um_find_def um_wf_def um_keys_def)
    then show ?thesis using Cons.IH False by (simp add: um_erase_def)
  qed
qed simp

section \<open>C strings in buffers\<close>

text \<open>
  The first token of \<^verbatim>\<open>strtok\<close> in a buffer: \<open>None\<close> when it runs past the end of the buffer, \<open>Some None\<close>
  when there is no token.
\<close>

definition strtok_first :: "char list \<Rightarrow> char list \<Rightarrow> string option option" where
  "strtok_first delims buf =
     (let s = dropWhile (\<lambda>c. c \<in> set delims) buf; t = takeWhile (\<lambda>c. c \<notin> set delims \<and> c \<noteq> NUL) s
      in if s = [] then None else if hd s = NUL then Some None
         else if length t = length s then None else Some (Some t))"

lemma strtok_first_token:
  assumes "t \<noteq> []" and "\<forall>c\<in>set t. c \<notin> set delims \<and> c \<noteq> NUL" and "d \<in> set delims \<or> d = NUL"
  shows "strtok_first delims (t @ d # r) = Some (Some t)"
proof -
  have "takeWhile (\<lambda>c. c \<notin> set delims \<and> c \<noteq> NUL) (t @ d # r) = t"
    using assms(2,3) by (subst takeWhile_append2) auto
  moreover have "dropWhile (\<lambda>c. c \<in> set delims) (t @ d # r) = t @ d # r"
    using assms(1,2) by (cases t) auto
  moreover have "hd (t @ d # r) \<noteq> NUL" using assms(1,2) by (cases t) auto
  ultimately show ?thesis by (simp add: strtok_first_def Let_def)
qed

lemma takeWhile_shorter: "x \<in> set xs \<Longrightarrow> \<not> P x \<Longrightarrow> length (takeWhile P xs) < length xs"
  by (induction xs) auto

lemma strtok_first_cases:
  assumes "NUL \<in> set buf" and "NUL \<notin> set delims"
  shows "strtok_first delims buf = Some None \<or> (\<exists>t. strtok_first delims buf = Some (Some t) \<and>
    t \<noteq> [] \<and> length t < length buf \<and> (\<forall>c\<in>set t. c \<notin> set delims \<and> c \<noteq> NUL))"
proof -
  define s where "s = dropWhile (\<lambda>c. c \<in> set delims) buf"
  define t where "t = takeWhile (\<lambda>c. c \<notin> set delims \<and> c \<noteq> NUL) s"
  have nul: "NUL \<in> set s"
    using assms by (metis Un_iff in_set_conv_decomp s_def set_append set_takeWhileD takeWhile_dropWhile_id)
  have le: "length s \<le> length buf" unfolding s_def by (rule length_dropWhile_le)
  have lt: "length t < length s" unfolding t_def by (rule takeWhile_shorter [OF nul]) simp
  have ne: "t \<noteq> []" if "hd s \<noteq> NUL"
  proof -
    have "s \<noteq> []" using nul by auto
    then have "hd s \<notin> set delims" using hd_dropWhile unfolding s_def by fast
    then show ?thesis using that \<open>s \<noteq> []\<close> unfolding t_def by (cases s) auto
  qed
  have "\<forall>c\<in>set t. c \<notin> set delims \<and> c \<noteq> NUL" unfolding t_def by (auto dest: set_takeWhileD)
  moreover have "strtok_first delims buf = (if s = [] then None else if hd s = NUL then Some None
      else if length t = length s then None else Some (Some t))"
    unfolding strtok_first_def Let_def s_def t_def by (rule refl)
  moreover have "s \<noteq> []" "length t < length buf" using nul lt le by auto
  ultimately show ?thesis using lt ne by (cases "hd s = NUL") auto
qed

text \<open>The zeroed buffer of \<open>n\<close> bytes after \<^verbatim>\<open>read\<close>.\<close>

definition read_buf :: "nat \<Rightarrow> char list \<Rightarrow> char list" where
  "read_buf n data = data @ replicate (n - length data) NUL"

lemma read_buf_nul: "length data < n \<Longrightarrow> NUL \<in> set (read_buf n data)"
  by (simp add: read_buf_def)

lemma read_buf_length: "length data \<le> n \<Longrightarrow> length (read_buf n data) = n"
  by (simp add: read_buf_def)

end
