(* ===== verification/IrcSession.thy ===== *)
theory IrcSession
  imports IrcRefine IrcService EventLoop
begin

text \<open>
  Whole sessions of the IRC server against its specification: from parser to dispatcher to event loop.
  As long as no member of a channel disconnects, nobody asks for USERS and every nickname that is
  asked for starts with a letter (\<open>orderly\<close>; the three ways out are the faults of \<open>IrcService\<close>), every event
  the kernel delivers is defined and does what the abstract server says. The loop is interpreted as a
  \<open>simulating_loop\<close>.
\<close>

section \<open>The abstract server, event by event\<close>

text \<open>One line: a refusal is sent back without the name of the client.\<close>

inductive spec_line :: "int \<Rightarrow> argv_t \<Rightarrow> Irc \<Rightarrow> Irc \<Rightarrow> bool" for fd where
  succeeds: "spec_call l fd argv a = (a', None) \<Longrightarrow> listing_ok l a' \<Longrightarrow> spec_line fd argv a a'"
| refused: "spec_call l fd argv a = (a', Some (Throw m)) \<Longrightarrow> listing_ok l a'
    \<Longrightarrow> spec_line fd argv a (tell fd (fmt_cmds [m] []) a')"
| quits: "spec_call l fd argv a = (a', Some (Event DISCONNECT)) \<Longrightarrow> listing_ok l a'
    \<Longrightarrow> spec_line fd argv a (a'\<lparr>people := (people a')(fd := None)\<rparr>)"

inductive spec_lines :: "int \<Rightarrow> argv_t list \<Rightarrow> Irc \<Rightarrow> Irc \<Rightarrow> bool" for fd where
  no_line: "spec_lines fd [] a a"
| a_line: "spec_line fd argv a b \<Longrightarrow> spec_lines fd argvs b c \<Longrightarrow> spec_lines fd (argv # argvs) a c"

definition spec_arrive :: "int \<Rightarrow> Irc \<Rightarrow> Irc" where
  "spec_arrive fd a = (if people a fd \<noteq> None then a
     else a\<lparr>people := (people a)(fd \<mapsto> \<lparr>p_nick = None, p_user = None, p_welcomed = False\<rparr>)\<rparr>)"

definition spec_leave :: "int \<Rightarrow> Irc \<Rightarrow> Irc" where
  "spec_leave fd a = a\<lparr>people := (people a)(fd := None)\<rparr>"

text \<open>The command lines of a read.\<close>

definition lines_of :: "char list \<Rightarrow> argv_t list" where
  "lines_of bytes = map (\<lambda>t. parse t (length t)) (strtok_all [CR, LF] (cstr (line_buf bytes)))"

inductive spec_event :: "Irc \<Rightarrow> event \<Rightarrow> Irc \<Rightarrow> bool" where
  arrives: "spec_event a (Accept fd i h) (spec_arrive fd a)"
| leaves: "spec_event a (Input fd []) (spec_leave fd a)"
| writes: "bytes \<noteq> [] \<Longrightarrow> spec_lines fd (lines_of bytes) a b \<Longrightarrow> spec_event a (Input fd bytes) b"

section \<open>Orderly events\<close>

definition plain :: "argv_t \<Rightarrow> bool" where
  "plain argv \<longleftrightarrow> (case argv of [] \<Rightarrow> True
     | cmd # args \<Rightarrow> cmd \<noteq> ''USERS'' \<and> cmd \<noteq> ''QUIT'' \<and> (cmd = ''NICK'' \<longrightarrow> args = [] \<or> valid_nick (args ! 0)))"

definition leaving :: "char list \<Rightarrow> bool" where
  "leaving bytes \<longleftrightarrow> bytes = [] \<or> (\<exists>args. lines_of bytes = [''QUIT'' # args])"

definition orderly :: "Irc \<Rightarrow> event \<Rightarrow> bool" where
  "orderly a e = (case e of Accept fd i h \<Rightarrow> True
     | Input fd bytes \<Rightarrow> NUL \<in> set (line_buf bytes) \<and>
         (if leaving bytes then (\<forall>nm. fd \<notin> inside a nm) else (\<forall>argv \<in> set (lines_of bytes). plain argv)))"

text \<open>The server as a loop over events, each with the order in which its step traverses the tables.\<close>

definition irc_step :: "Server \<Rightarrow> hash_order \<times> event \<Rightarrow> Server option" where
  "irc_step s e = (case server_step (fst e) (snd e) s of (s', True) \<Rightarrow> Some s' | (s', False) \<Rightarrow> None)"

definition session_guard :: "Server \<Rightarrow> hash_order \<times> event \<Rightarrow> bool" where
  "session_guard s e \<longleftrightarrow> fair_order (fst e) \<and> kernel_ok s (snd e) \<and> orderly (irc_abs (db s)) (snd e)"

definition session_ok :: "Server \<Rightarrow> bool" where
  "session_ok s \<longleftrightarrow> server_wf s \<and> refs_live s \<and> nick_wf s \<and> (\<forall>fd \<in> set (epfds s). 0 \<le> fd)"

section \<open>Connections\<close>

lemma arrive_ok:
  assumes ok: "session_ok s" and k: "fd = -1 \<or> (0 \<le> fd \<and> fd \<notin> set (epfds s))"
  shows "session_ok (handle_new_client fd i h s)"
    and "irc_abs (db (handle_new_client fd i h s)) = spec_arrive fd (irc_abs (db s))"
proof -
  have wf: "server_wf (handle_new_client fd i h s)" using handle_new_client_wf ok k by (simp add: session_ok_def)
  let ?s = "handle_new_client fd i h s"
  have f: "channels ?s = channels s" "nick_mp ?s = nick_mp s" "sent ?s = sent s"
    "clients ?s = (if um_find (clients s) fd = None then um_emplace fd (new_client (next_oid s) fd i h) (clients s) else clients s)"
    "epfds ?s = (if fd < 0 then epfds s else epfds s @ [fd])"
    by (simp_all add: handle_new_client_def client_add_def getuser_def Let_def split: option.splits)
  have find: "um_find (clients ?s) fd' = (if fd' = fd \<and> um_find (clients s) fd = None
      then Some (new_client (next_oid s) fd i h) else um_find (clients s) fd')" for fd'
    by (simp add: f um_simps)
  have p: "refs_live s" "nick_wf s" using ok by (simp_all add: session_ok_def)
  have live: "refs_live ?s" unfolding refs_live_def f(1) find
  proof (intro allI impI)
    fix nm ch fd' r assume "um_find (channels s) nm = Some ch" "um_find (users ch) fd' = Some r"
    from refs_liveD [OF p(1) this] show "\<exists>c. (if fd' = fd \<and> um_find (clients s) fd = None
      then Some (new_client (next_oid s) fd i h) else um_find (clients s) fd') = Some c \<and> oid c = r" by auto
  qed
  have nick: "nickname (new_client (next_oid s) fd i h) = []" by (simp add: new_client_def)
  have "nick_wf ?s" unfolding nick_wf_def f(2) find
  proof (intro conjI allI impI)
    fix fd' c assume "(if fd' = fd \<and> um_find (clients s) fd = None then Some (new_client (next_oid s) fd i h)
      else um_find (clients s) fd') = Some c" "nickname c \<noteq> []"
    then show "um_find (nick_mp s) (nickname c) = Some (oid c)"
      using nick nick_wfD(1) [OF p(2)] by (auto split: if_splits)
  next
    fix n r assume "um_find (nick_mp s) n = Some r"
    from nick_wfD(2) [OF p(2) this] obtain fd' c where "um_find (clients s) fd' = Some c" "oid c = r \<and> nickname c = n \<and> n \<noteq> []"
      by blast
    then show "\<exists>fd' c. (if fd' = fd \<and> um_find (clients s) fd = None then Some (new_client (next_oid s) fd i h)
      else um_find (clients s) fd') = Some c \<and> oid c = r \<and> nickname c = n \<and> n \<noteq> []"
      by (intro exI [of _ fd'] exI [of _ c]) auto
  qed
  then show "session_ok ?s" using wf live ok f(5) by (auto simp: session_ok_def)
  have "person (new_client (next_oid s) fd i h) = \<lparr>p_nick = None, p_user = None, p_welcomed = False\<rparr>"
    by (simp add: person_def new_client_def flags_bits USER_def)
  then show "irc_abs (db ?s) = spec_arrive fd (irc_abs (db s))"
    by (auto simp: irc_abs_def spec_arrive_def f um_simps fun_eq_iff)
qed

lemma leave_ok:
  assumes ok: "session_ok s" and c: "um_find (clients s) fd = Some c" and out: "\<forall>nm. fd \<notin> inside (irc_abs (db s)) nm"
  shows "session_ok (disconnect fd s)" and "irc_abs (db (disconnect fd s)) = spec_leave fd (irc_abs (db s))"
proof -
  have p: "server_wf s" "refs_live s" "nick_wf s" "\<forall>fd \<in> set (epfds s). 0 \<le> fd" using ok by (simp_all add: session_ok_def)
  have f: "clients (disconnect fd s) = um_erase fd (clients s)" "channels (disconnect fd s) = channels s"
    "nick_mp (disconnect fd s) = um_erase (nickname c) (nick_mp s)" "sent (disconnect fd s) = sent s"
    "epfds (disconnect fd s) = removeAll fd (epfds s)"
    using c by (simp_all add: disconnect_def client_del_def getuser_def)
  have none: "\<not> member (channels s) nm fd r" for nm r using out by (simp add: irc_abs_def)
  have live: "refs_live (disconnect fd s)" unfolding refs_live_def f(1,2)
  proof (intro allI impI)
    fix nm ch fd' r assume m: "um_find (channels s) nm = Some ch" "um_find (users ch) fd' = Some r"
    then have "fd' \<noteq> fd" using none [of nm r] by (auto simp: member_def)
    then show "\<exists>c. um_find (um_erase fd (clients s)) fd' = Some c \<and> oid c = r"
      using refs_liveD [OF p(2) m] by (simp add: um_simps)
  qed
  have "oids_unique (clients s)" using p(1) by (simp add: server_wf_def db_wf_def wf_data_def)
  then have uniq: "fd' = fd" if "um_find (clients s) fd' = Some d" "oid d = oid c" for fd' d
    using that c unfolding oids_unique_def by blast
  have "nick_wf (disconnect fd s)"
    unfolding nick_wf_def f
  proof (intro conjI allI impI)
    fix fd' d assume d: "um_find (um_erase fd (clients s)) fd' = Some d" "nickname d \<noteq> []"
    then have d': "um_find (clients s) fd' = Some d" "fd' \<noteq> fd" by (auto simp: um_simps split: if_splits)
    have "nickname d \<noteq> nickname c"
      using nick_wfD(1) [OF p(3) d'(1) d(2)] nick_wfD(1) [OF p(3) c] uniq [OF d'(1)] d(2) d'(2) by auto
    then show "um_find (um_erase (nickname c) (nick_mp s)) (nickname d) = Some (oid d)"
      using nick_wfD(1) [OF p(3) d'(1) d(2)] by (simp add: um_simps)
  next
    fix n r assume "um_find (um_erase (nickname c) (nick_mp s)) n = Some r"
    then have n: "um_find (nick_mp s) n = Some r" "n \<noteq> nickname c" by (auto simp: um_simps split: if_splits)
    obtain fd' d where d: "um_find (clients s) fd' = Some d" "oid d = r" "nickname d = n" "n \<noteq> []"
      using nick_wfD(2) [OF p(3) n(1)] by blast
    then have "fd' \<noteq> fd" using n(2) c by auto
    then show "\<exists>fd' d. um_find (um_erase fd (clients s)) fd' = Some d \<and> oid d = r \<and> nickname d = n \<and> n \<noteq> []"
      using d by (auto simp: um_simps intro!: exI [of _ fd'])
  qed
  then show "session_ok (disconnect fd s)" using disconnect_wf [OF p(1)] live p(4) f(5) by (simp add: session_ok_def)
  show "irc_abs (db (disconnect fd s)) = spec_leave fd (irc_abs (db s))"
    by (auto simp: irc_abs_def spec_leave_def f um_simps fun_eq_iff)
qed

section \<open>Lines\<close>

lemma spec_cmds_cases:
  assumes "um_find spec_cmds cmd = Some (k, any, h)"
  obtains "cmd = ''NICK''" "h = spec_nick" | "cmd = ''QUIT''" "h = spec_quit" | "h \<in> {spec_user, spec_join, spec_part,
    spec_topic, spec_names, spec_list, spec_privmsg, spec_ping}"
  using assms unfolding spec_cmds_def by (auto split: if_splits)

definition bad_end :: "exn option \<Rightarrow> bool" where
  "bad_end r \<longleftrightarrow> r = Some (Event DISCONNECT) \<or> (\<exists>ps. r = Some (Throw (CNum (err ERRONEUSNICKNAME), ps)))"

lemma spec_open_error: "spec_open nm a = Inl e \<Longrightarrow> e = (CNum (err NOSUCHCHANNEL), [nm, ''No such channel''])"
  by (auto simp: spec_open_def split: if_splits)

lemma spec_handlers_end:
  assumes "h \<in> {spec_user, spec_join, spec_part, spec_topic, spec_names, spec_list, spec_privmsg, spec_ping}"
  shows "\<not> bad_end (snd (h l fd p args a))"
proof -
  have throws: "\<not> bad_end (snd (throw a e ps))" if "e \<noteq> ERRONEUSNICKNAME" for a e ps
    using that by (cases e) (simp_all add: throw_def bad_end_def)
  have none: "\<not> bad_end None" by (simp add: bad_end_def)
  have opened: "\<not> bad_end (Some (Throw (CNum (err NOSUCHCHANNEL), ps)))" for ps by (simp add: bad_end_def)
  have "\<not> bad_end (snd (spec_user l fd p args a))" unfolding spec_user_def using throws none by simp
  moreover have "\<not> bad_end (snd (spec_join l fd p args a))" unfolding spec_join_def Let_def
    using none opened by (auto split: sum.split dest!: spec_open_error)
  moreover have "\<not> bad_end (snd (spec_part l fd p args a))" unfolding spec_part_def Let_def using throws none by simp
  moreover have "\<not> bad_end (snd (spec_topic l fd p args a))" unfolding spec_topic_def Let_def
    using throws none by (simp split: option.split)
  moreover have "\<not> bad_end (snd (spec_names l fd p args a))" unfolding spec_names_def
    using none opened by (auto split: sum.split dest!: spec_open_error)
  moreover have "\<not> bad_end (snd (spec_list l fd p args a))" unfolding spec_list_def Let_def using none by simp
  moreover have "\<not> bad_end (snd (spec_privmsg l fd p args a))" unfolding spec_privmsg_def Let_def using throws none by simp
  moreover have "\<not> bad_end (snd (spec_ping l fd p args a))" unfolding spec_ping_def using throws none by simp
  ultimately show ?thesis using assms by blast
qed

lemma spec_nick_end: "args = [] \<or> valid_nick (args ! 0) \<Longrightarrow> \<not> bad_end (snd (spec_nick l fd p args a))"
  by (auto simp: spec_nick_def throw_def bad_end_def Let_def)

lemma plain_end:
  assumes "plain argv" and "spec_call l fd argv a = (a', r)"
  shows "\<not> bad_end r"
proof (cases argv)
  case Nil
  then show ?thesis using assms(2) by (auto simp: spec_call_def bad_end_def)
next
  case (Cons cmd args)
  note argv = this
  show ?thesis
  proof (cases "um_find spec_cmds cmd")
    case None
    then show ?thesis using assms(2) argv by (auto simp: spec_call_def throw_def bad_end_def)
  next
    case (Some x)
    then obtain k any h where h: "um_find spec_cmds cmd = Some (k, any, h)" by (cases x) auto
    have fin: "\<not> bad_end (snd (h l fd p args a))" for p
      using h
    proof (cases rule: spec_cmds_cases)
      case 1 then show ?thesis using assms(1) argv spec_nick_end by (simp add: plain_def)
    next
      case 2 then show ?thesis using assms(1) argv by (simp add: plain_def)
    next
      case 3 then show ?thesis by (rule spec_handlers_end)
    qed
    show ?thesis
    proof (cases "people a fd")
      case None
      then show ?thesis using assms(2) argv h by (auto simp: spec_call_def bad_end_def)
    next
      case (Some p)
      then show ?thesis using assms(2) argv h fin [of p]
        by (cases "h l fd p args a") (auto simp: spec_call_def throw_def bad_end_def split: if_splits option.splits)
    qed
  qed
qed

lemma line_ok:
  assumes ok: "session_ok s" and fair: "fair_order env" and c: "um_find (clients s) fd \<noteq> None"
    and plain: "plain (parse t (length t))"
  obtains s' where "handle_line env fd t s = (s', True)" and "session_ok s'" and "um_find (clients s') fd \<noteq> None"
    and "spec_line fd (parse t (length t)) (irc_abs (db s)) (irc_abs (db s'))"
proof -
  define argv where "argv = parse t (length t)"
  have p: "db_wf (db s)" "refs_live (db s)" "nick_wf (db s)" "server_wf s" "\<forall>fd \<in> set (epfds s). 0 \<le> fd"
    using ok by (simp_all add: session_ok_def server_wf_def)
  obtain c where c': "getuser (db s) fd = Some c" using c by (auto simp: getuser_def)
  have nu: "argv = [] \<or> hd argv \<noteq> ''USERS''" using plain by (cases argv) (auto simp: plain_def argv_def)
  obtain d r where run: "call env fd argv (db s) = (d, r)" by fastforce
  have spec: "spec_call (listing_of env d) fd argv (irc_abs (db s)) = (irc_abs d, r)"
    by (rule call_refines [OF p(1,3,2) fair c' nu run])
  have fin: "\<not> bad_end r" by (rule plain_end [OF plain spec [unfolded argv_def]])
  have live: "refs_live d" "r \<noteq> Some Undefined" using call_live [OF p(1,2) fair c' nu run] by simp_all
  have wf: "db_wf d" by (rule call_wf [OF p(1) fair run live(2)])
  have nick: "nick_wf d" by (rule call_keeps_nicks [OF p(1,3) fair run]) (use fin live(2) in \<open>auto simp: bad_end_def\<close>)
  have l: "listing_ok (listing_of env d) (irc_abs d)" by (rule listing_of_ok [OF wf fair])
  have keys: "\<And>fd'. um_find (clients d) fd' = None \<longleftrightarrow> um_find (clients s) fd' = None" using call_keys [OF run] by simp
  have ok': "session_ok (with_db s d')" if "d' = d \<or> (\<exists>m. d' = sendcmd fd m [] d)" for d'
  proof -
    have "clients d' = clients d" "channels d' = channels d" "nick_mp d' = nick_mp d" "next_oid d' = next_oid d"
      using that by auto
    then have "db_wf d'" "refs_live d'" "nick_wf d'" "\<And>fd'. um_find (clients d') fd' = None \<longleftrightarrow> um_find (clients s) fd' = None"
      using wf live nick keys by (simp_all add: db_wf_def refs_live_def nick_wf_def)
    then show ?thesis using with_db_wf [OF p(4)] p(5) by (simp add: session_ok_def)
  qed
  have alive: "um_find (clients d) fd \<noteq> None" using keys c by metis
  show thesis
  proof (cases r)
    case None
    then have "handle_line env fd t s = (with_db s d, True)" using run by (simp add: handle_line_def argv_def)
    moreover have "spec_line fd argv (irc_abs (db s)) (irc_abs (db (with_db s d)))"
      using spec_line.succeeds spec l None by simp
    ultimately show thesis using that [of "with_db s d"] ok' [of d] alive unfolding argv_def with_db_fields(1) by blast
  next
    case (Some e)
    show thesis
    proof (cases e)
      case (Throw m)
      then have "handle_line env fd t s = (with_db s (sendcmd fd m [] d), True)" using run Some by (simp add: handle_line_def argv_def)
      moreover have "spec_line fd argv (irc_abs (db s)) (irc_abs (db (with_db s (sendcmd fd m [] d))))"
        using spec_line.refused [OF _ l] spec Some Throw by simp
      moreover have "um_find (clients (sendcmd fd m [] d)) fd \<noteq> None" using alive by simp
      ultimately show thesis using that [of "with_db s (sendcmd fd m [] d)"] ok' [of "sendcmd fd m [] d"]
        unfolding argv_def with_db_fields(1) by blast
    next
      case (Event ev)
      then show thesis using fin Some by (cases ev) (simp add: bad_end_def)
    next
      case Undefined
      then show thesis using live(2) Some by simp
    qed
  qed
qed

lemma lines_ok:
  assumes "session_ok s" and "fair_order env" and "um_find (clients s) fd \<noteq> None"
    and "\<forall>t \<in> set ts. plain (parse t (length t))"
  shows "\<exists>s'. handle_lines env fd ts s = (s', True) \<and> session_ok s' \<and>
    spec_lines fd (map (\<lambda>t. parse t (length t)) ts) (irc_abs (db s)) (irc_abs (db s'))"
  using assms(1,3,4)
proof (induction ts arbitrary: s)
  case Nil
  then show ?case by (simp add: spec_lines.no_line)
next
  case (Cons t ts)
  obtain s1 where s1: "handle_line env fd t s = (s1, True)" "session_ok s1" "um_find (clients s1) fd \<noteq> None"
    "spec_line fd (parse t (length t)) (irc_abs (db s)) (irc_abs (db s1))"
    using line_ok [OF Cons.prems(1) assms(2) Cons.prems(2), of t] Cons.prems(3) by auto
  then show ?case using Cons.IH [OF s1(2,3)] Cons.prems(3) by (auto intro: spec_lines.a_line)
qed

text \<open>QUIT on a line of its own.\<close>

lemma quit_ok:
  assumes ok: "session_ok s" and fair: "fair_order env" and c: "um_find (clients s) fd = Some c"
    and out: "\<forall>nm. fd \<notin> inside (irc_abs (db s)) nm" and q: "parse t (length t) = ''QUIT'' # args"
  shows "handle_lines env fd [t] s = (disconnect fd s, True)"
    and "spec_lines fd [''QUIT'' # args] (irc_abs (db s)) (spec_leave fd (irc_abs (db s)))"
proof -
  have p: "db_wf (db s)" "refs_live (db s)" "nick_wf (db s)" using ok by (simp_all add: session_ok_def server_wf_def)
  have c': "getuser (db s) fd = Some c" using c by (simp add: getuser_def)
  have run: "call env fd (''QUIT'' # args) (db s) = (db s, Some (Event DISCONNECT))"
    by (simp add: call_def cmds_def c' unreg_allow_def Controller_quit_def)
  have "with_db s (db s) = s" by (simp add: with_db_def db_def Database.extend_def Database.truncate_def)
  then show "handle_lines env fd [t] s = (disconnect fd s, True)" using run q by (simp add: handle_line_def)
  have "spec_call (listing_of env (db s)) fd (''QUIT'' # args) (irc_abs (db s)) = (irc_abs (db s), Some (Event DISCONNECT))"
    by (rule call_refines [OF p(1,3,2) fair c' _ run]) simp
  then have "spec_line fd (''QUIT'' # args) (irc_abs (db s)) (spec_leave fd (irc_abs (db s)))"
    unfolding spec_leave_def by (rule spec_line.quits) (rule listing_of_ok [OF p(1) fair])
  then show "spec_lines fd [''QUIT'' # args] (irc_abs (db s)) (spec_leave fd (irc_abs (db s)))"
    by (rule spec_lines.a_line) (rule spec_lines.no_line)
qed

section \<open>The loop\<close>

interpretation irc_session: simulating_loop irc_step session_guard session_ok
  "\<lambda>s. irc_abs (db s)" "\<lambda>a e b. spec_event a (snd e) b"
proof -
  have step: "\<exists>s'. irc_step s e = Some s' \<and> session_ok s' \<and> spec_event (irc_abs (db s)) (snd e) (irc_abs (db s'))"
    if ok: "session_ok s" and g: "session_guard s e" for s e
  proof -
    obtain env ev where e: "e = (env, ev)" by (cases e)
    have g': "fair_order env" "kernel_ok s ev" "orderly (irc_abs (db s)) ev" using g e by (simp_all add: session_guard_def)
    show ?thesis
    proof (cases ev)
      case (Accept fd i h)
      then have "fd = -1 \<or> (0 \<le> fd \<and> fd \<notin> set (epfds s))" using g'(2) by (simp add: kernel_ok_def)
      note arrive_ok [OF ok this, of i h]
      then show ?thesis using e Accept by (auto simp: irc_step_def server_step_def intro: spec_event.arrives)
    next
      case (Input fd bytes)
      have "fd \<in> set (epfds s)" using g'(2) Input by (simp add: kernel_ok_def)
      then obtain c where c: "um_find (clients s) fd = Some c" using ok by (auto simp: session_ok_def server_wf_def)
      have nul: "NUL \<in> set (line_buf bytes)" using g'(3) Input by (simp add: orderly_def)
      let ?ts = "strtok_all [CR, LF] (cstr (line_buf bytes))"
      have run: "irc_step s e = (case handle_client_input env fd bytes s of (s', True) \<Rightarrow> Some s' | (s', False) \<Rightarrow> None)"
        using e Input by (simp add: irc_step_def server_step_def)
      show ?thesis
      proof (cases "leaving bytes")
        case True
        then have out: "\<forall>nm. fd \<notin> inside (irc_abs (db s)) nm" using g'(3) Input by (simp add: orderly_def)
        note left = leave_ok [OF ok c out]
        show ?thesis
        proof (cases "bytes = []")
          case True
          then show ?thesis using run left e Input spec_event.leaves by (simp add: handle_client_input_def)
        next
          case False
          then obtain args where "lines_of bytes = [''QUIT'' # args]" using True by (auto simp: leaving_def)
          moreover then obtain t where "?ts = [t]" "parse t (length t) = ''QUIT'' # args" by (auto simp: lines_of_def)
          ultimately show ?thesis using quit_ok [OF ok g'(1) c out] run left e Input False nul
            by (auto simp: handle_client_input_def intro!: spec_event.writes)
        qed
      next
        case False
        then have "\<forall>t \<in> set ?ts. plain (parse t (length t))" using g'(3) Input by (simp add: orderly_def lines_of_def)
        then obtain s' where "handle_lines env fd ?ts s = (s', True)" "session_ok s'"
          "spec_lines fd (lines_of bytes) (irc_abs (db s)) (irc_abs (db s'))"
          using lines_ok [OF ok g'(1), of fd ?ts] c by (auto simp: lines_of_def)
        moreover have "bytes \<noteq> []" using False by (auto simp: leaving_def)
        ultimately show ?thesis using run nul e Input by (auto simp: handle_client_input_def intro: spec_event.writes)
      qed
    qed
  qed
  show "simulating_loop irc_step session_guard session_ok (\<lambda>s. irc_abs (db s)) (\<lambda>a e b. spec_event a (snd e) b)"
    by unfold_locales (use step in \<open>blast\<close>, use step in \<open>fastforce\<close>)
qed

lemma session_start: "session_ok init_server" "irc_abs (db init_server) = \<lparr>people = \<lambda>_. None, topics = \<lambda>_. None, inside = \<lambda>_. {}, outbox = \<lambda>_. []\<rparr>"
  using server_wf_init
  by (simp_all add: session_ok_def init_server_def refs_live_def nick_wf_def irc_abs_def member_def)

text \<open>
  C2. Sessions: from the start, through every sequence of orderly events, whatever the orders in which
  tables are traversed, the server is defined, and does event by event what the abstract server does:
  the same people, names, channels, topics and members, and the same text to every connection.
\<close>

theorem irc_session_refines:
  assumes "admitted irc_step session_guard init_server es"
  shows "\<exists>s. run_opt irc_step init_server es = Some s \<and> server_wf s \<and>
    rel_run (\<lambda>a e b. spec_event a (snd e) b)
      \<lparr>people = \<lambda>_. None, topics = \<lambda>_. None, inside = \<lambda>_. {}, outbox = \<lambda>_. []\<rparr> es (irc_abs (db s))"
  using irc_session.run_simulates [OF session_start(1) assms] unfolding session_start(2) session_ok_def by blast

end
