(* ===== verification/IrcRuns.thy ===== *)
theory IrcRuns
  imports IrcService IrcSession
begin

text \<open>
  Runs of the IRC server from its start, evaluated by the simplifier (\<open>irc_eval\<close>): the demo state
  with two registered clients in one channel, at which the theorems of the component are applied
  to concrete input, and the runs by which valid input reaches the faults of \<open>IrcService\<close>.
\<close>

section \<open>Evaluating a run\<close>

fun server_run :: "hash_order \<Rightarrow> event list \<Rightarrow> Server \<Rightarrow> Server option" where
  "server_run env [] s = Some s"
| "server_run env (e # es) s =
     (if kernel_ok s e then (case server_step env e s of (s', True) \<Rightarrow> server_run env es s' | (s', False) \<Rightarrow> None)
      else None)"

lemma server_run_reachable:
  "reachable s \<Longrightarrow> fair_order env \<Longrightarrow> server_run env es s = Some s' \<Longrightarrow> reachable s'"
  by (induction env es s rule: server_run.induct)
    (auto split: if_splits prod.splits bool.splits intro: reachable.step)

definition login :: "string \<Rightarrow> char list" where
  "login nick = ''NICK '' @ nick @ [LF] @ ''USER u h s :r'' @ [LF]"

definition connected :: "nat \<Rightarrow> int \<Rightarrow> string \<Rightarrow> (string, string) um \<Rightarrow> Client" where
  "connected r fd nick js = \<lparr>oid = r, status = 7, connfd = fd, info = ''i'', host = ''h'',
     nickname = nick, username = ''u'', hostname = ''h'', servername = ''s'', realname = ''r'', joined = js\<rparr>"

lemma handle_line_eq:
  "NUL \<notin> set t \<Longrightarrow> handle_line env fd t s =
     (case call env fd (split_line [] (rstrip t)) (db s) of
        (d, None) \<Rightarrow> (with_db s d, True)
      | (d, Some (Throw cmd)) \<Rightarrow> (with_db s (sendcmd fd cmd [] d), True)
      | (d, Some (Event DISCONNECT)) \<Rightarrow> (disconnect fd (with_db s d), True)
      | (d, Some Undefined) \<Rightarrow> (with_db s d, False))"
  by (simp add: handle_line_def parse_eq_split)

lemmas irc_eval = server_step_def handle_new_client_def client_add_def getuser_def with_db_def db_def
  Database.extend_def Database.truncate_def new_client_def init_server_def Let_def handle_client_input_eq
  strtok_all_def handle_line_eq call_def rstrip_def word_def Controller_nick_def
  changeNick_def Controller_user_def sendcmd_def sendcmds_def sendstr_def put_client_def um_emplace_def
  um_assign_def um_erase_def nickInUse_def unreg_allow_def finish_regist_def regist_def isalpha_def
  Controller_join_def getchannel_def new_channel_def valid_channel_name_def channel_add_def client_join_def
  Controller_names_def getusers_def usersstr_def member_fds_def insertion_order_def um_keys_def deref_def
  sendall_def put_channel_def MAX_LINE_def flags_bits kernel_ok_def
  NICK_def USER_def WELCOMED_def gettopic_def disconnect_def client_del_def


section \<open>Two clients in one channel\<close>

definition demo_events :: "event list" where
  "demo_events = [Accept 5 ''i'' ''h'', Input 5 (login ''al''), Accept 6 ''i'' ''h'', Input 6 (login ''bo''),
     Input 5 (''JOIN #c'' @ [LF]), Input 6 (''JOIN #c'' @ [LF])]"

definition chan :: "(int, nat) um \<Rightarrow> Channel" where
  "chan us = \<lparr>cname = ''#c'', topic = [], users = us\<rparr>"

definition demo :: Server where
  "demo = \<lparr>clients = [(5, connected 0 5 ''al'' [(''#c'', ''#c'')]), (6, connected 1 6 ''bo'' [(''#c'', ''#c'')])],
     nick_mp = [(''al'', 0), (''bo'', 1)], channels = [(''#c'', chan [(5, 0), (6, 1)])], next_oid = 2,
     sent = [(5, fmt_cmds WELCOME_CMDS ''al''), (6, fmt_cmds WELCOME_CMDS ''bo''),
       (5, fmt_cmds [(CStr ''JOIN'', [''#c''])] ''al''),
       (5, fmt_cmds [(CNum 331, [''#c'', ''No topic is set''])] ''#c''),
       (5, fmt_cmds [(CNum 353, [''#c'', ''al'']), (CNum 366, [''#c'', ''End of /NAMES list''])] ''al''),
       (5, fmt_cmds [(CStr ''JOIN'', [''#c''])] ''bo''), (6, fmt_cmds [(CStr ''JOIN'', [''#c''])] ''bo''),
       (6, fmt_cmds [(CNum 331, [''#c'', ''No topic is set''])] ''#c''),
       (6, fmt_cmds [(CNum 353, [''#c'', ''al bo'']), (CNum 366, [''#c'', ''End of /NAMES list''])] ''bo'')],
     epfds = [5, 6]\<rparr>"

lemma demo_run: "server_run insertion_order demo_events init_server = Some demo"
  by (simp add: irc_eval login_def demo_events_def demo_def chan_def connected_def)

lemma demo_reachable: "reachable demo"
  by (rule server_run_reachable [OF reachable.start fair_insertion_order demo_run])

lemma demo_wf: "server_wf demo"
  using reachable_wf demo_reachable .

lemma demo_data:
  "um_find (clients demo) fd = (if fd = 5 then Some (connected 0 5 ''al'' [(''#c'', ''#c'')])
     else if fd = 6 then Some (connected 1 6 ''bo'' [(''#c'', ''#c'')]) else None)"
  "um_find (channels demo) nm = (if nm = ''#c'' then Some (chan [(5, 0), (6, 1)]) else None)"
  "um_find (nick_mp demo) n = (if n = ''al'' then Some 0 else if n = ''bo'' then Some 1 else None)"
  by (simp_all add: demo_def)

lemma demo_live: "refs_live demo"
  by (simp add: refs_live_def demo_data chan_def connected_def)

lemma demo_nick: "nick_wf demo"
  unfolding nick_wf_def demo_data by (auto simp: connected_def split: if_splits) (rule exI [of _ 5], simp)

lemma demo_user: "getuser (db demo) 5 = Some (connected 0 5 ''al'' [(''#c'', ''#c'')])"
  "getuser (db demo) 6 = Some (connected 1 6 ''bo'' [(''#c'', ''#c'')])"
  by (simp_all add: getuser_def demo_data)

lemma connected_flags: "hasRegist (connected r fd n js)" "hasNick (connected r fd n js)"
  by (simp_all add: flags_bits connected_def)


text \<open>A third client that has only connected.\<close>

definition demo7 :: Server where
  "demo7 = handle_new_client 7 ''i'' ''h'' demo"

lemma demo7_wf: "server_wf demo7"
  unfolding demo7_def by (rule handle_new_client_wf [OF demo_wf]) (simp add: demo_def)

lemma demo7_user: "getuser (db demo7) 7 = Some (new_client 2 7 ''i'' ''h'')"
  by (simp add: demo7_def handle_new_client_def client_add_def getuser_def demo_data um_simps Let_def)
    (simp add: demo_def)

lemmas demo_facts = demo_wf [unfolded server_wf_def, THEN conjunct1, folded wf_db(1)] demo_live demo_nick
  fair_insertion_order demo_user connected_flags

lemma demo_db: "db_wf (db demo)" "refs_live (db demo)" "nick_wf (db demo)" "db_wf (db demo7)"
  using demo_wf demo7_wf demo_live demo_nick by (simp_all add: server_wf_def)

lemma demo_in: "client_in (connected r fd n [(''#c'', ''#c'')]) ''#c''"
  by (simp add: client_in_def connected_def)

section \<open>The theorems at the demo state\<close>

theorem reachable_server_wf_witness: "reachable demo \<and> server_wf demo"
  using demo_reachable reachable_server_wf [of demo] by simp

theorem error_keeps_state_witness:
  "fst (call insertion_order 5 [''PART'', ''#x''] (db demo)) = db demo"
proof (rule error_keeps_state [OF demo_db(1) fair_insertion_order])
  show "call insertion_order 5 [''PART'', ''#x''] (db demo) = (fst (call insertion_order 5 [''PART'', ''#x''] (db demo)),
     Some (Throw (CNum (err NOSUCHCHANNEL), [''#x'', ''No such channel''])))"
    by (simp add: call_registered [OF demo_user(1) connected_flags(1)] Controller_part_def demo_data)
qed simp_all

theorem unregistered_isolated_witness:
  "touches_only 7 [] {''cy''} (db demo7) (fst (call insertion_order 7 [''NICK'', ''cy''] (db demo7)))
     \<and> sends_only 7 (db demo7) (fst (call insertion_order 7 [''NICK'', ''cy''] (db demo7)))
     \<and> others_named 7 (db demo7) (fst (call insertion_order 7 [''NICK'', ''cy''] (db demo7)))"
proof -
  have "session_ok demo" using demo_wf demo_live demo_nick by (simp add: session_ok_def demo_def)
  then have "session_ok demo7" unfolding demo7_def by (rule arrive_ok) (simp add: demo_def)
  then have "nick_wf (db demo7)" by (simp add: session_ok_def)
  then show ?thesis
    using unregistered_isolated [OF demo_db(4) fair_insertion_order demo7_user, of "[''NICK'', ''cy'']"
        "fst (call insertion_order 7 [''NICK'', ''cy''] (db demo7))" "snd (call insertion_order 7 [''NICK'', ''cy''] (db demo7))"]
    by (simp add: new_client_def hasRegist_def WELCOMED_def)
qed

theorem call_nick_wf_witness:
  "nick_wf (fst (call insertion_order 5 [''NICK'', ''cy''] (db demo)))"
proof -
  have "snd (call insertion_order 5 [''NICK'', ''cy''] (db demo)) = None"
    by (simp add: call_registered [OF demo_user(1) connected_flags(1)] Controller_nick_def nickInUse_def
      demo_data changeNick_def isalpha_def Let_def)
  then show ?thesis
    using call_nick_wf [OF demo_db(1,3) fair_insertion_order, of 5 "[''NICK'', ''cy'']"]
    by (cases "call insertion_order 5 [''NICK'', ''cy''] (db demo)") simp
qed

theorem refused_nick_corrupts_witness:
  "\<not> nick_wf (fst (call insertion_order 5 [''NICK'', ''1''] (db demo)))"
  using refused_nick_corrupts [OF demo_db(1,3) demo_user(1), of "''1''" insertion_order "[]"]
  by (cases "call insertion_order 5 [''NICK'', ''1''] (db demo)") (simp add: valid_nick_def isalpha_def)

theorem call_defined_witness:
  "refs_live (fst (call insertion_order 5 [''PART'', ''#c''] (db demo)))"
  using call_defined [OF demo_db(1,2) fair_insertion_order demo_user(1), of "[''PART'', ''#c'']"]
  by (cases "call insertion_order 5 [''PART'', ''#c''] (db demo)") simp

theorem irc_refines_witness:
  "\<exists>l. listing_ok l (irc_abs (fst (call insertion_order 5 [''TOPIC'', ''#c'', ''news''] (db demo)))) \<and>
     spec_call l 5 [''TOPIC'', ''#c'', ''news''] (irc_abs (db demo)) =
       (irc_abs (fst (call insertion_order 5 [''TOPIC'', ''#c'', ''news''] (db demo))),
        snd (call insertion_order 5 [''TOPIC'', ''#c'', ''news''] (db demo)))"
  by (rule irc_refines [OF demo_db(1,3,2) fair_insertion_order demo_user(1)]) simp_all

theorem join_functional_witness:
  "member (channels (fst (call insertion_order 5 [''JOIN'', ''#d''] (db demo)))) ''#d'' 5 0"
  using join_functional [OF demo_db(1,2) fair_insertion_order demo_user(1) connected_flags(1), of "''#d''" "[]"]
  by (cases "call insertion_order 5 [''JOIN'', ''#d''] (db demo)")
    (simp add: valid_channel_name_def connected_def)

theorem part_functional_witness:
  "\<not> member (channels (fst (call insertion_order 5 [''PART'', ''#c''] (db demo)))) ''#c'' 5 0"
  using part_functional [OF demo_db(1,2) fair_insertion_order demo_user(1) connected_flags(1) demo_in, of "[]"]
  by (cases "call insertion_order 5 [''PART'', ''#c''] (db demo)") simp

theorem privmsg_delivery_witness:
  "\<exists>fds. set fds = {6} \<and> distinct fds \<and> fst (call insertion_order 5 [''PRIVMSG'', ''#c'', ''hi''] (db demo))
     = (db demo)\<lparr>sent := sent demo @ map (\<lambda>d. (d, fmt_cmds [(CStr ''PRIVMSG'', [''#c'', ''hi''])] ''al'')) fds\<rparr>"
proof -
  have "{d. d \<noteq> 5 \<and> (\<exists>q. member (channels (db demo)) ''#c'' d q)} = {6}"
    by (auto simp: member_def demo_data chan_def split: if_splits)
  moreover have "nickname (connected 0 5 ''al'' [(''#c'', ''#c'')]) = ''al''"
    by (simp add: connected_def)
  ultimately show ?thesis
    using privmsg_delivery [OF demo_db(1) fair_insertion_order demo_user(1) connected_flags(1), of "''#c''" _ "''hi''" "[]"]
    by (auto simp: demo_data)
qed

theorem topic_set_get_witness:
  "\<exists>s1 s2. call insertion_order 5 [''TOPIC'', ''#c'', ''t''] (db demo) = (s1, None)
     \<and> call insertion_order 6 [''TOPIC'', ''#c''] s1 = (s2, None)
     \<and> last (sent s2) = (6, fmt_cmds [(CNum (rpl IrcMsg.TOPIC), [''#c'', ''t''])] ''bo'')"
proof -
  obtain s1 r1 where 1: "call insertion_order 5 [''TOPIC'', ''#c'', ''t''] (db demo) = (s1, r1)" by force
  obtain s2 r2 where 2: "call insertion_order 6 [''TOPIC'', ''#c''] s1 = (s2, r2)" by force
  have "nickname (connected 1 6 ''bo'' [(''#c'', ''#c'')]) = ''bo''"
    by (simp add: connected_def)
  then show ?thesis
    using topic_set_get [OF demo_db(1) demo_user(1) connected_flags(1) demo_in 1 _ demo_user(2) connected_flags(1) demo_in 2]
      1 2 by simp
qed

theorem welcome_once_witness:
  "\<exists>c'. getuser (fst (call insertion_order 7 [''NICK'', ''cy''] (db demo7))) 7 = Some c' \<and> (hasRegist c' \<longleftrightarrow> canRegist c')"
proof -
  have "snd (call insertion_order 7 [''NICK'', ''cy''] (db demo7)) = None"
    using demo7_user
    by (simp add: call_def unreg_allow_def Controller_nick_def nickInUse_def demo7_def handle_new_client_def
      client_add_def demo_data changeNick_def isalpha_def Let_def new_client_def flags_bits finish_regist_def
      regist_def getuser_def um_simps split: prod.split)
  then show ?thesis
    using welcome_once [OF demo_db(4) demo7_user, of insertion_order "''NICK''" "[''cy'']"]
    by (cases "call insertion_order 7 [''NICK'', ''cy''] (db demo7)")
      (auto simp: new_client_def hasRegist_def WELCOMED_def)
qed

theorem disconnect_refs_live_witness: "\<not> refs_live (disconnect 5 demo)"
  using disconnect_refs_live [OF demo_wf demo_live, of 5] demo_in by (simp add: demo_data) blast

theorem disconnect_dangles_witness:
  "reachable (disconnect 5 demo) \<and> \<not> snd (handle_line insertion_order 6 ''NAMES #c'' (disconnect 5 demo))"
proof -
  have "parse ''NAMES #c'' (length ''NAMES #c'') = [''NAMES'', ''#c'']"
    by (subst parse_eq_split) (simp_all add: rstrip_def word_def)
  then show ?thesis
    using disconnect_dangles [OF demo_reachable fair_insertion_order demo_user(1) [unfolded getuser_def db_fields] demo_in _ _
        demo_user(2) [unfolded getuser_def db_fields] connected_flags(1), of "''NAMES #c''"]
    by (simp add: demo_def)
qed

theorem users_overflows_witness:
  "call insertion_order 5 [''USERS''] (db demo) = (db demo, Some Undefined)"
  using users_overflows [OF demo_db(1) demo_user(1) connected_flags(1)] by blast

theorem command_after_quit_witness:
  "snd (handle_lines insertion_order 5 [''QUIT'', ''LIST''] demo) = False"
  by (rule command_after_quit [OF demo_wf, of 5 _ "''LIST''" "''LIST''" "[]" insertion_order 0 "Controller_list insertion_order" "[]"])
    (simp_all add: demo_data cmds_def parse_eq_split [of "''LIST''", simplified] rstrip_def word_def)

section \<open>Faults that clients can reach\<close>

text \<open>The crash of \<open>disconnect_dangles\<close> from the start of the server, with its bytes.\<close>

theorem dangling_member_reachable:
  "\<exists>s. reachable s \<and> kernel_ok s (Input 6 (''NAMES #c'' @ [LF]))
     \<and> \<not> snd (server_step insertion_order (Input 6 (''NAMES #c'' @ [LF])) s)"
proof (intro exI conjI)
  have "server_run insertion_order [Input 5 []] demo = Some (disconnect 5 demo)"
    by (simp add: server_step_def handle_client_input_def kernel_ok_def demo_def MAX_LINE_def)
  then show "reachable (disconnect 5 demo)"
    by (rule server_run_reachable [OF demo_reachable fair_insertion_order])
  show "kernel_ok (disconnect 5 demo) (Input 6 (''NAMES #c'' @ [LF]))"
    by (simp add: kernel_ok_def disconnect_def client_del_def getuser_def demo_data MAX_LINE_def) (simp add: demo_def)
  show "\<not> snd (server_step insertion_order (Input 6 (''NAMES #c'' @ [LF])) (disconnect 5 demo))"
    by (simp add: irc_eval demo_def chan_def connected_def)
qed

text \<open>
  Two registered clients with the same nickname can be reached: after a refused NICK the first
  client's name is free, and another client takes it.
\<close>

theorem duplicate_nick_reachable:
  "\<exists>s c1 c2. reachable s \<and> um_find (clients s) 5 = Some c1 \<and> um_find (clients s) 6 = Some c2
     \<and> hasRegist c1 \<and> hasRegist c2 \<and> nickname c1 = ''al'' \<and> nickname c2 = ''al''"
proof -
  obtain s where s: "server_run insertion_order [Accept 5 ''i'' ''h'', Input 5 (login ''al''),
       Input 5 (''NICK 1'' @ [LF]), Accept 6 ''i'' ''h'', Input 6 (login ''al'')] init_server = Some s"
    and c: "um_find (clients s) 5 = Some (connected 0 5 ''al'' [])" "um_find (clients s) 6 = Some (connected 1 6 ''al'' [])"
    by (simp add: irc_eval login_def connected_def)
  have "reachable s" by (rule server_run_reachable [OF reachable.start fair_insertion_order s])
  then show ?thesis using c connected_flags by (auto simp: connected_def)
qed

section \<open>A session\<close>

text \<open>A run whose input is plain is a run of the session's loop.\<close>

definition plain_event :: "event \<Rightarrow> bool" where
  "plain_event e = (case e of Accept fd i h \<Rightarrow> True
     | Input fd bytes \<Rightarrow> length bytes < MAX_LINE \<and> \<not> leaving bytes \<and> (\<forall>argv \<in> set (lines_of bytes). plain argv))"

lemma server_run_session:
  "fair_order env \<Longrightarrow> server_run env es s = Some s' \<Longrightarrow> \<forall>e \<in> set es. plain_event e \<Longrightarrow>
    admitted irc_step session_guard s (map (Pair env) es)"
proof (induction env es s rule: server_run.induct)
  case (2 env e es s)
  have "kernel_ok s e" using 2(3) by (simp split: if_splits)
  moreover have "orderly (irc_abs (db s)) e" using 2(4)
    by (auto simp: plain_event_def orderly_def line_buf_def split: event.splits)
  ultimately have "session_guard s (env, e)" using 2(2) by (simp add: session_guard_def)
  then show ?case using 2 by (auto simp: irc_step_def split: if_splits prod.splits bool.splits)
qed simp

lemma lines_of_eval: "lines_of bytes = map (\<lambda>t. split_line [] (rstrip t)) (strtok_all [CR, LF] (cstr bytes))"
proof -
  have "NUL \<notin> set t" if "t \<in> set (strtok_all [CR, LF] (cstr bytes))" for t
    using strtok_all_token [OF that] cstr_no_nul by blast
  then show ?thesis by (simp add: lines_of_def line_buf_def cstr_append_nuls parse_eq_split)
qed

lemma demo_plain: "\<forall>e \<in> set demo_events. plain_event e"
  by (simp add: demo_events_def plain_event_def leaving_def lines_of_eval login_def strtok_all_def
      rstrip_def word_def plain_def valid_nick_def isalpha_def MAX_LINE_def)

theorem irc_session_refines_witness:
  "\<exists>s. run_opt irc_step init_server (map (Pair insertion_order) demo_events) = Some s \<and> server_wf s \<and>
    rel_run (\<lambda>a e b. spec_event a (snd e) b)
      \<lparr>people = \<lambda>_. None, topics = \<lambda>_. None, inside = \<lambda>_. {}, outbox = \<lambda>_. []\<rparr> (map (Pair insertion_order) demo_events)
      (irc_abs (db s))"
  by (rule irc_session_refines) (rule server_run_session [OF fair_insertion_order demo_run demo_plain])

end
