(* ===== verification/DnsName.thy ===== *)
theory DnsName
  imports Prelude
begin

text \<open>
  Domain names of the DNS server (\<^verbatim>\<open>Homework/2/dnsd/src/dn.cpp\<close>). A \<^verbatim>\<open>DN\<close> is the vector of labels
  from the top-level label down. The bytes of a message and the characters of a text are both
  \<^typ>\<open>char\<close>, as in the source.

  \<^verbatim>\<open>std::ranges::views::split\<close>. Whether a text that ends in the delimiter yields a last, empty piece
  differs between releases of the C++20 library: the first ones drop it, those with the later
  resolution of the standard keep it. It is the parameter \<open>tr\<close> of \<open>s2dn\<close>; \<open>False\<close> is the behaviour
  under which the configuration files of the repository work.
\<close>

type_synonym DN = "string list"

abbreviation DOT :: char where "DOT \<equiv> CHR 0x2E"

section \<open>Prefixes\<close>

text \<open>\<^verbatim>\<open>a % b\<close>: the loop compares the first \<^verbatim>\<open>b.size()\<close> labels.\<close>

fun dn_loop :: "DN \<Rightarrow> DN \<Rightarrow> nat \<Rightarrow> nat \<Rightarrow> bool" where
  "dn_loop a b i 0 = True"
| "dn_loop a b i (Suc k) = (if a ! i \<noteq> b ! i then False else dn_loop a b (i + 1) k)"

definition dn_under :: "DN \<Rightarrow> DN \<Rightarrow> bool" where
  "dn_under a b = (if length a < length b then False else dn_loop a b 0 (length b))"

text \<open>\<^verbatim>\<open>a - b\<close>: reverse, drop one label for each of \<^verbatim>\<open>b\<close>, reverse.\<close>

definition dn_minus :: "DN \<Rightarrow> DN \<Rightarrow> DN" where
  "dn_minus a b = (if dn_under a b then rev (foldl (\<lambda>r x. butlast r) (rev a) b) else a)"

lemma dn_loop_eq:
  "i + k \<le> length a \<Longrightarrow> i + k \<le> length b \<Longrightarrow>
    dn_loop a b i k \<longleftrightarrow> take k (drop i a) = take k (drop i b)"
proof (induction k arbitrary: i)
  case (Suc k)
  then have "drop i a = a ! i # drop (Suc i) a" and "drop i b = b ! i # drop (Suc i) b"
    by (simp_all add: Cons_nth_drop_Suc)
  then show ?case using Suc by simp
qed simp

lemma dn_under_take: "dn_under a b \<longleftrightarrow> take (length b) a = b"
proof (cases "length a < length b")
  case True
  have "take (length b) a \<noteq> b"
  proof
    assume "take (length b) a = b"
    then have "length (take (length b) a) = length b" by simp
    then show False using True by simp
  qed
  then show ?thesis using True by (simp add: dn_under_def)
next
  case False
  then show ?thesis using dn_loop_eq [of 0 "length b" a b] by (simp add: dn_under_def)
qed

lemma dn_under_iff: "dn_under a b \<longleftrightarrow> (\<exists>r. a = b @ r)"
  unfolding dn_under_take by (metis append_eq_conv_conj append_take_drop_id)

lemma foldl_butlast: "foldl (\<lambda>r x. butlast r) r b = take (length r - length b) r"
proof (induction b arbitrary: r)
  case (Cons x b)
  have "foldl (\<lambda>r x. butlast r) (butlast r) b = take (length (butlast r) - length b) (butlast r)"
    by (rule Cons.IH)
  then show ?case by (simp add: butlast_conv_take min_def)
qed simp

lemma dn_minus_drop: "dn_under a b \<Longrightarrow> dn_minus a b = drop (length b) a"
  by (auto simp: dn_minus_def foldl_butlast take_rev dn_under_iff)

lemma dn_minus_append [simp]: "dn_minus (b @ r) b = r"
proof -
  have "dn_under (b @ r) b" by (auto simp: dn_under_iff)
  then show ?thesis by (simp add: dn_minus_drop)
qed

text \<open>
  \<^verbatim>\<open>a % b\<close> holds exactly when the labels of \<^verbatim>\<open>b\<close> begin those of \<^verbatim>\<open>a\<close> (\<^verbatim>\<open>a\<close> lies in the zone \<^verbatim>\<open>b\<close>), and
  then \<^verbatim>\<open>a - b\<close> is the rest: appending it to \<^verbatim>\<open>b\<close> gives \<^verbatim>\<open>a\<close> back. Otherwise \<^verbatim>\<open>a - b\<close> is \<^verbatim>\<open>a\<close>.
\<close>

theorem dn_minus_correct:
  "(dn_under a b \<longleftrightarrow> (\<exists>r. a = b @ r)) \<and> (if dn_under a b then b @ dn_minus a b = a else dn_minus a b = a)"
proof -
  have "b @ dn_minus a b = a" if u: "dn_under a b"
  proof -
    obtain r where "a = b @ r" using u by (auto simp: dn_under_iff)
    then show ?thesis by simp
  qed
  moreover have "dn_minus a b = a" if "\<not> dn_under a b" using that by (simp add: dn_minus_def)
  ultimately show ?thesis by (simp add: dn_under_iff)
qed

section \<open>Text\<close>

text \<open>The pieces between the dots; \<open>w\<close> is the piece being read.\<close>

fun split_dots :: "bool \<Rightarrow> string \<Rightarrow> string \<Rightarrow> string list" where
  "split_dots tr w [] = [w]"
| "split_dots tr w (c # cs) =
     (if c = DOT then (if cs = [] \<and> \<not> tr then [w] else w # split_dots tr [] cs)
      else split_dots tr (w @ [c]) cs)"

definition s2dn :: "bool \<Rightarrow> string \<Rightarrow> DN" where
  "s2dn tr name = (if name = ''@'' then [] else rev (if name = [] then [] else split_dots tr [] name))"

definition dn2s :: "DN \<Rightarrow> string" where
  "dn2s dn = foldl (\<lambda>s label. s @ label @ [DOT]) [] (rev dn)"

lemma foldl_append: "foldl (\<lambda>s x. s @ f x) s xs = s @ concat (map f xs)"
  by (induction xs arbitrary: s) simp_all

lemma dn2s_concat: "dn2s dn = concat (map (\<lambda>l. l @ [DOT]) (rev dn))"
  by (simp add: dn2s_def foldl_append [of "\<lambda>l. l @ [DOT]", simplified])

lemma split_dots_label:
  "DOT \<notin> set l \<Longrightarrow> split_dots tr w (l @ r) = split_dots tr (w @ l) r"
  by (induction l arbitrary: w) auto

lemma split_dots_text:
  "\<forall>l \<in> set ls. DOT \<notin> set l \<Longrightarrow> ls \<noteq> [] \<Longrightarrow>
    split_dots tr [] (concat (map (\<lambda>l. l @ [DOT]) ls)) = ls @ (if tr then [[]] else [])"
proof (induction ls)
  case (Cons l ls)
  show ?case
  proof (cases "ls = []")
    case True
    then show ?thesis using Cons.prems by (simp add: split_dots_label)
  next
    case False
    then have "concat (map (\<lambda>l. l @ [DOT]) ls) \<noteq> []" by (cases ls) auto
    then show ?thesis using Cons False by (simp add: split_dots_label)
  qed
qed simp

lemma dn2s_not_at: "dn2s dn \<noteq> ''@''"
proof
  assume a: "dn2s dn = ''@''"
  then have "dn \<noteq> []" by (auto simp: dn2s_def)
  then have "last (dn2s dn) = DOT" by (cases dn) (simp_all add: dn2s_concat)
  then show False using a by simp
qed

text \<open>
  Text and names: a name whose labels hold no dot is printed with a dot after each label, and
  reading that text back gives the name, provided the library's \<^verbatim>\<open>split\<close> drops a last empty piece.
  A library that keeps it puts an empty label in front, for every name but the root.
\<close>

theorem s2dn_dn2s:
  assumes "\<forall>l \<in> set dn. DOT \<notin> set l"
  shows "s2dn tr (dn2s dn) = (if tr \<and> dn \<noteq> [] then [] # dn else dn)"
proof (cases "dn = []")
  case True
  then show ?thesis by (simp add: s2dn_def dn2s_def)
next
  case False
  then have "dn2s dn \<noteq> []" by (auto simp: dn2s_concat)
  then show ?thesis
    using split_dots_text [of "rev dn" tr] assms False dn2s_not_at
    by (cases tr) (simp_all add: s2dn_def, simp_all add: dn2s_concat)
qed

theorem s2dn_dn2s_witness:
  "s2dn False ''www.example1.org.'' = [''org'', ''example1'', ''www'']"
  using s2dn_dn2s [of "[''org'', ''example1'', ''www'']" False] by (simp add: dn2s_def)

section \<open>Wire format\<close>

text \<open>The length byte is \<^verbatim>\<open>(char)(uint8_t)label.size()\<close>.\<close>

definition label_byte :: "string \<Rightarrow> char" where
  "label_byte label = char_of (length label mod 256)"

definition dn2data :: "DN \<Rightarrow> string" where
  "dn2data dn = foldl (\<lambda>d label. d @ label_byte label # label) [] (rev dn) @ [NUL]"

text \<open>The loop of \<^verbatim>\<open>data2dn\<close> on the rest of the buffer; \<open>None\<close> is a read past its end.\<close>

function data2dn_loop :: "string \<Rightarrow> DN \<Rightarrow> (DN \<times> string) option" where
  "data2dn_loop [] dn = None"
| "data2dn_loop (c # cs) dn =
     (if c = NUL then Some (rev dn, cs)
      else let sz = of_char c :: nat
           in if length cs < sz then None else data2dn_loop (drop sz cs) (dn @ [take sz cs]))"
  by pat_completeness auto
termination by (relation "measure (\<lambda>(d, dn). length d)") auto

definition data2dn :: "string \<Rightarrow> (DN \<times> string) option" where
  "data2dn d = data2dn_loop d []"

text \<open>The names that the wire format can hold.\<close>

definition dn_ok :: "DN \<Rightarrow> bool" where
  "dn_ok dn = list_all (\<lambda>l. 0 < length l \<and> length l < 256) dn"

lemma dn2data_concat: "dn2data dn = concat (map (\<lambda>l. label_byte l # l) (rev dn)) @ [NUL]"
  by (simp add: dn2data_def foldl_append [of "\<lambda>l. label_byte l # l", simplified])

lemma label_byte_ok:
  assumes "0 < length l" and "length l < 256"
  shows "label_byte l \<noteq> NUL" and "of_char (label_byte l) = length l"
proof -
  show "of_char (label_byte l) = length l" using assms by (simp add: label_byte_def)
  then show "label_byte l \<noteq> NUL" using assms(1) by auto
qed

lemma data2dn_loop_labels:
  "list_all (\<lambda>l. 0 < length l \<and> length l < 256) ls \<Longrightarrow>
    data2dn_loop (concat (map (\<lambda>l. label_byte l # l) ls) @ NUL # rest) dn = Some (rev (dn @ ls), rest)"
  by (induction ls arbitrary: dn) (simp_all add: label_byte_ok)

interpretation dn_wire: codec dn2data data2dn dn_ok
proof
  fix x rest
  assume "dn_ok x"
  then show "data2dn (dn2data x @ rest) = Some (x, rest)"
    using data2dn_loop_labels [of "rev x" rest "[]"]
    by (simp add: dn_ok_def data2dn_def dn2data_concat list_all_iff)
qed

text \<open>
  C17. The wire format of names: for names whose labels have 1 to 255 bytes, whatever bytes these
  are, \<^verbatim>\<open>data2dn\<close> reads back what \<^verbatim>\<open>dn2data\<close> wrote and stops exactly behind it; so a sequence of
  names is read back too, and no encoding is a prefix of another.
\<close>

theorem data2dn_dn2data:
  assumes "list_all dn_ok dns"
  shows "dn_wire.dec_many (length dns) (concat (map dn2data dns) @ rest) = Some (dns, rest)
    \<and> (\<forall>x \<in> set dns. \<forall>y \<in> set dns. \<forall>r r'. dn2data x @ r = dn2data y @ r' \<longrightarrow> x = y \<and> r = r')"
  using assms dn_wire.dec_many_enc dn_wire.enc_prefix_free by (auto simp: list_all_iff) blast+

theorem data2dn_dn2data_witness:
  "data2dn (dn2data [''org'', ''a.b''] @ ''rest'') = Some ([''org'', ''a.b''], ''rest'')"
  using data2dn_dn2data [of "[[''org'', ''a.b'']]" "''rest''"]
  by (simp add: dn_ok_def split: option.splits prod.splits)

end
