(* ===== verification/DnsRecord.thy ===== *)
theory DnsRecord
  imports DnsName "HOL-Library.Monad_Syntax"
begin

text \<open>
  Questions and resource records of the DNS server (\<^verbatim>\<open>src/record.cpp\<close>, \<^verbatim>\<open>include/enum.hpp\<close>): types and
  classes as the 16-bit values they are (an unknown name becomes 0xFFFF, an unknown number stays),
  the record data of every type, the dump to wire format, and the synthetic A records of
  \<^verbatim>\<open>niplike\<close>.

  \<^verbatim>\<open>inet_pton\<close> of the C library is a field of the \<open>platform\<close>; what is relied on is the length of its
  results (\<open>pton_ok\<close>). A C++ exception is a value of \<open>dns_exn\<close>; \<open>UNDEFINED\<close> stands for reading a
  variable that nothing was stored to, or past the end of a buffer.
\<close>

datatype dns_exn = FORMAT_ERROR | SERVER_FAILURE | NAME_ERROR | NOT_IMPLEMENTED | FORWARD | UNDEFINED

record platform =
  trailing :: bool
  pton4 :: "string \<Rightarrow> string option"
  pton6 :: "string \<Rightarrow> string option"

definition pton_ok :: "platform \<Rightarrow> bool" where
  "pton_ok P \<longleftrightarrow> (\<forall>s b. pton4 P s = Some b \<longrightarrow> length b = 4) \<and> (\<forall>s b. pton6 P s = Some b \<longrightarrow> length b = 16)"

section \<open>Types and classes\<close>

type_synonym RRTYPE = "16 word"
type_synonym CLAS = "16 word"

definition TYPE_A :: RRTYPE where "TYPE_A = 1"
definition TYPE_AAAA :: RRTYPE where "TYPE_AAAA = 28"
definition TYPE_NS :: RRTYPE where "TYPE_NS = 2"
definition TYPE_CNAME :: RRTYPE where "TYPE_CNAME = 5"
definition TYPE_SOA :: RRTYPE where "TYPE_SOA = 6"
definition TYPE_MX :: RRTYPE where "TYPE_MX = 15"
definition TYPE_TXT :: RRTYPE where "TYPE_TXT = 16"
definition CLAS_IN :: CLAS where "CLAS_IN = 1"

lemmas type_defs = TYPE_A_def TYPE_AAAA_def TYPE_NS_def TYPE_CNAME_def TYPE_SOA_def TYPE_MX_def
  TYPE_TXT_def CLAS_IN_def

definition type_entries :: "(string \<times> RRTYPE) list" where
  "type_entries = [(''A'', TYPE_A), (''AAAA'', TYPE_AAAA), (''NS'', TYPE_NS), (''CNAME'', TYPE_CNAME),
     (''SOA'', TYPE_SOA), (''MX'', TYPE_MX), (''TXT'', TYPE_TXT)]"

definition clas_entries :: "(string \<times> CLAS) list" where
  "clas_entries = [(''IN'', CLAS_IN), (''CS'', 2), (''CH'', 3), (''HS'', 4)]"

text \<open>\<^verbatim>\<open>v2e\<close> on a name: the enumerator, or \<^verbatim>\<open>E(-1)\<close>.\<close>

definition v2e_name :: "(string \<times> 16 word) list \<Rightarrow> string \<Rightarrow> 16 word" where
  "v2e_name entries s = (case map_of entries s of Some e \<Rightarrow> e | None \<Rightarrow> - 1)"

definition type_known :: "RRTYPE \<Rightarrow> bool" where
  "type_known t \<longleftrightarrow> t \<in> set (map snd type_entries)"

section \<open>Numbers in network order\<close>

definition be16 :: "16 word \<Rightarrow> string" where
  "be16 t = [char_of (unat t div 256), char_of (unat t mod 256)]"

definition be32 :: "32 word \<Rightarrow> string" where
  "be32 t = [char_of (unat t div 16777216), char_of (unat t div 65536 mod 256),
     char_of (unat t div 256 mod 256), char_of (unat t mod 256)]"

text \<open>\<^verbatim>\<open>data2uint16\<close>; \<open>None\<close> is a read past the end.\<close>

fun data2uint16 :: "string \<Rightarrow> (16 word \<times> string) option" where
  "data2uint16 (a # b # r) = Some (word_of_nat (of_char a * 256 + of_char b), r)"
| "data2uint16 _ = None"

interpretation u16: codec be16 data2uint16 "\<lambda>t. True"
proof
  fix x :: "16 word" and rest
  have "unat x < 2 ^ 16" using unsigned_less [of x] by simp
  then have "unat x div 256 < 256" by (simp add: div_less_iff_less_mult)
  then have "of_char (char_of (unat x div 256) :: char) = unat x div 256"
    and "of_char (char_of (unat x mod 256) :: char) = unat x mod 256"
    by simp_all
  then show "data2uint16 (be16 x @ rest) = Some (x, rest)"
    by (simp add: be16_def div_mult_mod_eq)
qed

section \<open>Reading fields of a text\<close>

definition isspace :: "char \<Rightarrow> bool" where
  "isspace c \<longleftrightarrow> c = CHR '' '' \<or> (9 \<le> (of_char c :: nat) \<and> (of_char c :: nat) \<le> 13)"

definition isdigit :: "char \<Rightarrow> bool" where
  "isdigit c \<longleftrightarrow> 48 \<le> (of_char c :: nat) \<and> (of_char c :: nat) \<le> 57"

definition dec_value :: "string \<Rightarrow> nat" where
  "dec_value ds = foldl (\<lambda>n c. 10 * n + (of_char c - 48)) 0 ds"

text \<open>\<^verbatim>\<open>ss >> buf\<close> for \<^verbatim>\<open>char buf[256]\<close>.\<close>

definition extract_word :: "string \<Rightarrow> (string \<times> string) option" where
  "extract_word s =
     (let t = dropWhile isspace s; w = take 255 (takeWhile (\<lambda>c. \<not> isspace c) t)
      in if w = [] then None else Some (w, drop (length w) t))"

text \<open>\<^verbatim>\<open>ss >> n\<close> for an unsigned number below the bound; a sign or a larger number, which the
  library would store as a clamped or negated value, is outside the model.\<close>

definition extract_num :: "nat \<Rightarrow> string \<Rightarrow> (nat \<times> string) option" where
  "extract_num bound s =
     (let t = dropWhile isspace s; ds = takeWhile isdigit t
      in if ds = [] \<or> bound \<le> dec_value ds then None else Some (dec_value ds, drop (length ds) t))"

section \<open>Record data\<close>

definition dumpSOA :: "platform \<Rightarrow> string \<Rightarrow> string option" where
  "dumpSOA P data = do {
     (mname, ss) \<leftarrow> extract_word data;
     (rname, ss) \<leftarrow> extract_word ss;
     (serial, ss) \<leftarrow> extract_num (2 ^ 32) ss;
     (refresh, ss) \<leftarrow> extract_num (2 ^ 32) ss;
     (retry, ss) \<leftarrow> extract_num (2 ^ 32) ss;
     (expire, ss) \<leftarrow> extract_num (2 ^ 32) ss;
     (minimum, ss) \<leftarrow> extract_num (2 ^ 32) ss;
     Some (dn2data (s2dn (trailing P) mname) @ dn2data (s2dn (trailing P) rname)
       @ be32 (word_of_nat serial) @ be32 (word_of_nat refresh) @ be32 (word_of_nat retry)
       @ be32 (word_of_nat expire) @ be32 (word_of_nat minimum)) }"

definition dumpMX :: "platform \<Rightarrow> string \<Rightarrow> string option" where
  "dumpMX P data = do {
     (preference, ss) \<leftarrow> extract_num (2 ^ 16) data;
     (exchange, ss) \<leftarrow> extract_word ss;
     Some (be16 (word_of_nat preference) @ dn2data (s2dn (trailing P) exchange)) }"

text \<open>The wrapper of \<^verbatim>\<open>inet_pton\<close> in \<^verbatim>\<open>src/utils.cpp\<close>.\<close>

definition inet_pton :: "(string \<Rightarrow> string option) \<Rightarrow> string \<Rightarrow> dns_exn + string" where
  "inet_pton pton data = (case pton (cstr data) of None \<Rightarrow> Inl FORMAT_ERROR | Some b \<Rightarrow> Inr b)"

definition or_undefined :: "'a option \<Rightarrow> dns_exn + 'a" where
  "or_undefined r = (case r of None \<Rightarrow> Inl UNDEFINED | Some x \<Rightarrow> Inr x)"

definition Rdata :: "platform \<Rightarrow> RRTYPE \<Rightarrow> string \<Rightarrow> dns_exn + string" where
  "Rdata P t data =
     (if t = TYPE_A then inet_pton (pton4 P) data
      else if t = TYPE_AAAA then inet_pton (pton6 P) data
      else if t = TYPE_NS \<or> t = TYPE_CNAME then Inr (dn2data (s2dn (trailing P) data))
      else if t = TYPE_SOA then or_undefined (dumpSOA P data)
      else if t = TYPE_MX then or_undefined (dumpMX P data)
      else if t = TYPE_TXT then Inr (label_byte data # data)
      else Inr [])"

text \<open>\<^verbatim>\<open>parse(type, data)\<close>: the name that the data of a record points to. For MX it is what follows
  the first space (everything, when there is none).\<close>

definition record_dn :: "platform \<Rightarrow> RRTYPE \<Rightarrow> string \<Rightarrow> DN" where
  "record_dn P t data =
     (if t = TYPE_NS \<or> t = TYPE_CNAME then s2dn (trailing P) data
      else if t = TYPE_MX then s2dn (trailing P)
        (if CHR '' '' \<in> set data then tl (dropWhile (\<lambda>c. c \<noteq> CHR '' '') data) else data)
      else [])"

section \<open>Questions and records\<close>

record Question =
  domain :: DN
  qtype :: RRTYPE  \<comment> \<open>the member \<^verbatim>\<open>type\<close>\<close>
  clas :: CLAS

record Record = Question +
  ttl :: "32 word"
  data :: string
  rdata :: string
  datadn :: DN

type_synonym Key = "DN \<times> RRTYPE \<times> CLAS"

definition new_question :: "DN \<Rightarrow> RRTYPE \<Rightarrow> CLAS \<Rightarrow> Question" where
  "new_question d t c = \<lparr>domain = d, qtype = t, clas = c\<rparr>"

definition key :: "'a Question_scheme \<Rightarrow> Key" where
  "key q = (domain q, qtype q, clas q)"

definition new_record :: "platform \<Rightarrow> DN \<Rightarrow> RRTYPE \<Rightarrow> CLAS \<Rightarrow> 32 word \<Rightarrow> string \<Rightarrow> dns_exn + Record" where
  "new_record P d t c l dat =
     (case Rdata P t dat of Inl e \<Rightarrow> Inl e
      | Inr r \<Rightarrow> Inr \<lparr>domain = d, qtype = t, clas = c, ttl = l, data = dat, rdata = r, datadn = record_dn P t dat\<rparr>)"

definition question_dump :: "Question \<Rightarrow> string" where
  "question_dump q = dn2data (domain q) @ be16 (qtype q) @ be16 (clas q)"

definition record_dump :: "Record \<Rightarrow> string" where
  "record_dump r = dn2data (domain r) @ be16 (qtype r) @ be16 (clas r) @ be32 (ttl r)
     @ be16 (word_of_nat (length (rdata r))) @ rdata r"

section \<open>Address names\<close>

definition niplike :: "platform \<Rightarrow> DN \<Rightarrow> DN \<Rightarrow> dns_exn + Record list" where
  "niplike P dn base =
     (let sub = rev (dn_minus dn base);
          can = (length sub = 5 \<and> length (sub ! 4) < 62);
          can' = (can \<and> (\<forall>label \<in> set (butlast sub). length label \<le> 3 \<and> (\<forall>x \<in> set label. isdigit x)))
      in if \<not> can' then Inr []
         else case new_record P dn TYPE_A CLAS_IN 1 (butlast (dn2s (rev (butlast sub)))) of
           Inl e \<Rightarrow> Inl e | Inr rr \<Rightarrow> Inr [rr])"

text \<open>
  The address names: \<^verbatim>\<open>niplike\<close> answers for a name in the zone exactly when five labels stand
  below the zone, the leftmost four of which are numbers of at most three digits and the fifth is
  shorter than 62 bytes. The answer is one A record with TTL 1 for the dotted quad these four
  labels spell, if that is an address; if it is none, the exception for a format error is raised.
  For every other name it is empty.
\<close>

theorem niplike_spec:
  "niplike P (base @ sub) base =
    (case sub of
       [x, d, c, b, a] \<Rightarrow>
         if length x < 62 \<and> list_all (\<lambda>l. length l \<le> 3 \<and> list_all isdigit l) [a, b, c, d]
         then (case pton4 P (cstr (a @ DOT # b @ DOT # c @ DOT # d)) of
                 None \<Rightarrow> Inl FORMAT_ERROR
               | Some addr \<Rightarrow> Inr [\<lparr>domain = base @ sub, qtype = TYPE_A, clas = CLAS_IN, ttl = 1,
                   data = a @ DOT # b @ DOT # c @ DOT # d, rdata = addr, datadn = []\<rparr>])
         else Inr []
     | _ \<Rightarrow> Inr [])"
proof (cases "length sub = 5")
  case True
  then obtain x d c b a where sub: "sub = [x, d, c, b, a]"
    by (auto simp: length_Suc_conv numeral_eq_Suc)
  have "butlast (dn2s [d, c, b, a]) = a @ DOT # b @ DOT # c @ DOT # d"
    by (simp add: dn2s_def butlast_append)
  then show ?thesis
    by (auto simp: sub niplike_def new_record_def Rdata_def record_dn_def inet_pton_def type_defs list_all_iff
        split: option.split)
next
  case False
  then show ?thesis
    by (auto simp: niplike_def split: list.split)
qed

end
