(* ===== verification/DnsMessage.thy ===== *)
theory DnsMessage
  imports DnsRecord
begin

text \<open>
  DNS messages (\<^verbatim>\<open>include/header.hpp\<close>, \<^verbatim>\<open>src/header.cpp\<close>): the header with its bit fields as a little-endian
  compiler lays them out, \<^verbatim>\<open>Header::parse\<close> on the bytes of a datagram and \<^verbatim>\<open>Header::dump\<close>. The
  buffer of \<^verbatim>\<open>parse\<close> is a C++ string, whose terminator may still be read; going further is undefined
  and is the result \<open>None\<close>.
\<close>

record Header =
  ID :: "16 word"
  RD :: bool
  TC :: bool
  AA :: bool
  Opcode :: "4 word"
  QR :: bool
  RCODE :: "4 word"
  Z :: "3 word"
  RA :: bool
  QDCOUNT :: "16 word"
  ANCOUNT :: "16 word"
  NSCOUNT :: "16 word"
  ARCOUNT :: "16 word"
  RRcount :: "32 word"
  question :: "Question list"
  answer :: "Record list"
  authority :: "Record list"
  additional :: "Record list"

definition MSG_SIZE :: nat where
  "MSG_SIZE = 12"

section \<open>The flag bytes\<close>

definition byte :: "char \<Rightarrow> 8 word" where
  "byte c = word_of_nat (of_char c)"

definition unbyte :: "8 word \<Rightarrow> char" where
  "unbyte b = char_of (unat b)"

lemma byte_unbyte [simp]: "byte (unbyte b) = b"
proof -
  have "unat b < 256" using unsigned_less [of b] by simp
  then show ?thesis by (simp add: byte_def unbyte_def)
qed

lemma unbyte_byte [simp]: "unbyte (byte c) = c"
  by (simp add: byte_def unbyte_def unat_of_nat)

text \<open>Byte 2: RD, TC, AA, four bits of Opcode, QR; byte 3: four bits of RCODE, three of Z, RA.\<close>

definition set_flags :: "8 word \<Rightarrow> 8 word \<Rightarrow> Header \<Rightarrow> Header" where
  "set_flags f g h = h\<lparr>RD := bit f 0, TC := bit f 1, AA := bit f 2, Opcode := ucast (drop_bit 3 f), QR := bit f 7,
     RCODE := ucast g, Z := ucast (drop_bit 4 g), RA := bit g 7\<rparr>"

definition flag_byte2 :: "Header \<Rightarrow> 8 word" where
  "flag_byte2 h = of_bool (RD h) OR push_bit 1 (of_bool (TC h)) OR push_bit 2 (of_bool (AA h))
     OR push_bit 3 (ucast (Opcode h)) OR push_bit 7 (of_bool (QR h))"

definition flag_byte3 :: "Header \<Rightarrow> 8 word" where
  "flag_byte3 h = ucast (RCODE h) OR push_bit 4 (ucast (Z h)) OR push_bit 7 (of_bool (RA h))"

lemma less_8_cases: "n < 8 \<Longrightarrow> n = 0 \<or> n = 1 \<or> n = 2 \<or> n = 3 \<or> n = 4 \<or> n = 5 \<or> n = 6 \<or> n = (7::nat)"
  by arith

lemma flags_bytes:
  "flag_byte2 (set_flags f g h) = f" "flag_byte3 (set_flags f g h) = g"
proof -
  show "flag_byte2 (set_flags f g h) = f"
  proof (rule bit_word_eqI)
    fix n assume "n < LENGTH(8)"
    then show "bit (flag_byte2 (set_flags f g h)) n = bit f n"
      using less_8_cases [of n]
      by (auto simp: flag_byte2_def set_flags_def bit_simps)
  qed
  show "flag_byte3 (set_flags f g h) = g"
  proof (rule bit_word_eqI)
    fix n assume "n < LENGTH(8)"
    then show "bit (flag_byte3 (set_flags f g h)) n = bit g n"
      using less_8_cases [of n]
      by (auto simp: flag_byte3_def set_flags_def bit_simps)
  qed
qed

lemma less_4_cases: "n < 4 \<Longrightarrow> n = 0 \<or> n = 1 \<or> n = 2 \<or> n = (3::nat)"
  by arith

lemma less_3_cases: "n < 3 \<Longrightarrow> n = 0 \<or> n = 1 \<or> n = (2::nat)"
  by arith

lemma field_high_bits [simp]:
  "\<not> bit (w :: 4 word) 4" "\<not> bit (w :: 4 word) 5" "\<not> bit (w :: 4 word) 6" "\<not> bit (w :: 4 word) 7"
  "\<not> bit (v :: 3 word) 3"
  by (auto dest: bit_imp_le_length)

lemma opcode_field: "ucast (drop_bit 3 (flag_byte2 h)) = Opcode h"
proof (rule bit_word_eqI)
  fix n assume "n < LENGTH(4)"
  then show "bit (ucast (drop_bit 3 (flag_byte2 h)) :: 4 word) n = bit (Opcode h) n"
    using less_4_cases [of n] by (auto simp: flag_byte2_def bit_simps)
qed

lemma rcode_field: "ucast (flag_byte3 h) = RCODE h"
proof (rule bit_word_eqI)
  fix n assume "n < LENGTH(4)"
  then show "bit (ucast (flag_byte3 h) :: 4 word) n = bit (RCODE h) n"
    using less_4_cases [of n] by (auto simp: flag_byte3_def bit_simps)
qed

lemma z_field: "ucast (drop_bit 4 (flag_byte3 h)) = Z h"
proof (rule bit_word_eqI)
  fix n assume "n < LENGTH(3)"
  then show "bit (ucast (drop_bit 4 (flag_byte3 h)) :: 3 word) n = bit (Z h) n"
    using less_3_cases [of n] by (auto simp: flag_byte3_def bit_simps)
qed

lemma bytes_flags: "set_flags (flag_byte2 h) (flag_byte3 h) h' = h'\<lparr>RD := RD h, TC := TC h, AA := AA h,
    Opcode := Opcode h, QR := QR h, RCODE := RCODE h, Z := Z h, RA := RA h\<rparr>"
proof -
  have "bit (flag_byte2 h) 0 = RD h" "bit (flag_byte2 h) 1 = TC h" "bit (flag_byte2 h) 2 = AA h"
    "bit (flag_byte2 h) 7 = QR h" "bit (flag_byte3 h) 7 = RA h"
    by (simp_all add: flag_byte2_def flag_byte3_def bit_simps)
  then show ?thesis by (simp add: set_flags_def opcode_field rcode_field z_field)
qed

text \<open>
  The flag bytes: writing the bit fields into the two bytes of the message and reading them back
  gives the same fields, and reading any two bytes and writing them gives the same bytes; no field
  overlaps another and no bit is lost.
\<close>

theorem flags_roundtrip:
  "set_flags (flag_byte2 h) (flag_byte3 h) h = h
     \<and> flag_byte2 (set_flags f g h) = f \<and> flag_byte3 (set_flags f g h) = g"
  using flags_bytes bytes_flags [of h h] by simp

section \<open>Parsing\<close>

definition parse_question :: "string \<Rightarrow> (Question \<times> string) option" where
  "parse_question p = do {
     (d, p) \<leftarrow> data2dn p;
     (t, p) \<leftarrow> data2uint16 p;
     (c, p) \<leftarrow> data2uint16 p;
     Some (new_question d t c, p) }"

text \<open>The loop over the questions.\<close>

fun parse_questions :: "nat \<Rightarrow> string \<Rightarrow> (Question list \<times> string) option" where
  "parse_questions 0 p = Some ([], p)"
| "parse_questions (Suc n) p = do {
     (q, p) \<leftarrow> parse_question p;
     (qs, p) \<leftarrow> parse_questions n p;
     Some (q # qs, p) }"

text \<open>The fixed part. The message is a list of at least 12 bytes.\<close>

definition word_at :: "string \<Rightarrow> nat \<Rightarrow> 16 word" where
  "word_at msg i = word_of_nat (of_char (msg ! i) * 256 + of_char (msg ! (i + 1)))"

definition parse_fixed :: "string \<Rightarrow> Header \<Rightarrow> Header" where
  "parse_fixed msg h =
     (let h1 = (set_flags (byte (msg ! 2)) (byte (msg ! 3)) h)\<lparr>ID := word_at msg 0, QDCOUNT := word_at msg 4,
            ANCOUNT := word_at msg 6, NSCOUNT := word_at msg 8, ARCOUNT := word_at msg 10\<rparr>
      in h1\<lparr>RRcount := ucast (ANCOUNT h1) + ucast (NSCOUNT h1) + ucast (ARCOUNT h1)\<rparr>)"

definition header_parse :: "string \<Rightarrow> Header \<Rightarrow> Header option" where
  "header_parse msg h =
     (if length msg < MSG_SIZE then None
      else let h1 = parse_fixed msg h
           in case parse_questions (unat (QDCOUNT h1)) (drop MSG_SIZE msg) of None \<Rightarrow> None
              | Some (qs, p) \<Rightarrow> Some (h1\<lparr>question := qs, answer := [], authority := [], additional := []\<rparr>))"

section \<open>Writing\<close>

definition header_fixed :: "Header \<Rightarrow> string" where
  "header_fixed h = be16 (ID h) @ [unbyte (flag_byte2 h), unbyte (flag_byte3 h)]
     @ be16 (QDCOUNT h) @ be16 (ANCOUNT h) @ be16 (NSCOUNT h) @ be16 (ARCOUNT h)"

definition dump_counts :: "Header \<Rightarrow> Header" where
  "dump_counts h = h\<lparr>QR := True, Z := 0, QDCOUNT := word_of_nat (length (question h)),
     ANCOUNT := word_of_nat (length (answer h)), NSCOUNT := word_of_nat (length (authority h)),
     ARCOUNT := word_of_nat (length (additional h))\<rparr>"

text \<open>\<^verbatim>\<open>dump\<close>: the header it leaves behind and the bytes.\<close>

definition header_dump :: "Header \<Rightarrow> Header \<times> string" where
  "header_dump h =
     (let h1 = dump_counts h
      in (h1, header_fixed h1 @ concat (map question_dump (question h1))
            @ concat (map record_dump (answer h1 @ authority h1 @ additional h1))))"

interpretation question_wire: codec question_dump parse_question "\<lambda>q. dn_ok (domain q)"
proof
  fix q :: Question and rest
  assume "dn_ok (domain q)"
  then show "parse_question (question_dump q @ rest) = Some (q, rest)"
    by (simp add: parse_question_def question_dump_def dn_wire.dec_enc u16.dec_enc new_question_def)
qed

lemma parse_questions_many: "parse_questions n p = question_wire.dec_many n p"
  by (induction n arbitrary: p) (auto split: option.split Option.bind_split prod.split)

lemma length_header_fixed: "length (header_fixed h) = MSG_SIZE"
  by (simp add: header_fixed_def be16_def MSG_SIZE_def)

lemma word_of_be16:
  "(word_of_nat (of_char (char_of (unat w div 256) :: char) * 256 + of_char (char_of (unat w mod 256) :: char)) :: 16 word) = w"
  using u16.dec_enc_nil [of w] by (simp add: be16_def)

lemma parse_fixed_header:
  "parse_fixed (header_fixed h @ rest) h' = h'\<lparr>RD := RD h, TC := TC h, AA := AA h,
    Opcode := Opcode h, QR := QR h, RCODE := RCODE h, Z := Z h, RA := RA h, ID := ID h,
    QDCOUNT := QDCOUNT h, ANCOUNT := ANCOUNT h, NSCOUNT := NSCOUNT h, ARCOUNT := ARCOUNT h,
    RRcount := ucast (ANCOUNT h) + ucast (NSCOUNT h) + ucast (ARCOUNT h)\<rparr>"
  by (simp add: parse_fixed_def header_fixed_def word_at_def be16_def word_of_be16 [simplified] bytes_flags Let_def)

lemma header_parse_dump:
  assumes "list_all (\<lambda>q. dn_ok (domain q)) (question h)" and "length (question h) < 65536"
  shows "header_parse (snd (header_dump h) @ rest) h0 =
    Some ((fst (header_dump h))\<lparr>answer := [], authority := [], additional := [],
      RRcount := ucast (word_of_nat (length (answer h)) :: 16 word) + ucast (word_of_nat (length (authority h)) :: 16 word)
        + ucast (word_of_nat (length (additional h)) :: 16 word)\<rparr>)"
proof -
  let ?h = "dump_counts h"
  let ?r = "concat (map record_dump (answer h @ authority h @ additional h)) @ rest"
  have msg: "snd (header_dump h) @ rest = header_fixed ?h @ concat (map question_dump (question h)) @ ?r"
    by (simp add: header_dump_def Let_def dump_counts_def)
  have "unat (QDCOUNT ?h) = length (question h)"
    using assms(2) by (simp add: dump_counts_def unat_of_nat)
  then have "parse_questions (unat (QDCOUNT ?h)) (concat (map question_dump (question h)) @ ?r) = Some (question h, ?r)"
    using question_wire.dec_many_enc [OF assms(1)] by (simp add: parse_questions_many)
  then show ?thesis
    unfolding msg header_parse_def parse_fixed_header
    by (simp add: length_header_fixed Let_def header_dump_def) (simp add: dump_counts_def)
qed

text \<open>
  C16. Messages: what \<^verbatim>\<open>dump\<close> writes, \<^verbatim>\<open>parse\<close> reads back: identifier, flags (with QR set and Z cleared),
  response code, the four counts and every question, for up to 65535 questions with names the wire
  format can hold; the record sections, which \<^verbatim>\<open>parse\<close> skips, come back empty.
\<close>

theorem header_roundtrip:
  assumes "list_all (\<lambda>q. dn_ok (domain q)) (question h)" and "length (question h) < 65536"
  shows "header_parse (snd (header_dump h) @ rest) h0 =
    Some ((fst (header_dump h))\<lparr>answer := [], authority := [], additional := [],
      RRcount := ucast (word_of_nat (length (answer h)) :: 16 word) + ucast (word_of_nat (length (authority h)) :: 16 word)
        + ucast (word_of_nat (length (additional h)) :: 16 word)\<rparr>)"
  using assms by (rule header_parse_dump)

text \<open>A header to start from, as the constructor and a query leave it.\<close>

definition new_header :: Header where
  "new_header = \<lparr>ID = 0, RD = False, TC = False, AA = False, Opcode = 0, QR = False, RCODE = 0, Z = 0,
     RA = False, QDCOUNT = 0, ANCOUNT = 0, NSCOUNT = 0, ARCOUNT = 0, RRcount = 0, question = [],
     answer = [], authority = [], additional = []\<rparr>"

theorem header_roundtrip_witness:
  "header_parse (snd (header_dump (new_header\<lparr>ID := 7, question := [new_question [''org'', ''x''] TYPE_A CLAS_IN]\<rparr>))) new_header
     = Some (new_header\<lparr>ID := 7, QR := True, QDCOUNT := 1, question := [new_question [''org'', ''x''] TYPE_A CLAS_IN]\<rparr>)"
  using header_roundtrip [of "new_header\<lparr>ID := 7, question := [new_question [''org'', ''x''] TYPE_A CLAS_IN]\<rparr>" "[]" new_header]
  by (simp add: new_header_def new_question_def dn_ok_def header_dump_def dump_counts_def Let_def)

end
