(* ===== verification/DnsZone.thy ===== *)
theory DnsZone
  imports DnsMessage
begin

text \<open>
  Zones and the configuration of the DNS server (\<^verbatim>\<open>src/zone.cpp\<close>, \<^verbatim>\<open>src/config.cpp\<close>): reading a zone file
  into the table of records, the lookups of \<^verbatim>\<open>Zone\<close>, and reading the configuration file that names
  the zones. The contents of the files are arguments. How loading can end the process is
  \<open>load_error\<close>: \<^verbatim>\<open>exit(-1)\<close>, the failed \<^verbatim>\<open>assert\<close>, an exception nobody catches, and \<open>Uninit\<close> for a
  line that does not match its format, after which the code goes on with variables that
  \<^verbatim>\<open>sscanf\<close> has not stored to.
\<close>

datatype load_error = ConfigExit | AssertFailed | Uncaught dns_exn | Uninit

record Zone =
  zdomain :: DN  \<comment> \<open>the member \<^verbatim>\<open>domain\<close>\<close>
  rrs :: "(Key, Record list) um"

section \<open>Scanning\<close>

text \<open>The lines that successive calls of \<^verbatim>\<open>std::getline\<close> return.\<close>

fun getlines :: "string \<Rightarrow> string \<Rightarrow> string list" where
  "getlines w [] = (if w = [] then [] else [w])"
| "getlines w (c # cs) = (if c = LF then w # getlines [] cs else getlines (w @ [c]) cs)"

definition chomp :: "string \<Rightarrow> string" where
  "chomp l = (if l \<noteq> [] \<and> last l = CR then butlast l else l)"

definition file_lines :: "string \<Rightarrow> string list" where
  "file_lines content = map chomp (getlines [] content)"

text \<open>\<^verbatim>\<open>%n[set]\<close>, a literal comma, and \<^verbatim>\<open>%d\<close> (a value outside \<^verbatim>\<open>int\<close> is undefined).\<close>

definition scan_set :: "nat \<Rightarrow> (char \<Rightarrow> bool) \<Rightarrow> string \<Rightarrow> (string \<times> string) option" where
  "scan_set n p s = (let w = take n (takeWhile p s) in if w = [] then None else Some (w, drop (length w) s))"

definition COMMA :: char where
  "COMMA = CHR '',''"

fun scan_comma :: "string \<Rightarrow> (unit \<times> string) option" where
  "scan_comma [] = None"
| "scan_comma (c # s) = (if c = COMMA then Some ((), s) else None)"

definition scan_int :: "string \<Rightarrow> (int \<times> string) option" where
  "scan_int s =
     (let t = dropWhile isspace s;
          neg = (t \<noteq> [] \<and> hd t = CHR ''-'');
          u = (if t \<noteq> [] \<and> (hd t = CHR ''-'' \<or> hd t = CHR ''+'') then tl t else t);
          ds = takeWhile isdigit u;
          v = (if neg then - int (dec_value ds) else int (dec_value ds))
      in if ds = [] \<or> v < - (2 ^ 31) \<or> 2 ^ 31 \<le> v then None else Some (v, drop (length ds) u))"

text \<open>\<^verbatim>\<open>" %255[^,],%d,%4[^,],%9[^,],%511[^\r\n]"\<close>\<close>

definition scan_record :: "string \<Rightarrow> (string \<times> int \<times> string \<times> string \<times> string) option" where
  "scan_record line = do {
     (name, s) \<leftarrow> scan_set 255 (\<lambda>c. c \<noteq> COMMA) (dropWhile isspace line);
     (_, s) \<leftarrow> scan_comma s;
     (ttl, s) \<leftarrow> scan_int s;
     (_, s) \<leftarrow> scan_comma s;
     (clas, s) \<leftarrow> scan_set 4 (\<lambda>c. c \<noteq> COMMA) s;
     (_, s) \<leftarrow> scan_comma s;
     (typ, s) \<leftarrow> scan_set 9 (\<lambda>c. c \<noteq> COMMA) s;
     (_, s) \<leftarrow> scan_comma s;
     (rdata, s) \<leftarrow> scan_set 511 (\<lambda>c. c \<noteq> CR \<and> c \<noteq> LF) s;
     Some (name, ttl, clas, typ, rdata) }"

section \<open>Loading a zone\<close>

definition zone_add :: "Record \<Rightarrow> Zone \<Rightarrow> load_error + Zone" where
  "zone_add rr z =
     (if \<not> dn_under (domain rr) (zdomain z) then Inl ConfigExit
      else Inr (z\<lparr>rrs := (case um_find (rrs z) (key rr) of
                  None \<Rightarrow> um_emplace (key rr) [rr] (rrs z)
                | Some rs \<Rightarrow> um_assign (key rr) (rs @ [rr]) (rrs z))\<rparr>))"

text \<open>The record of a line, and one pass of the loop over the lines.\<close>

definition line_record :: "platform \<Rightarrow> DN \<Rightarrow> string \<Rightarrow> load_error + Record" where
  "line_record P dn line =
     (case scan_record (cstr line) of None \<Rightarrow> Inl Uninit
      | Some (name, l, c, t, dat) \<Rightarrow>
          (case new_record P (dn @ s2dn (trailing P) name) (v2e_name type_entries t) (v2e_name clas_entries c)
                  (word_of_int l) dat of
             Inl e \<Rightarrow> Inl (Uncaught e) | Inr rr \<Rightarrow> Inr rr))"

fun zone_lines :: "platform \<Rightarrow> string list \<Rightarrow> Zone \<Rightarrow> load_error + Zone" where
  "zone_lines P [] z = Inr z"
| "zone_lines P (l # ls) z =
     (case line_record P (zdomain z) l of Inl e \<Rightarrow> Inl e
      | Inr rr \<Rightarrow> (case zone_add rr z of Inl e \<Rightarrow> Inl e | Inr z' \<Rightarrow> zone_lines P ls z'))"

definition zone_load :: "platform \<Rightarrow> DN \<Rightarrow> string \<Rightarrow> load_error + Zone" where
  "zone_load P dn content =
     (let ls = file_lines content; first = (if ls = [] then [] else hd ls)
      in if s2dn (trailing P) first \<noteq> dn then Inl ConfigExit
         else case zone_lines P (tl ls) \<lparr>zdomain = dn, rrs = []\<rparr> of Inl e \<Rightarrow> Inl e
           | Inr z \<Rightarrow> if um_find (rrs z) (dn, TYPE_SOA, CLAS_IN) = None then Inl AssertFailed else Inr z)"

section \<open>Lookups\<close>

definition zone_get :: "platform \<Rightarrow> Zone \<Rightarrow> Question \<Rightarrow> dns_exn + Record list" where
  "zone_get P z q =
     (if \<not> dn_under (domain q) (zdomain z) then Inl SERVER_FAILURE
      else case niplike P (domain q) (zdomain z) of Inl e \<Rightarrow> Inl e
        | Inr rr \<Rightarrow> if rr \<noteq> [] then Inr rr
            else if \<not> type_known (qtype q) then Inl NOT_IMPLEMENTED
            else (case um_find (rrs z) (key q) of Some rs \<Rightarrow> Inr rs | None \<Rightarrow> Inl NAME_ERROR))"

definition zone_get_type :: "Zone \<Rightarrow> RRTYPE \<Rightarrow> CLAS \<Rightarrow> dns_exn + Record list" where
  "zone_get_type z t c = (case um_find (rrs z) (zdomain z, t, c) of Some rs \<Rightarrow> Inr rs | None \<Rightarrow> Inl NAME_ERROR)"

definition zone_getIP :: "Zone \<Rightarrow> DN \<Rightarrow> Record list" where
  "zone_getIP z dn =
     (let r = (case um_find (rrs z) (dn, TYPE_A, CLAS_IN) of Some rs \<Rightarrow> rs | None \<Rightarrow> [])
      in r @ (case um_find (rrs z) (dn, TYPE_AAAA, CLAS_IN) of Some rs \<Rightarrow> rs | None \<Rightarrow> []))"

section \<open>A zone is its file\<close>

text \<open>The reference: the records of the lines, in order; the table is a view of this list.\<close>

fun line_records :: "platform \<Rightarrow> DN \<Rightarrow> string list \<Rightarrow> load_error + Record list" where
  "line_records P dn [] = Inr []"
| "line_records P dn (l # ls) =
     (case line_record P dn l of Inl e \<Rightarrow> Inl e
      | Inr rr \<Rightarrow> (case line_records P dn ls of Inl e \<Rightarrow> Inl e | Inr rs \<Rightarrow> Inr (rr # rs)))"

definition zone_view :: "Record list \<Rightarrow> Key \<Rightarrow> Record list option" where
  "zone_view rs k = (let sel = filter (\<lambda>r. key r = k) rs in if sel = [] then None else Some sel)"

definition zone_of :: "DN \<Rightarrow> Record list \<Rightarrow> Zone \<Rightarrow> bool" where
  "zone_of dn rs z \<longleftrightarrow> zdomain z = dn \<and> (\<forall>k. um_find (rrs z) k = zone_view rs k)
     \<and> (\<forall>r \<in> set rs. dn_under (domain r) dn)"

lemma line_record_under: "line_record P dn l = Inr rr \<Longrightarrow> dn_under (domain rr) dn"
  by (auto simp: line_record_def new_record_def dn_under_iff split: option.splits sum.splits)

lemma zone_add_view:
  assumes "zone_of dn rs z" and "dn_under (domain rr) dn"
  shows "\<exists>z'. zone_add rr z = Inr z' \<and> zone_of dn (rs @ [rr]) z'"
proof -
  define t where "t = (case um_find (rrs z) (key rr) of None \<Rightarrow> um_emplace (key rr) [rr] (rrs z)
      | Some ys \<Rightarrow> um_assign (key rr) (ys @ [rr]) (rrs z))"
  have v: "um_find (rrs z) k = zone_view rs k" for k using assms(1) unfolding zone_of_def by blast
  have "um_find t k = zone_view (rs @ [rr]) k" for k
    using v [of k] v [of "key rr"]
    by (cases "k = key rr") (auto simp: t_def zone_view_def Let_def um_simps split: option.splits if_splits)
  then have "zone_of dn (rs @ [rr]) (z\<lparr>rrs := t\<rparr>)"
    using assms by (auto simp: zone_of_def)
  then show ?thesis
    using assms by (auto simp: zone_add_def zone_of_def t_def)
qed

lemma zone_lines_view:
  assumes "zone_of dn rs z"
  shows "case line_records P dn ls of Inl e \<Rightarrow> zone_lines P ls z = Inl e
    | Inr rs' \<Rightarrow> \<exists>z'. zone_lines P ls z = Inr z' \<and> zone_of dn (rs @ rs') z'"
  using assms
proof (induction ls arbitrary: rs z)
  case (Cons l ls)
  have dn: "zdomain z = dn" using Cons.prems by (simp add: zone_of_def)
  show ?case
  proof (cases "line_record P dn l")
    case (Inl e)
    then show ?thesis by (simp add: dn)
  next
    case (Inr rr)
    then obtain z' where z': "zone_add rr z = Inr z'" "zone_of dn (rs @ [rr]) z'"
      using zone_add_view [OF Cons.prems line_record_under] by blast
    show ?thesis
      using Cons.IH [OF z'(2)] Inr z'(1) dn by (auto split: sum.splits)
  qed
qed simp

lemma zone_of_start: "zone_of dn [] \<lparr>zdomain = dn, rrs = []\<rparr>"
  by (simp add: zone_of_def zone_view_def)

lemma zone_load_view:
  assumes "zone_load P dn content = Inr z"
  obtains rs where "line_records P dn (tl (file_lines content)) = Inr rs" and "zone_of dn rs z"
    and "zone_view rs (dn, TYPE_SOA, CLAS_IN) \<noteq> None"
proof -
  have z: "zone_lines P (tl (file_lines content)) \<lparr>zdomain = dn, rrs = []\<rparr> = Inr z"
    and soa: "um_find (rrs z) (dn, TYPE_SOA, CLAS_IN) \<noteq> None"
    using assms by (auto simp: zone_load_def Let_def split: if_splits sum.splits)
  then obtain rs where "line_records P dn (tl (file_lines content)) = Inr rs" "zone_of dn rs z"
    using zone_lines_view [OF zone_of_start [of dn], of P "tl (file_lines content)"]
    by (auto split: sum.splits)
  then show thesis using that soa by (auto simp: zone_of_def)
qed

text \<open>
  C14. Loading a zone: the table a zone file is read into holds, for every key, exactly the records
  of the file's lines with that key, in the order of the file, and nothing else; the name of every
  record lies in the zone, so \<^verbatim>\<open>add\<close> never ends the process; and a zone that has been loaded has an
  SOA record.
\<close>

theorem zone_load_correct:
  assumes "zone_load P dn content = Inr z"
  shows "\<exists>rs. line_records P dn (tl (file_lines content)) = Inr rs \<and> zone_of dn rs z
    \<and> (\<exists>r \<in> set rs. key r = (dn, TYPE_SOA, CLAS_IN))"
proof -
  obtain rs where "line_records P dn (tl (file_lines content)) = Inr rs" "zone_of dn rs z"
    "zone_view rs (dn, TYPE_SOA, CLAS_IN) \<noteq> None"
    using zone_load_view [OF assms] .
  moreover from this(3) have "filter (\<lambda>r. key r = (dn, TYPE_SOA, CLAS_IN)) rs \<noteq> []"
    by (auto simp: zone_view_def Let_def)
  then have "\<exists>r \<in> set rs. key r = (dn, TYPE_SOA, CLAS_IN)"
    by (metis (mono_tags, lifting) filter_False)
  ultimately show ?thesis by blast
qed

section \<open>The configuration\<close>

record Config =
  forwardIP :: string
  zones :: "(DN, Zone) um"

definition scan_word :: "nat \<Rightarrow> string \<Rightarrow> (string \<times> string) option" where
  "scan_word n s = scan_set n (\<lambda>c. \<not> isspace c) (dropWhile isspace s)"

definition scan_entry :: "string \<Rightarrow> (string \<times> string \<times> string) option" where
  "scan_entry s = do {
     (name, s) \<leftarrow> scan_set 255 (\<lambda>c. c \<noteq> COMMA) (dropWhile isspace s);
     (_, s) \<leftarrow> scan_comma s;
     (path, s) \<leftarrow> scan_word 511 s;
     Some (name, path, s) }"

lemma scan_set_shorter: "scan_set n p s = Some (w, r) \<Longrightarrow> length r < length s"
proof -
  assume "scan_set n p s = Some (w, r)"
  then have w: "w = take n (takeWhile p s)" "w \<noteq> []" and r: "r = drop (length w) s"
    by (auto simp: scan_set_def Let_def split: if_splits)
  have "s \<noteq> []" using w by auto
  then show ?thesis using w(2) by (simp add: r)
qed

lemma scan_comma_shorter: "scan_comma s = Some (u, r) \<Longrightarrow> length r < length s"
  by (cases s) (auto split: if_splits)

lemma scan_entry_shorter:
  assumes "scan_entry s = Some (d, p, r)"
  shows "length r < length s"
proof -
  obtain s1 s2 where "scan_set 255 (\<lambda>c. c \<noteq> COMMA) (dropWhile isspace s) = Some (d, s1)"
    "scan_comma s1 = Some ((), s2)" "scan_set 511 (\<lambda>c. \<not> isspace c) (dropWhile isspace s2) = Some (p, r)"
    using assms by (auto simp: scan_entry_def scan_word_def split: Option.bind_splits)
  then have "length s1 < length (dropWhile isspace s)" "length s2 < length s1" "length r < length (dropWhile isspace s2)"
    by (auto dest: scan_set_shorter scan_comma_shorter)
  then show ?thesis
    using length_dropWhile_le [of isspace s] length_dropWhile_le [of isspace s2] by linarith
qed

text \<open>The loop of the constructor; \<open>files\<close> is the content of the zone file at a path.\<close>

function config_loop :: "platform \<Rightarrow> (string \<Rightarrow> string) \<Rightarrow> string \<Rightarrow> (DN, Zone) um \<Rightarrow> load_error + (DN, Zone) um" where
  "config_loop P files s zs =
     (if dropWhile isspace s = [] then Inr zs
      else case scan_entry s of None \<Rightarrow> Inl Uninit
        | Some (name, path, r) \<Rightarrow>
            (let dn = s2dn (trailing P) name
             in if um_find zs dn \<noteq> None then config_loop P files r zs
                else case zone_load P dn (files path) of Inl e \<Rightarrow> Inl e
                  | Inr z \<Rightarrow> config_loop P files r (um_emplace dn z zs)))"
  by pat_completeness auto
termination
  by (relation "measure (\<lambda>(P, files, s, zs). length s)") (auto dest: scan_entry_shorter)

declare config_loop.simps [simp del]

definition config_load :: "platform \<Rightarrow> (string \<Rightarrow> string) \<Rightarrow> string \<Rightarrow> load_error + Config" where
  "config_load P files s =
     (case scan_word 19 s of None \<Rightarrow> Inl Uninit
      | Some (ip, r) \<Rightarrow> (case config_loop P files r [] of Inl e \<Rightarrow> Inl e
         | Inr zs \<Rightarrow> Inr \<lparr>forwardIP = ip, zones = zs\<rparr>))"

definition config_has :: "Config \<Rightarrow> DN \<Rightarrow> bool" where
  "config_has C dn \<longleftrightarrow> um_find (zones C) dn \<noteq> None"

definition config_get :: "Config \<Rightarrow> DN \<Rightarrow> Zone option" where
  "config_get C dn = um_find (zones C) dn"

section \<open>The invariant of a configuration\<close>

definition zone_ok :: "Zone \<Rightarrow> bool" where
  "zone_ok z \<longleftrightarrow> um_find (rrs z) (zdomain z, TYPE_SOA, CLAS_IN) \<noteq> None
     \<and> (\<forall>k rs. um_find (rrs z) k = Some rs \<longrightarrow> rs \<noteq> [] \<and> dn_under (fst k) (zdomain z) \<and> (\<forall>r \<in> set rs. key r = k))"

definition config_ok :: "Config \<Rightarrow> bool" where
  "config_ok C \<longleftrightarrow> (\<forall>dn z. config_get C dn = Some z \<longrightarrow> zdomain z = dn \<and> zone_ok z)"

lemma zone_load_ok:
  assumes "zone_load P dn content = Inr z"
  shows "zdomain z = dn \<and> zone_ok z"
proof -
  obtain rs where rs: "zone_of dn rs z" "zone_view rs (dn, TYPE_SOA, CLAS_IN) \<noteq> None"
    using zone_load_view [OF assms] by metis
  have "sel \<noteq> [] \<and> dn_under (fst k) dn \<and> (\<forall>r \<in> set sel. key r = k)" if "zone_view rs k = Some sel" for k sel
  proof -
    have sel: "sel = filter (\<lambda>r. key r = k) rs" "sel \<noteq> []"
      using that by (auto simp: zone_view_def Let_def split: if_splits)
    then obtain r where "r \<in> set sel" using hd_in_set by blast
    then have "r \<in> set rs" "key r = k" unfolding sel(1) by auto
    then have "dn_under (fst k) dn" using rs(1) by (auto simp: zone_of_def key_def)
    then show ?thesis using sel by auto
  qed
  then show ?thesis using rs by (auto simp: zone_ok_def zone_of_def)
qed

lemma config_loop_ok:
  "config_loop P files s zs = Inr zs' \<Longrightarrow> (\<forall>dn z. um_find zs dn = Some z \<longrightarrow> zdomain z = dn \<and> zone_ok z)
    \<Longrightarrow> (\<forall>dn z. um_find zs' dn = Some z \<longrightarrow> zdomain z = dn \<and> zone_ok z)"
proof (induction P files s zs rule: config_loop.induct)
  case (1 P files s zs)
  show ?case
  proof (cases "dropWhile isspace s = []")
    case True
    then show ?thesis using 1(3,4) by (simp add: config_loop.simps [of P files s])
  next
    case False
    then obtain name path r where e: "scan_entry s = Some (name, path, r)"
      using 1(3) by (subst (asm) config_loop.simps) (simp del: dropWhile_eq_Nil_conv split: option.splits prod.splits)
    define dn where "dn = s2dn (trailing P) name"
    have run: "config_loop P files s zs =
        (if um_find zs dn \<noteq> None then config_loop P files r zs
         else case zone_load P dn (files path) of Inl e \<Rightarrow> Inl e
           | Inr z \<Rightarrow> config_loop P files r (um_emplace dn z zs))"
      unfolding dn_def by (subst config_loop.simps) (simp add: False e Let_def del: dropWhile_eq_Nil_conv)
    show ?thesis
    proof (cases "um_find zs dn")
      case (Some z)
      then have "config_loop P files r zs = Inr zs'" using 1(3) run by simp
      then show ?thesis
        using 1(1) [OF False e refl refl dn_def] Some 1(4) by blast
    next
      case None
      obtain z where z: "zone_load P dn (files path) = Inr z"
        using 1(3) run None by (auto split: sum.splits)
      have l: "config_loop P files r (um_emplace dn z zs) = Inr zs'" using 1(3) run None z by simp
      have "\<forall>d y. um_find (um_emplace dn z zs) d = Some y \<longrightarrow> zdomain y = d \<and> zone_ok y"
        using 1(4) zone_load_ok [OF z] by (auto simp: um_simps split: if_splits)
      then show ?thesis
        using 1(2) [OF False e refl refl dn_def _ z l] None by blast
    qed
  qed
qed

lemma config_load_inv:
  assumes "config_load P files s = Inr C"
  shows "config_ok C"
proof -
  obtain ip r where "config_loop P files r [] = Inr (zones C)"
    using assms by (auto simp: config_load_def split: option.splits sum.splits)
  then have "\<forall>dn z. um_find (zones C) dn = Some z \<longrightarrow> zdomain z = dn \<and> zone_ok z"
    by (rule config_loop_ok) simp
  then show ?thesis by (simp add: config_ok_def config_get_def)
qed

text \<open>
  C15. The invariant of the configuration: whatever the files hold, a configuration that has been
  loaded maps each name to a zone of that name, which has an SOA record, whose table has no empty
  entry, and all whose records lie in the zone and stand under their own key.
\<close>

theorem config_load_ok:
  assumes "config_load P files s = Inr C"
  shows "config_ok C"
  using assms by (rule config_load_inv)

end
