(* ===== verification/DnsServer.thy ===== *)
theory DnsServer
  imports DnsZone
begin

text \<open>
  The DNS server (\<^verbatim>\<open>src/server.cpp\<close>): answering a question from the zone that is closest to the name,
  forwarding what no zone covers, and turning exceptions into response codes. What the server
  behind \<^verbatim>\<open>connfd\<close> replies is the argument \<open>upstream\<close>.
\<close>

section \<open>The closest zone\<close>

text \<open>The interface of the search: a test on names. The loop tries a name, then drops its last
  label, and stops before the root.\<close>

locale closest =
  fixes has :: "'l list \<Rightarrow> bool"
    and find :: "'l list \<Rightarrow> 'l list option"
  assumes find_Nil: "find [] = None"
    and find_has: "dn \<noteq> [] \<Longrightarrow> has dn \<Longrightarrow> find dn = Some dn"
    and find_up: "dn \<noteq> [] \<Longrightarrow> \<not> has dn \<Longrightarrow> find dn = find (butlast dn)"
begin

lemma find_snoc: "find (dn @ [l]) = (if has (dn @ [l]) then Some (dn @ [l]) else find dn)"
  using find_has [of "dn @ [l]"] find_up [of "dn @ [l]"] by simp

lemma find_Some: "find dn = Some b \<Longrightarrow> b \<noteq> [] \<and> has b \<and> (\<exists>r. dn = b @ r)"
proof (induction dn rule: rev_induct)
  case Nil
  then show ?case by (simp add: find_Nil)
next
  case (snoc l dn)
  then show ?case by (fastforce simp: find_snoc split: if_splits)
qed

lemma find_longest: "find dn = Some b \<Longrightarrow> has b' \<Longrightarrow> b' \<noteq> [] \<Longrightarrow> dn = b' @ r \<Longrightarrow> length b' \<le> length b"
proof (induction dn arbitrary: r rule: rev_induct)
  case Nil
  then show ?case by simp
next
  case (snoc l dn)
  show ?case
  proof (cases "has (dn @ [l])")
    case True
    then have "b = dn @ [l]" using snoc.prems(1) by (simp add: find_snoc)
    then show ?thesis using snoc.prems(4) by simp
  next
    case False
    then have f: "find dn = Some b" using snoc.prems(1) by (simp add: find_snoc)
    show ?thesis
    proof (cases r rule: rev_cases)
      case Nil
      then show ?thesis using False snoc.prems by simp
    next
      case (snoc ys y)
      then have "dn = b' @ ys" using \<open>dn @ [l] = b' @ r\<close> by simp
      then show ?thesis using snoc.IH [OF f] snoc.prems by blast
    qed
  qed
qed

lemma find_None: "find dn = None \<longleftrightarrow> (\<forall>b r. dn = b @ r \<longrightarrow> b \<noteq> [] \<longrightarrow> \<not> has b)"
proof (induction dn rule: rev_induct)
  case Nil
  then show ?case by (simp add: find_Nil)
next
  case (snoc l dn)
  show ?case
  proof
    assume n: "find (dn @ [l]) = None"
    then have "\<not> has (dn @ [l])" and "find dn = None" by (auto simp: find_snoc split: if_splits)
    then show "\<forall>b r. dn @ [l] = b @ r \<longrightarrow> b \<noteq> [] \<longrightarrow> \<not> has b"
      using snoc.IH by (metis append_assoc append_self_conv butlast_append butlast_snoc)
  next
    assume a: "\<forall>b r. dn @ [l] = b @ r \<longrightarrow> b \<noteq> [] \<longrightarrow> \<not> has b"
    then have "\<forall>b r. dn = b @ r \<longrightarrow> b \<noteq> [] \<longrightarrow> \<not> has b" and "\<not> has (dn @ [l])"
      by fastforce+
    then show "find (dn @ [l]) = None" using snoc.IH by (simp add: find_snoc)
  qed
qed

end

function zone_loop :: "Config \<Rightarrow> DN \<Rightarrow> DN option" where
  "zone_loop C dn = (if dn = [] then None else if config_has C dn then Some dn else zone_loop C (butlast dn))"
  by pat_completeness auto
termination by (relation "measure (\<lambda>(C, dn). length dn)") auto

declare zone_loop.simps [simp del]

interpretation zone_search: closest "config_has C" "zone_loop C" for C
  by unfold_locales (subst zone_loop.simps, simp)+

section \<open>Answering\<close>

text \<open>The loop over the records found: the record, and the addresses of the name it points to.\<close>

definition add_answers :: "Zone \<Rightarrow> Record list \<Rightarrow> Header \<Rightarrow> Header" where
  "add_answers z rs h = foldl (\<lambda>h rr. h\<lparr>answer := answer h @ [rr],
     additional := additional h @ zone_getIP z (datadn rr)\<rparr>) h rs"

text \<open>The clause \<^verbatim>\<open>catch (NAME_ERROR)\<close>.\<close>

definition name_error :: "Zone \<Rightarrow> Header \<Rightarrow> Header \<times> dns_exn option" where
  "name_error z h =
     (let h1 = h\<lparr>RCODE := 3\<rparr>
      in case zone_get_type z TYPE_SOA CLAS_IN of Inl e \<Rightarrow> (h1, Some e)
         | Inr soa \<Rightarrow> (h1\<lparr>authority := soa\<rparr>, None))"

definition answer_from :: "platform \<Rightarrow> Zone \<Rightarrow> Question \<Rightarrow> Header \<Rightarrow> Header \<times> dns_exn option" where
  "answer_from P z q h0 =
     (let h = h0\<lparr>AA := True, RD := True, RA := False, RCODE := 0\<rparr>
      in case zone_get P z q of
           Inl e \<Rightarrow> (if e = NAME_ERROR then name_error z h else (h, Some e))
         | Inr rs \<Rightarrow>
             (let h1 = add_answers z rs h
              in if qtype q \<noteq> TYPE_NS
                 then (case zone_get_type z TYPE_NS CLAS_IN of
                         Inl e \<Rightarrow> (if e = NAME_ERROR then name_error z h1 else (h1, Some e))
                       | Inr ns \<Rightarrow> (h1\<lparr>authority := authority h1 @ ns\<rparr>, None))
                 else (h1, None)))"

text \<open>\<^verbatim>\<open>query(Header&)\<close>: the header it leaves, and the exception or the bytes of the reply.\<close>

definition query_header :: "platform \<Rightarrow> Config \<Rightarrow> Header \<Rightarrow> Header \<times> (dns_exn + string)" where
  "query_header P C h =
     (if QDCOUNT h \<noteq> 1 then (h, Inl NOT_IMPLEMENTED)
      else let q = question h ! 0
           in case zone_loop C (domain q) of None \<Rightarrow> (h, Inl FORWARD)
              | Some dn \<Rightarrow>
                 (case config_get C dn of None \<Rightarrow> (h, Inl UNDEFINED)
                  | Some z \<Rightarrow> (case answer_from P z q h of
                       (h1, Some e) \<Rightarrow> (h1, Inl e)
                     | (h1, None) \<Rightarrow> (case header_dump h1 of (h2, bytes) \<Rightarrow> (h2, Inr bytes)))))"

definition forward :: "(string \<Rightarrow> string) \<Rightarrow> string \<Rightarrow> string" where
  "forward upstream qs = take 2048 (upstream qs)"

text \<open>\<^verbatim>\<open>query(std::string)\<close>; \<open>None\<close> when it is undefined. The string's terminator can be read too.\<close>

definition query :: "platform \<Rightarrow> Config \<Rightarrow> (string \<Rightarrow> string) \<Rightarrow> string \<Rightarrow> string option" where
  "query P C upstream qs =
     (case header_parse (qs @ [NUL]) new_header of None \<Rightarrow> None
      | Some h \<Rightarrow>
         (case query_header P C h of
            (h1, Inr bytes) \<Rightarrow> Some bytes
          | (h1, Inl e) \<Rightarrow>
             (case e of FORWARD \<Rightarrow> Some (forward upstream qs)
              | FORMAT_ERROR \<Rightarrow> Some (snd (header_dump (h1\<lparr>RCODE := 1\<rparr>)))
              | NOT_IMPLEMENTED \<Rightarrow> Some (snd (header_dump (h1\<lparr>RCODE := 4\<rparr>)))
              | UNDEFINED \<Rightarrow> None
              | SERVER_FAILURE \<Rightarrow> Some (snd (header_dump (h1\<lparr>RCODE := 2\<rparr>)))
              | NAME_ERROR \<Rightarrow> Some (snd (header_dump (h1\<lparr>RCODE := 2\<rparr>))))))"

text \<open>One round of \<^verbatim>\<open>interactive\<close>: the datagram is cut to the buffer, and the reply goes back.\<close>

definition serve :: "platform \<Rightarrow> Config \<Rightarrow> (string \<Rightarrow> string) \<Rightarrow> string \<Rightarrow> string option" where
  "serve P C upstream datagram = query P C upstream (take 2048 datagram)"

section \<open>Which zone answers\<close>

text \<open>
  The zone that answers is the closest one: when the search finds a name, it is the longest
  configured prefix (in labels, from the top) of the name asked for; and it finds none exactly when
  no prefix but the root is configured, in which case the query is forwarded unchanged.
\<close>

theorem closest_zone:
  "(\<forall>b. zone_loop C dn = Some b \<longrightarrow> config_has C b \<and> b \<noteq> [] \<and> dn_under dn b
       \<and> (\<forall>b'. config_has C b' \<and> b' \<noteq> [] \<and> dn_under dn b' \<longrightarrow> length b' \<le> length b))
   \<and> (zone_loop C dn = None \<longleftrightarrow> (\<forall>b. dn_under dn b \<longrightarrow> b \<noteq> [] \<longrightarrow> \<not> config_has C b))"
  using zone_search.find_Some [of C dn] zone_search.find_longest [of C dn] zone_search.find_None [of C dn]
  unfolding dn_under_iff by blast

section \<open>What a zone answers\<close>

lemma add_answers_eq:
  "add_answers z rs h = h\<lparr>answer := answer h @ rs,
     additional := additional h @ concat (map (\<lambda>rr. zone_getIP z (datadn rr)) rs)\<rparr>"
  unfolding add_answers_def by (induction rs arbitrary: h) simp_all

lemma zone_ok_soa:
  "zone_ok z \<Longrightarrow> \<exists>soa. zone_get_type z TYPE_SOA CLAS_IN = Inr soa \<and> soa \<noteq> []
     \<and> um_find (rrs z) (zdomain z, TYPE_SOA, CLAS_IN) = Some soa"
  by (auto simp: zone_ok_def zone_get_type_def split: option.split)

lemma name_error_defined: "zone_ok z \<Longrightarrow> snd (name_error z h) = None"
  using zone_ok_soa [of z] by (auto simp: name_error_def Let_def)

lemma zone_get_exn:
  "dn_under (domain q) (zdomain z) \<Longrightarrow> zone_get P z q = Inl e \<Longrightarrow> e \<in> {FORMAT_ERROR, NOT_IMPLEMENTED, NAME_ERROR}"
  by (auto simp: zone_get_def niplike_def new_record_def Rdata_def inet_pton_def Let_def
      split: if_splits sum.splits option.splits)

lemma zone_get_type_exn: "zone_get_type z t c = Inl e \<Longrightarrow> e = NAME_ERROR"
  by (auto simp: zone_get_type_def split: option.splits)

lemma answer_exn:
  assumes "zone_ok z" and "dn_under (domain q) (zdomain z)" and "answer_from P z q h = (h', r)"
  shows "r \<in> {None, Some FORMAT_ERROR, Some NOT_IMPLEMENTED}"
proof -
  have n: "snd (name_error z h1) = None" for h1 using name_error_defined [OF assms(1)] .
  show ?thesis
  proof (cases "zone_get P z q")
    case (Inl e)
    then show ?thesis
      using assms(3) zone_get_exn [OF assms(2) Inl] n [of "h\<lparr>AA := True, RD := True, RA := False, RCODE := 0\<rparr>"]
      by (auto simp: answer_from_def Let_def split: if_splits)
  next
    case (Inr rs)
    show ?thesis
    proof (cases "zone_get_type z TYPE_NS CLAS_IN")
      case (Inl e)
      then have "e = NAME_ERROR" by (rule zone_get_type_exn)
      then show ?thesis
        using assms(3) Inl Inr n [of "add_answers z rs (h\<lparr>AA := True, RD := True, RA := False, RCODE := 0\<rparr>)"]
        by (auto simp: answer_from_def Let_def split: if_splits)
    next
      case (Inr ns)
      then show ?thesis using assms(3) \<open>zone_get P z q = Inr rs\<close>
        by (auto simp: answer_from_def Let_def split: if_splits)
    qed
  qed
qed

text \<open>
  The only errors of a zone that has been loaded: for a question in the zone, answering ends
  normally, or with a format error (an address name that spells no address) or an unimplemented
  type. In particular the lookup of the SOA record in the handler for unknown names cannot fail.
\<close>

theorem answer_exceptions:
  assumes "zone_ok z" and "dn_under (domain q) (zdomain z)" and "answer_from P z q h = (h', r)"
  shows "r \<in> {None, Some FORMAT_ERROR, Some NOT_IMPLEMENTED}"
  using assms by (rule answer_exn)

text \<open>
  A name the zone knows: the answer section gets exactly the zone's records for the question, in
  their order, the additional section the addresses the zone has for the names they point to, and,
  unless NS itself is asked for, the authority section gets the zone's NS records; response code 0,
  authoritative. This needs an NS record at the zone's name.
\<close>

theorem answer_positive:
  assumes "niplike P (domain q) (zdomain z) = Inr []" and "dn_under (domain q) (zdomain z)"
    and "type_known (qtype q)" and "um_find (rrs z) (key q) = Some rs"
    and "um_find (rrs z) (zdomain z, TYPE_NS, CLAS_IN) = Some ns"
  shows "answer_from P z q h = (h\<lparr>AA := True, RD := True, RA := False, RCODE := 0,
     answer := answer h @ rs, additional := additional h @ concat (map (\<lambda>rr. zone_getIP z (datadn rr)) rs),
     authority := authority h @ (if qtype q = TYPE_NS then [] else ns)\<rparr>, None)"
  using assms by (simp add: answer_from_def zone_get_def zone_get_type_def add_answers_eq Let_def)

text \<open>
  A name or type the zone does not have: response code 3, the zone's SOA records in the authority
  section, and no answer.
\<close>

theorem answer_negative:
  assumes "niplike P (domain q) (zdomain z) = Inr []" and "dn_under (domain q) (zdomain z)"
    and "type_known (qtype q)" and "um_find (rrs z) (key q) = None" and "zone_ok z"
  shows "\<exists>soa. soa \<noteq> [] \<and> um_find (rrs z) (zdomain z, TYPE_SOA, CLAS_IN) = Some soa
    \<and> answer_from P z q h = (h\<lparr>AA := True, RD := True, RA := False, RCODE := 3, authority := soa\<rparr>, None)"
  using assms zone_ok_soa [OF assms(5)]
  by (auto simp: answer_from_def zone_get_def name_error_def Let_def)

text \<open>
  A zone without NS records answers every question it can answer, other than NS, with response
  code 3 (no such name) and the answers in the same message: the exception for the missing NS
  record is caught by the handler for unknown names.
\<close>

theorem missing_ns_nxdomain:
  assumes "niplike P (domain q) (zdomain z) = Inr []" and "dn_under (domain q) (zdomain z)"
    and "type_known (qtype q)" and "qtype q \<noteq> TYPE_NS" and "um_find (rrs z) (key q) = Some rs" and "zone_ok z"
    and "um_find (rrs z) (zdomain z, TYPE_NS, CLAS_IN) = None"
  shows "\<exists>h'. answer_from P z q h = (h', None) \<and> RCODE h' = 3 \<and> answer h' = answer h @ rs \<and> rs \<noteq> []"
proof -
  have "rs \<noteq> []" using assms(5,6) unfolding zone_ok_def by blast
  then show ?thesis
    using assms zone_ok_soa [OF assms(6)]
    by (auto simp: answer_from_def zone_get_def zone_get_type_def add_answers_eq name_error_def Let_def)
qed

end
