(* ===== verification/DnsService.thy ===== *)
theory DnsService
  imports DnsServer
begin

text \<open>
  The DNS server from the datagram to the reply: every well-formed query is answered with a message
  that names the same identifier and question, and the answers of a small configuration, loaded
  from its files and evaluated.
\<close>

section \<open>From datagram to reply\<close>

lemma parse_query:
  assumes "dn_ok (domain q)" and "QDCOUNT hq = 1"
  shows "\<exists>h. header_parse ((header_fixed hq @ question_dump q @ rest) @ [NUL]) new_header = Some h
    \<and> ID h = ID hq \<and> Opcode h = Opcode hq \<and> QDCOUNT h = 1 \<and> question h = [q]
    \<and> answer h = [] \<and> authority h = [] \<and> additional h = []"
proof -
  have "parse_questions 1 (question_dump q @ rest @ [NUL]) = Some ([q], rest @ [NUL])"
    using question_wire.dec_many_enc [of "[q]" "rest @ [NUL]"] assms(1) by (simp add: parse_questions_many)
  then show ?thesis
    using parse_fixed_header [of hq "question_dump q @ rest @ [NUL]" new_header] assms(2)
    by (simp add: header_parse_def length_header_fixed Let_def)
qed

lemma name_error_keeps:
  "name_error z h = (h', r) \<Longrightarrow> ID h' = ID h \<and> Opcode h' = Opcode h \<and> question h' = question h \<and> RCODE h' = 3"
  by (auto simp: name_error_def Let_def split: sum.splits)

lemma answer_from_keeps:
  assumes "answer_from P z q h = (h', r)"
  shows "ID h' = ID h \<and> Opcode h' = Opcode h \<and> question h' = question h \<and> RCODE h' \<in> {0, 3}"
  using assms
  by (auto simp: answer_from_def Let_def add_answers_eq split: sum.splits if_splits dest: name_error_keeps)

lemma reply_parses:
  assumes "question h = [q]" and "dn_ok (domain q)"
  shows "\<exists>h'. header_parse (snd (header_dump h)) new_header = Some h' \<and> ID h' = ID h \<and> Opcode h' = Opcode h
    \<and> QR h' \<and> question h' = [q] \<and> RCODE h' = RCODE h"
  using header_parse_dump [of h "[]" new_header] assms
  by (simp add: header_dump_def dump_counts_def Let_def)

lemma zone_found:
  assumes "config_ok C" and "zone_loop C dn = Some b"
  obtains z where "config_get C b = Some z" and "zdomain z = b" and "zone_ok z" and "dn_under dn b"
  using assms zone_search.find_Some [of C dn b]
  by (auto simp: config_ok_def config_has_def config_get_def dn_under_iff)

text \<open>
  Every query about a name in a configured zone is answered: for a loaded configuration and a
  datagram that holds a header with one question, whatever follows it, the server replies, and its
  reply is a message with the query's identifier and opcode, marked as a response, that repeats the
  question and carries one of the response codes 0, 1, 3 and 4.
\<close>

theorem query_reply:
  assumes ok: "config_ok C" and zone: "zone_loop C (domain q) = Some b" and q: "dn_ok (domain q)"
    and one: "QDCOUNT hq = 1"
  shows "\<exists>reply h'. query P C upstream (header_fixed hq @ question_dump q @ rest) = Some reply
    \<and> header_parse reply new_header = Some h' \<and> ID h' = ID hq \<and> Opcode h' = Opcode hq \<and> QR h'
    \<and> question h' = [q] \<and> RCODE h' \<in> {0, 1, 3, 4}"
proof -
  obtain h where h: "header_parse ((header_fixed hq @ question_dump q @ rest) @ [NUL]) new_header = Some h"
    "ID h = ID hq" "Opcode h = Opcode hq" "QDCOUNT h = 1" "question h = [q]"
    using parse_query [OF q one] by blast
  obtain z where z: "config_get C b = Some z" "zdomain z = b" "zone_ok z" "dn_under (domain q) b"
    using zone_found [OF ok zone] .
  obtain h1 r where a: "answer_from P z q h = (h1, r)" by force
  have keep: "ID h1 = ID hq" "Opcode h1 = Opcode hq" "question h1 = [q]" "RCODE h1 \<in> {0, 3}"
    using answer_from_keeps [OF a] h by simp_all
  have r: "r \<in> {None, Some FORMAT_ERROR, Some NOT_IMPLEMENTED}"
    using answer_exn [OF z(3) _ a] z by simp
  define h2 where "h2 = (if r = None then h1 else if r = Some FORMAT_ERROR then h1\<lparr>RCODE := 1\<rparr> else h1\<lparr>RCODE := 4\<rparr>)"
  have h2: "ID h2 = ID hq" "Opcode h2 = Opcode hq" "question h2 = [q]" "RCODE h2 \<in> {0, 1, 3, 4}"
    using keep by (auto simp: h2_def)
  have "query_header P C h = (case r of Some e \<Rightarrow> (h1, Inl e)
       | None \<Rightarrow> (case header_dump h1 of (h2, bytes) \<Rightarrow> (h2, Inr bytes)))"
    using h zone z a by (simp add: query_header_def)
  then have "query P C upstream (header_fixed hq @ question_dump q @ rest) = Some (snd (header_dump h2))"
    using r h(1) unfolding query_def h2_def by (cases "header_dump h1") auto
  then show ?thesis
    using reply_parses [OF h2(3) q] h2 by auto
qed

text \<open>
  What the server does not answer itself: a query that does not hold exactly one question is
  answered with response code 4 and its questions, and a query for a name outside every zone is
  sent on unchanged, the reply being the upstream server's first 2048 bytes.
\<close>

theorem query_other:
  assumes h: "header_parse (qs @ [NUL]) new_header = Some h"
  shows "(QDCOUNT h \<noteq> 1 \<longrightarrow> query P C upstream qs = Some (snd (header_dump (h\<lparr>RCODE := 4\<rparr>))))
    \<and> (QDCOUNT h = 1 \<longrightarrow> zone_loop C (domain (question h ! 0)) = None
        \<longrightarrow> query P C upstream qs = Some (take 2048 (upstream qs)))"
  using h by (simp add: query_def query_header_def forward_def)

section \<open>A small configuration\<close>

text \<open>A dotted quad, as an instance of \<^verbatim>\<open>inet_pton\<close>.\<close>

definition quad :: "string \<Rightarrow> string option" where
  "quad s = (let ps = split_dots True [] s
     in if length ps = 4 \<and> list_all (\<lambda>p. p \<noteq> [] \<and> length p \<le> 3 \<and> list_all isdigit p \<and> dec_value p < 256) ps
        then Some (map (\<lambda>p. char_of (dec_value p)) ps) else None)"

definition demo_platform :: platform where
  "demo_platform = \<lparr>trailing = False, pton4 = quad, pton6 = (\<lambda>_. None)\<rparr>"

definition demo_files :: "string \<Rightarrow> string" where
  "demo_files path = (if path = ''z.txt'' then
     ''e.o.'' @ [LF] @ ''@,60,IN,SOA,d.e.o. a.e.o. 1 2 3 4 5'' @ [LF] @ ''@,60,IN,NS,d.e.o.'' @ [LF]
     @ ''d,60,IN,A,140.113.1.2'' @ [LF] @ ''@,60,IN,MX,10 d.e.o.'' @ [LF]
   else ''n.o.'' @ [LF] @ ''@,60,IN,SOA,d.n.o. a.n.o. 1 2 3 4 5'' @ [LF] @ ''w,60,IN,TXT,hi'' @ [LF])"

definition demo_config :: string where
  "demo_config = ''8.8.8.8'' @ [LF] @ ''e.o.,z.txt'' @ [LF] @ ''n.o.,y.txt'' @ [LF]"

definition demo_rr :: "DN \<Rightarrow> RRTYPE \<Rightarrow> string \<Rightarrow> string \<Rightarrow> DN \<Rightarrow> Record" where
  "demo_rr d t dat rd dd = \<lparr>domain = d, qtype = t, clas = CLAS_IN, ttl = 60, data = dat, rdata = rd, datadn = dd\<rparr>"

definition demo_soa :: "string \<Rightarrow> Record" where
  "demo_soa z = demo_rr [''o'', z] TYPE_SOA (''d.'' @ z @ ''.o. a.'' @ z @ ''.o. 1 2 3 4 5'')
     (dn2data [''o'', z, ''d''] @ dn2data [''o'', z, ''a''] @ be32 1 @ be32 2 @ be32 3 @ be32 4 @ be32 5) []"

definition demo_ns :: Record where
  "demo_ns = demo_rr [''o'', ''e''] TYPE_NS ''d.e.o.'' (dn2data [''o'', ''e'', ''d'']) [''o'', ''e'', ''d'']"

definition demo_mx :: Record where
  "demo_mx = demo_rr [''o'', ''e''] TYPE_MX ''10 d.e.o.'' (be16 10 @ dn2data [''o'', ''e'', ''d'']) [''o'', ''e'', ''d'']"

definition demo_a :: Record where
  "demo_a = demo_rr [''o'', ''e'', ''d''] TYPE_A ''140.113.1.2'' (map char_of [140, 113, 1, 2 :: nat]) []"

definition demo_txt :: Record where
  "demo_txt = demo_rr [''o'', ''n'', ''w''] TYPE_TXT ''hi'' (label_byte ''hi'' # ''hi'') []"

definition zone_e :: Zone where
  "zone_e = \<lparr>zdomain = [''o'', ''e''], rrs = [(([''o'', ''e''], TYPE_SOA, CLAS_IN), [demo_soa ''e'']),
     (([''o'', ''e''], TYPE_NS, CLAS_IN), [demo_ns]), (([''o'', ''e'', ''d''], TYPE_A, CLAS_IN), [demo_a]),
     (([''o'', ''e''], TYPE_MX, CLAS_IN), [demo_mx])]\<rparr>"

definition zone_n :: Zone where
  "zone_n = \<lparr>zdomain = [''o'', ''n''], rrs = [(([''o'', ''n''], TYPE_SOA, CLAS_IN), [demo_soa ''n'']),
     (([''o'', ''n'', ''w''], TYPE_TXT, CLAS_IN), [demo_txt])]\<rparr>"

definition demo_cfg :: Config where
  "demo_cfg = \<lparr>forwardIP = ''8.8.8.8'', zones = [([''o'', ''e''], zone_e), ([''o'', ''n''], zone_n)]\<rparr>"

lemmas dns_eval = scan_record_def scan_set_def scan_int_def isspace_def isdigit_def dec_value_def COMMA_def Let_def
  line_record_def new_record_def Rdata_def record_dn_def s2dn_def inet_pton_def v2e_name_def type_entries_def
  clas_entries_def type_defs demo_platform_def quad_def dumpSOA_def dumpMX_def extract_word_def extract_num_def
  or_undefined_def

lemmas demo_defs = demo_rr_def demo_soa_def demo_ns_def demo_mx_def demo_a_def demo_txt_def zone_e_def zone_n_def

lemma load_e: "zone_load demo_platform [''o'', ''e''] (demo_files ''z.txt'') = Inr zone_e"
  by (simp add: zone_load_def demo_files_def file_lines_def chomp_def zone_add_def dn_under_def key_def
      um_emplace_def dns_eval demo_defs)

lemma load_n: "zone_load demo_platform [''o'', ''n''] (demo_files ''y.txt'') = Inr zone_n"
  by (simp add: zone_load_def demo_files_def file_lines_def chomp_def zone_add_def dn_under_def key_def
      um_emplace_def dns_eval demo_defs)

lemma demo_load: "config_load demo_platform demo_files demo_config = Inr demo_cfg"
proof -
  have 1: "config_loop demo_platform demo_files ([LF] @ ''e.o.,z.txt'' @ [LF] @ ''n.o.,y.txt'' @ [LF]) []
     = config_loop demo_platform demo_files ([LF] @ ''n.o.,y.txt'' @ [LF]) [([''o'', ''e''], zone_e)]"
    by (subst config_loop.simps)
      (simp add: scan_entry_def scan_word_def scan_set_def isspace_def COMMA_def Let_def s2dn_def demo_platform_def
        load_e [unfolded demo_platform_def] um_emplace_def)
  have 2: "config_loop demo_platform demo_files ([LF] @ ''n.o.,y.txt'' @ [LF]) [([''o'', ''e''], zone_e)]
     = config_loop demo_platform demo_files [LF] [([''o'', ''e''], zone_e), ([''o'', ''n''], zone_n)]"
    by (subst config_loop.simps)
      (simp add: scan_entry_def scan_word_def scan_set_def isspace_def COMMA_def Let_def s2dn_def demo_platform_def
        load_n [unfolded demo_platform_def] um_emplace_def)
  have 3: "config_loop demo_platform demo_files [LF] zs = Inr zs" for zs
    by (subst config_loop.simps) (simp add: isspace_def)
  have "scan_word 19 demo_config = Some (''8.8.8.8'', [LF] @ ''e.o.,z.txt'' @ [LF] @ ''n.o.,y.txt'' @ [LF])"
    by (simp add: scan_word_def scan_set_def isspace_def demo_config_def Let_def)
  then show ?thesis
    unfolding config_load_def using 1 2 3 by (simp add: demo_cfg_def)
qed

lemma demo_cfg_ok: "config_ok demo_cfg"
  using config_load_inv [OF demo_load] .

lemma demo_zones_ok: "zone_ok zone_e" "zone_ok zone_n"
  using zone_load_ok [OF load_e] zone_load_ok [OF load_n] by simp_all

lemma demo_lookup: "config_has demo_cfg dn \<longleftrightarrow> dn = [''o'', ''e''] \<or> dn = [''o'', ''n'']"
  by (simp add: config_has_def demo_cfg_def)

lemma demo_zone_loop: "zone_loop demo_cfg [''o'', ''e'', ''d''] = Some [''o'', ''e'']"
  "zone_loop demo_cfg [''o'', ''e''] = Some [''o'', ''e'']" "zone_loop demo_cfg [''o'', ''x''] = None"
  by (simp_all add: zone_loop.simps [of demo_cfg "x # xs" for x xs] zone_loop.simps [of demo_cfg "[]"] demo_lookup)

section \<open>The theorems at the small configuration\<close>

theorem zone_load_correct_witness:
  "\<exists>rs. zone_of [''o'', ''e''] rs zone_e \<and> (\<exists>r \<in> set rs. key r = ([''o'', ''e''], TYPE_SOA, CLAS_IN))"
  using zone_load_correct [OF load_e] by blast

theorem config_load_ok_witness: "config_ok demo_cfg"
  by (rule config_load_ok [OF demo_load])

theorem closest_zone_witness:
  "dn_under [''o'', ''e'', ''d''] [''o'', ''e''] \<and> \<not> config_has demo_cfg [''o'', ''x'']"
  using closest_zone [of demo_cfg "[''o'', ''e'', ''d'']"] closest_zone [of demo_cfg "[''o'', ''x'']"] demo_zone_loop
  by (auto simp: dn_under_iff)

theorem answer_exceptions_witness:
  "snd (answer_from demo_platform zone_e (new_question [''o'', ''e''] TYPE_MX CLAS_IN) new_header)
     \<in> {None, Some FORMAT_ERROR, Some NOT_IMPLEMENTED}"
  by (rule answer_exceptions [OF demo_zones_ok(1), of "new_question [''o'', ''e''] TYPE_MX CLAS_IN"
        demo_platform new_header "fst (answer_from demo_platform zone_e (new_question [''o'', ''e''] TYPE_MX CLAS_IN) new_header)"])
    (simp_all add: new_question_def dn_under_def zone_e_def)

theorem answer_positive_witness:
  "answer (fst (answer_from demo_platform zone_e (new_question [''o'', ''e''] TYPE_MX CLAS_IN) new_header)) = [demo_mx]
   \<and> additional (fst (answer_from demo_platform zone_e (new_question [''o'', ''e''] TYPE_MX CLAS_IN) new_header)) = [demo_a]
   \<and> authority (fst (answer_from demo_platform zone_e (new_question [''o'', ''e''] TYPE_MX CLAS_IN) new_header)) = [demo_ns]"
proof -
  have "answer_from demo_platform zone_e (new_question [''o'', ''e''] TYPE_MX CLAS_IN) new_header = (new_header\<lparr>AA := True, RD := True, RA := False, RCODE := 0,
     answer := answer new_header @ [demo_mx], additional := additional new_header @ concat (map (\<lambda>rr. zone_getIP zone_e (datadn rr)) [demo_mx]),
     authority := authority new_header @ (if qtype (new_question [''o'', ''e''] TYPE_MX CLAS_IN) = TYPE_NS then [] else [demo_ns])\<rparr>, None)"
    by (rule answer_positive)
      (simp_all add: new_question_def zone_e_def niplike_def dn_minus_def dn_under_def type_known_def type_entries_def key_def type_defs Let_def)
  then show ?thesis
    by (simp add: new_header_def new_question_def type_defs zone_getIP_def demo_mx_def demo_rr_def)
      (simp add: zone_e_def type_defs)
qed

theorem answer_negative_witness:
  "RCODE (fst (answer_from demo_platform zone_e (new_question [''o'', ''e'', ''q''] TYPE_A CLAS_IN) new_header)) = 3"
proof -
  have "\<exists>soa. soa \<noteq> [] \<and> um_find (rrs zone_e) (zdomain zone_e, TYPE_SOA, CLAS_IN) = Some soa
    \<and> answer_from demo_platform zone_e (new_question [''o'', ''e'', ''q''] TYPE_A CLAS_IN) new_header
      = (new_header\<lparr>AA := True, RD := True, RA := False, RCODE := 3, authority := soa\<rparr>, None)"
    by (rule answer_negative)
      (simp_all add: demo_zones_ok, simp_all add: new_question_def zone_e_def niplike_def dn_minus_def dn_under_def type_known_def
        type_entries_def key_def type_defs Let_def)
  then show ?thesis by auto
qed

theorem missing_ns_nxdomain_witness:
  "\<exists>h'. answer_from demo_platform zone_n (new_question [''o'', ''n'', ''w''] TYPE_TXT CLAS_IN) new_header = (h', None)
     \<and> RCODE h' = 3 \<and> answer h' = [demo_txt]"
proof -
  have "\<exists>h'. answer_from demo_platform zone_n (new_question [''o'', ''n'', ''w''] TYPE_TXT CLAS_IN) new_header = (h', None)
     \<and> RCODE h' = 3 \<and> answer h' = answer new_header @ [demo_txt] \<and> [demo_txt] \<noteq> []"
    by (rule missing_ns_nxdomain)
      (simp_all add: demo_zones_ok, simp_all add: new_question_def zone_n_def niplike_def dn_minus_def dn_under_def type_known_def
        type_entries_def key_def type_defs Let_def)
  then show ?thesis by (simp add: new_header_def)
qed

theorem query_reply_witness:
  "\<exists>reply h'. query demo_platform demo_cfg id
       (header_fixed (new_header\<lparr>ID := 7, QDCOUNT := 1\<rparr>) @ question_dump (new_question [''o'', ''e''] TYPE_MX CLAS_IN)) = Some reply
     \<and> header_parse reply new_header = Some h' \<and> ID h' = 7 \<and> QR h'"
  using query_reply [OF demo_cfg_ok, of "new_question [''o'', ''e''] TYPE_MX CLAS_IN" "[''o'', ''e'']"
      "new_header\<lparr>ID := 7, QDCOUNT := 1\<rparr>" demo_platform id "[]"] demo_zone_loop
  by (auto simp: new_question_def dn_ok_def)

theorem query_other_witness:
  "query demo_platform demo_cfg (\<lambda>q. ''up'')
       (header_fixed (new_header\<lparr>QDCOUNT := 1\<rparr>) @ question_dump (new_question [''o'', ''x''] TYPE_A CLAS_IN)) = Some ''up''"
proof -
  obtain h where h: "header_parse ((header_fixed (new_header\<lparr>QDCOUNT := 1\<rparr>) @ question_dump (new_question [''o'', ''x''] TYPE_A CLAS_IN)) @ [NUL]) new_header = Some h"
    "QDCOUNT h = 1" "question h = [new_question [''o'', ''x''] TYPE_A CLAS_IN]"
    using parse_query [of "new_question [''o'', ''x''] TYPE_A CLAS_IN" "new_header\<lparr>QDCOUNT := 1\<rparr>" "[]"]
    by (auto simp: new_question_def dn_ok_def)
  have "zone_loop demo_cfg (domain (question h ! 0)) = None"
    using h(3) demo_zone_loop(3) by (simp add: new_question_def)
  then show ?thesis
    using query_other [OF h(1), of demo_platform demo_cfg "\<lambda>q. ''up''"] h(2) by simp
qed

end
