(* ===== verification/DnsSpec.thy ===== *)
theory DnsSpec
  imports DnsService "HOL-Library.Sublist"
begin

text \<open>
  What the DNS server promises, from the files it was started with to the bytes of the reply, without
  its tables: a zone is the list of the records of its file, the zone that answers is the longest
  configured prefix of the name, a section is a selection from the zone's list, and a message is
  written field by field as the protocol lays it out, with the flags as one 16-bit number.
  \<open>dns_refines\<close>: the server of \<open>DnsServer\<close> implements this for every datagram.
\<close>

section \<open>The name space\<close>

type_synonym space = "DN \<Rightarrow> Record list option"

text \<open>The entries of a configuration file, in order, and the records of the file of each; for a name that
  is configured twice the first entry counts.\<close>

function config_entries :: "string \<Rightarrow> (string \<times> string) list option" where
  "config_entries s =
     (if dropWhile isspace s = [] then Some []
      else case scan_entry s of None \<Rightarrow> None
        | Some (name, path, r) \<Rightarrow> map_option (Cons (name, path)) (config_entries r))"
  by pat_completeness auto
termination by (relation "measure length") (auto dest: scan_entry_shorter)

declare config_entries.simps [simp del]

definition zone_records :: "platform \<Rightarrow> (string \<Rightarrow> string) \<Rightarrow> DN \<Rightarrow> string \<Rightarrow> Record list option" where
  "zone_records P files dn path =
     (case line_records P dn (tl (file_lines (files path))) of Inl e \<Rightarrow> None | Inr rs \<Rightarrow> Some rs)"

fun entries_space :: "platform \<Rightarrow> (string \<Rightarrow> string) \<Rightarrow> (string \<times> string) list \<Rightarrow> space" where
  "entries_space P files [] dn = None"
| "entries_space P files ((name, path) # es) dn =
     (if dn = s2dn (trailing P) name then zone_records P files dn path else entries_space P files es dn)"

text \<open>The configuration file: the address of the upstream server, then the entries.\<close>

definition file_space :: "platform \<Rightarrow> (string \<Rightarrow> string) \<Rightarrow> string \<Rightarrow> space" where
  "file_space P files s =
     (case scan_word 19 s of None \<Rightarrow> (\<lambda>_. None)
      | Some (ip, r) \<Rightarrow> (case config_entries r of None \<Rightarrow> (\<lambda>_. None) | Some es \<Rightarrow> entries_space P files es))"

section \<open>The answer to a question\<close>

definition spec_zone :: "space \<Rightarrow> DN \<Rightarrow> DN option" where
  "spec_zone N dn = find (\<lambda>b. b \<noteq> [] \<and> N b \<noteq> None) (rev (prefixes dn))"

definition named :: "Record list \<Rightarrow> DN \<Rightarrow> RRTYPE \<Rightarrow> Record list" where
  "named rs dn t = filter (\<lambda>r. key r = (dn, t, CLAS_IN)) rs"

definition addresses :: "Record list \<Rightarrow> DN \<Rightarrow> Record list" where
  "addresses rs dn = named rs dn TYPE_A @ named rs dn TYPE_AAAA"

text \<open>The name of an address: four short numbers and a label below the zone.\<close>

definition address_name :: "DN \<Rightarrow> DN \<Rightarrow> string option" where
  "address_name b dn =
     (case drop (length b) dn of
        [l, w, v, u, t] \<Rightarrow>
          if length l < 62 \<and> list_all (\<lambda>n. length n \<le> 3 \<and> list_all isdigit n) [t, u, v, w]
          then Some (t @ DOT # u @ DOT # v @ DOT # w) else None
      | _ \<Rightarrow> None)"

record Sections =
  s_rcode :: "4 word"
  s_answer :: "Record list"
  s_authority :: "Record list"
  s_additional :: "Record list"

text \<open>The sections that go with the answers: the addresses of the names they point to, and the zone's
  name servers. A zone without name servers says, besides its answers, that there is no such name.\<close>

definition with_answers :: "Record list \<Rightarrow> DN \<Rightarrow> RRTYPE \<Rightarrow> Record list \<Rightarrow> Sections" where
  "with_answers rs b t an =
     (let ad = concat (map (\<lambda>r. addresses rs (datadn r)) an); ns = named rs b TYPE_NS
      in if t = TYPE_NS then \<lparr>s_rcode = 0, s_answer = an, s_authority = [], s_additional = ad\<rparr>
         else if ns = [] then \<lparr>s_rcode = 3, s_answer = an, s_authority = named rs b TYPE_SOA, s_additional = ad\<rparr>
         else \<lparr>s_rcode = 0, s_answer = an, s_authority = ns, s_additional = ad\<rparr>)"

definition no_answer :: "4 word \<Rightarrow> Record list \<Rightarrow> Sections" where
  "no_answer rc au = \<lparr>s_rcode = rc, s_answer = [], s_authority = au, s_additional = []\<rparr>"

definition spec_sections :: "platform \<Rightarrow> Record list \<Rightarrow> DN \<Rightarrow> Question \<Rightarrow> Sections" where
  "spec_sections P rs b q =
     (case address_name b (domain q) of
        Some quad4 \<Rightarrow>
          (case pton4 P (cstr quad4) of
             None \<Rightarrow> no_answer 1 []
           | Some addr \<Rightarrow> with_answers rs b (qtype q)
               [\<lparr>domain = domain q, qtype = TYPE_A, clas = CLAS_IN, ttl = 1, data = quad4, rdata = addr, datadn = []\<rparr>])
      | None \<Rightarrow>
          if \<not> type_known (qtype q) then no_answer 4 []
          else let an = filter (\<lambda>r. key r = key q) rs
               in if an = [] then no_answer 3 (named rs b TYPE_SOA) else with_answers rs b (qtype q) an)"

section \<open>Messages\<close>

record Msg =
  m_id :: "16 word"
  m_opcode :: "4 word"
  m_aa :: bool
  m_tc :: bool
  m_rd :: bool
  m_ra :: bool
  m_questions :: "Question list"
  m_sections :: Sections

text \<open>The flags of a response, from the highest bit: QR, four of the opcode, AA, TC, RD, RA, three zeros,
  four of the response code.\<close>

definition spec_flags :: "Msg \<Rightarrow> nat" where
  "spec_flags m = 2 ^ 15 + 2 ^ 11 * unat (m_opcode m) + 2 ^ 10 * of_bool (m_aa m) + 2 ^ 9 * of_bool (m_tc m)
     + 2 ^ 8 * of_bool (m_rd m) + 2 ^ 7 * of_bool (m_ra m) + unat (s_rcode (m_sections m))"

definition num16 :: "nat \<Rightarrow> string" where
  "num16 n = [char_of (n div 256 mod 256), char_of (n mod 256)]"

definition spec_wire :: "Msg \<Rightarrow> string" where
  "spec_wire m =
     (let s = m_sections m
      in num16 (unat (m_id m)) @ num16 (spec_flags m) @ num16 (length (m_questions m)) @ num16 (length (s_answer s))
         @ num16 (length (s_authority s)) @ num16 (length (s_additional s))
         @ concat (map question_dump (m_questions m))
         @ concat (map record_dump (s_answer s @ s_authority s @ s_additional s)))"

text \<open>The reply to a message, whose header and questions have been read.\<close>

definition spec_reply :: "platform \<Rightarrow> space \<Rightarrow> (string \<Rightarrow> string) \<Rightarrow> string \<Rightarrow> Header \<Rightarrow> string" where
  "spec_reply P N upstream datagram h =
     (case question h of
        [q] \<Rightarrow>
          (case spec_zone N (domain q) of
             None \<Rightarrow> take 2048 (upstream datagram)
           | Some b \<Rightarrow> spec_wire \<lparr>m_id = ID h, m_opcode = Opcode h, m_aa = True, m_tc = TC h, m_rd = True, m_ra = False,
               m_questions = [q], m_sections = spec_sections P (case N b of None \<Rightarrow> [] | Some rs \<Rightarrow> rs) b q\<rparr>)
      | qs \<Rightarrow> spec_wire \<lparr>m_id = ID h, m_opcode = Opcode h, m_aa = AA h, m_tc = TC h, m_rd = RD h, m_ra = RA h,
          m_questions = qs, m_sections = no_answer 4 []\<rparr>)"

section \<open>The configuration is its files\<close>

definition space_zones :: "space \<Rightarrow> (DN, Zone) um \<Rightarrow> bool" where
  "space_zones N zs \<longleftrightarrow> (\<forall>dn. um_find zs dn = None \<longleftrightarrow> N dn = None) \<and>
     (\<forall>dn rs. N dn = Some rs \<longrightarrow> (\<exists>z. um_find zs dn = Some z \<and> zone_of dn rs z \<and> named rs dn TYPE_SOA \<noteq> []))"

lemma space_zonesD:
  assumes "space_zones N zs"
  shows "um_find zs dn = None \<longleftrightarrow> N dn = None"
    and "N dn = Some rs \<Longrightarrow> \<exists>z. um_find zs dn = Some z \<and> zone_of dn rs z \<and> named rs dn TYPE_SOA \<noteq> []"
  using assms unfolding space_zones_def by blast+

lemma space_zones_put:
  assumes "space_zones N zs" and "um_find zs dn = None" and "zone_of dn rs z" and "named rs dn TYPE_SOA \<noteq> []"
  shows "space_zones (N(dn \<mapsto> rs)) (um_emplace dn z zs)"
  using assms unfolding space_zones_def by (auto simp: um_simps)

lemma zone_load_records:
  assumes "zone_load P dn (files path) = Inr z"
  obtains rs where "zone_records P files dn path = Some rs" and "zone_of dn rs z" and "named rs dn TYPE_SOA \<noteq> []"
proof -
  obtain rs where "line_records P dn (tl (file_lines (files path))) = Inr rs" "zone_of dn rs z"
    "zone_view rs (dn, TYPE_SOA, CLAS_IN) \<noteq> None"
    using zone_load_view [OF assms] .
  then show thesis using that by (auto simp: zone_records_def named_def zone_view_def Let_def split: if_splits)
qed

lemma config_loop_space:
  assumes "config_loop P files s zs = Inr zs'" and "space_zones N zs"
  shows "\<exists>es. config_entries s = Some es \<and> space_zones (\<lambda>dn. case N dn of None \<Rightarrow> entries_space P files es dn | Some rs \<Rightarrow> Some rs) zs'"
  using assms
proof (induction P files s zs arbitrary: N rule: config_loop.induct)
  case (1 P files s zs)
  show ?case
  proof (cases "dropWhile isspace s = []")
    case True
    then have "zs' = zs" using 1(3) by (simp add: config_loop.simps [of P files s])
    moreover have "(\<lambda>dn. case N dn of None \<Rightarrow> entries_space P files [] dn | Some rs \<Rightarrow> Some rs) = N"
      by (rule ext) (simp split: option.split)
    ultimately show ?thesis using True 1(4) by (simp add: config_entries.simps [of s])
  next
    case False
    then obtain name path r where e: "scan_entry s = Some (name, path, r)"
      using 1(3) by (subst (asm) config_loop.simps) (simp del: dropWhile_eq_Nil_conv split: option.splits prod.splits)
    have es: "config_entries s = map_option (Cons (name, path)) (config_entries r)"
      by (subst config_entries.simps) (simp add: False e del: dropWhile_eq_Nil_conv)
    define dn where "dn = s2dn (trailing P) name"
    have run: "config_loop P files s zs =
        (if um_find zs dn \<noteq> None then config_loop P files r zs
         else case zone_load P dn (files path) of Inl e \<Rightarrow> Inl e
           | Inr z \<Rightarrow> config_loop P files r (um_emplace dn z zs))"
      unfolding dn_def by (subst config_loop.simps) (simp add: False e Let_def del: dropWhile_eq_Nil_conv)
    show ?thesis
    proof (cases "um_find zs dn")
      case (Some z)
      then obtain es' where es': "config_entries r = Some es'"
        "space_zones (\<lambda>dn. case N dn of None \<Rightarrow> entries_space P files es' dn | Some rs \<Rightarrow> Some rs) zs'"
        using 1(1) [OF False e refl refl dn_def _ _ 1(4)] run 1(3) by auto
      have "N dn \<noteq> None" using Some space_zonesD(1) [OF 1(4), of dn] by simp
      then have "(case N d of None \<Rightarrow> entries_space P files ((name, path) # es') d | Some rs \<Rightarrow> Some rs) =
          (case N d of None \<Rightarrow> entries_space P files es' d | Some rs \<Rightarrow> Some rs)" for d
        by (auto simp flip: dn_def split: option.split)
      then show ?thesis using es es' by simp
    next
      case None
      obtain z where z: "zone_load P dn (files path) = Inr z"
        using 1(3) run None by (auto split: sum.splits)
      have l: "config_loop P files r (um_emplace dn z zs) = Inr zs'" using 1(3) run None z by simp
      obtain rs where rs: "zone_records P files dn path = Some rs" "zone_of dn rs z" "named rs dn TYPE_SOA \<noteq> []"
        using zone_load_records [of P dn files path z] z by blast
      have Zn: "N dn = None" using None space_zonesD(1) [OF 1(4), of dn] by simp
      have "space_zones (N(dn \<mapsto> rs)) (um_emplace dn z zs)"
        by (rule space_zones_put [OF 1(4) None rs(2,3)])
      then obtain es' where es': "config_entries r = Some es'"
        "space_zones (\<lambda>d. case (N(dn \<mapsto> rs)) d of None \<Rightarrow> entries_space P files es' d | Some rs \<Rightarrow> Some rs) zs'"
        using 1(2) [OF False e refl refl dn_def _ z l] None by blast
      have "(case N d of None \<Rightarrow> entries_space P files ((name, path) # es') d | Some rs \<Rightarrow> Some rs) =
          (case (N(dn \<mapsto> rs)) d of None \<Rightarrow> entries_space P files es' d | Some rs \<Rightarrow> Some rs)" for d
        using Zn rs(1) by (auto simp flip: dn_def split: option.split)
      then show ?thesis using es es' by simp
    qed
  qed
qed

lemma config_load_space:
  assumes "config_load P files s = Inr C"
  shows "space_zones (file_space P files s) (zones C)"
proof -
  obtain ip r where r: "scan_word 19 s = Some (ip, r)" "config_loop P files r [] = Inr (zones C)"
    using assms by (auto simp: config_load_def split: option.splits sum.splits)
  have "space_zones (\<lambda>_. None) []" by (simp add: space_zones_def)
  from config_loop_space [OF r(2) this] obtain es where "config_entries r = Some es" "space_zones (entries_space P files es) (zones C)"
    by auto
  then show ?thesis using r(1) by (simp add: file_space_def)
qed

section \<open>The closest zone\<close>

lemma zone_loop_spec:
  assumes "\<And>b. config_has C b \<longleftrightarrow> N b \<noteq> None"
  shows "zone_loop C dn = spec_zone N dn"
proof (induction dn rule: rev_induct)
  case Nil
  then show ?case by (simp add: spec_zone_def zone_loop.simps [of C "[]"])
next
  case (snoc l dn)
  then show ?case using assms [of "dn @ [l]"]
    by (simp add: spec_zone_def zone_search.find_snoc [of C dn l])
qed

section \<open>The sections\<close>

lemma key_eq: "key r = (d, t, c) \<longleftrightarrow> domain r = d \<and> qtype r = t \<and> clas r = c"
  by (simp add: key_def)

lemma zone_of_find:
  assumes "zone_of b rs z"
  shows "um_find (rrs z) k = (if filter (\<lambda>r. key r = k) rs = [] then None else Some (filter (\<lambda>r. key r = k) rs))"
proof -
  have "um_find (rrs z) k = zone_view rs k" using assms unfolding zone_of_def by blast
  then show ?thesis by (simp only: zone_view_def Let_def)
qed

lemma zone_of_lookups:
  assumes "zone_of b rs z"
  shows "zone_getIP z dn = addresses rs dn"
    and "zone_get_type z t CLAS_IN = (if named rs b t = [] then Inl NAME_ERROR else Inr (named rs b t))"
proof -
  have "zdomain z = b" using assms by (simp add: zone_of_def)
  then show "zone_getIP z dn = addresses rs dn"
    and "zone_get_type z t CLAS_IN = (if named rs b t = [] then Inl NAME_ERROR else Inr (named rs b t))"
    unfolding zone_getIP_def zone_get_type_def addresses_def named_def zone_of_find [OF assms] Let_def
    by (simp_all del: filter_empty_conv)
qed

lemma niplike_address:
  assumes "dn_under dn b"
  shows "niplike P dn b = (case address_name b dn of None \<Rightarrow> Inr []
    | Some quad4 \<Rightarrow> (case pton4 P (cstr quad4) of None \<Rightarrow> Inl FORMAT_ERROR
       | Some addr \<Rightarrow> Inr [\<lparr>domain = dn, qtype = TYPE_A, clas = CLAS_IN, ttl = 1, data = quad4, rdata = addr, datadn = []\<rparr>]))"
proof -
  obtain sub where dn: "dn = b @ sub" using assms by (auto simp: dn_under_iff)
  have "drop (length b) dn = sub" by (simp add: dn)
  then show ?thesis unfolding address_name_def dn niplike_spec
    by (auto split: list.split option.split)
qed

definition set_sections :: "Sections \<Rightarrow> Header \<Rightarrow> Header" where
  "set_sections S h = h\<lparr>AA := True, RD := True, RA := False, RCODE := s_rcode S, answer := s_answer S,
     authority := s_authority S, additional := s_additional S\<rparr>"

text \<open>What the clauses of \<^verbatim>\<open>query\<close> make of an exception.\<close>

definition exn_rcode :: "dns_exn option \<Rightarrow> Header \<Rightarrow> Header" where
  "exn_rcode r h = (case r of None \<Rightarrow> h | Some FORMAT_ERROR \<Rightarrow> h\<lparr>RCODE := 1\<rparr> | _ \<Rightarrow> h\<lparr>RCODE := 4\<rparr>)"

lemma found_sections:
  assumes z: "zone_of b rs z" and soa: "named rs b TYPE_SOA \<noteq> []"
    and empty: "answer h = []" "authority h = []" "additional h = []"
  shows "(let h1 = add_answers z an (h\<lparr>AA := True, RD := True, RA := False, RCODE := 0\<rparr>)
      in if t \<noteq> TYPE_NS
         then (case zone_get_type z TYPE_NS CLAS_IN of
                 Inl e \<Rightarrow> (if e = NAME_ERROR then name_error z h1 else (h1, Some e))
               | Inr ns \<Rightarrow> (h1\<lparr>authority := authority h1 @ ns\<rparr>, None))
         else (h1, None)) = (set_sections (with_answers rs b t an) h, None)"
  using soa empty unfolding add_answers_eq name_error_def zone_of_lookups [OF z] Let_def with_answers_def set_sections_def
  by simp

lemma answer_from_sections:
  assumes z: "zone_of b rs z" and soa: "named rs b TYPE_SOA \<noteq> []" and under: "dn_under (domain q) b"
    and empty: "answer h = []" "authority h = []" "additional h = []"
    and run: "answer_from P z q h = (h', r)"
  shows "r \<in> {None, Some FORMAT_ERROR, Some NOT_IMPLEMENTED} \<and> exn_rcode r h' = set_sections (spec_sections P rs b q) h"
proof -
  have zd: "zdomain z = b" using z by (simp add: zone_of_def)
  note found = found_sections [OF z soa empty, of _ "qtype q"]
  have negative: "name_error z (h\<lparr>AA := True, RD := True, RA := False, RCODE := 0\<rparr>) = (set_sections (no_answer 3 (named rs b TYPE_SOA)) h, None)"
    using soa empty unfolding name_error_def zone_of_lookups [OF z] Let_def no_answer_def set_sections_def by simp
  have bad: "exn_rcode (Some e) (h\<lparr>AA := True, RD := True, RA := False, RCODE := 0\<rparr>) = set_sections (no_answer (if e = FORMAT_ERROR then 1 else 4) []) h"
    if "e = FORMAT_ERROR \<or> e = NOT_IMPLEMENTED" for e
    using that empty by (auto simp: exn_rcode_def set_sections_def no_answer_def)
  have none: "exn_rcode None h1 = h1" for h1 by (simp add: exn_rcode_def)
  show ?thesis
  proof (cases "address_name b (domain q)")
    case (Some quad4)
    show ?thesis
    proof (cases "pton4 P (cstr quad4)")
      case None
      then have "zone_get P z q = Inl FORMAT_ERROR"
        using Some under zd by (simp add: zone_get_def niplike_address)
      then have "h' = h\<lparr>AA := True, RD := True, RA := False, RCODE := 0\<rparr>" "r = Some FORMAT_ERROR"
        using run by (simp_all add: answer_from_def Let_def)
      then show ?thesis using bad [of FORMAT_ERROR] Some None by (simp add: spec_sections_def)
    next
      case (Some addr)
      define rr where "rr = \<lparr>domain = domain q, qtype = TYPE_A, clas = CLAS_IN, ttl = 1, data = quad4, rdata = addr, datadn = []\<rparr>"
      have get: "zone_get P z q = Inr [rr]"
        using Some \<open>address_name b (domain q) = Some quad4\<close> under zd by (simp add: zone_get_def niplike_address rr_def)
      have "(h', r) = (set_sections (with_answers rs b (qtype q) [rr]) h, None)"
        using run found [of "[rr]"] unfolding answer_from_def get Let_def by simp
      moreover have "spec_sections P rs b q = with_answers rs b (qtype q) [rr]"
        using Some \<open>address_name b (domain q) = Some quad4\<close> by (simp add: spec_sections_def rr_def)
      ultimately show ?thesis using none by simp
    qed
  next
    case addr: None
    show ?thesis
    proof (cases "type_known (qtype q)")
      case False
      then have "zone_get P z q = Inl NOT_IMPLEMENTED" using addr under zd by (simp add: zone_get_def niplike_address)
      then have "h' = h\<lparr>AA := True, RD := True, RA := False, RCODE := 0\<rparr>" "r = Some NOT_IMPLEMENTED"
        using run by (simp_all add: answer_from_def Let_def)
      then show ?thesis using bad [of NOT_IMPLEMENTED] addr False by (simp add: spec_sections_def)
    next
      case True
      define an where "an = filter (\<lambda>r. key r = key q) rs"
      have get: "zone_get P z q = (if an = [] then Inl NAME_ERROR else Inr an)"
        using addr under zd True unfolding zone_get_def niplike_address [OF under [folded zd]] zone_of_find [OF z] an_def
        by (simp del: filter_empty_conv)
      have "spec_sections P rs b q = (if an = [] then no_answer 3 (named rs b TYPE_SOA) else with_answers rs b (qtype q) an)"
        using addr True unfolding spec_sections_def an_def Let_def by (simp del: filter_empty_conv)
      moreover have "(h', r) = (set_sections (if an = [] then no_answer 3 (named rs b TYPE_SOA) else with_answers rs b (qtype q) an) h, None)"
        using run found [of an] negative unfolding answer_from_def get Let_def by (cases "an = []") simp_all
      ultimately show ?thesis using none by simp
    qed
  qed
qed

section \<open>The message\<close>

lemma word4_cases: "w = 0 \<or> w = 1 \<or> list_ex (\<lambda>n. w = word_of_nat n) [2..<16]" for w :: "4 word"
proof -
  define n where "n = unat w"
  have "n < 16" "w = word_of_nat n" using unsigned_less [of w] by (simp_all add: n_def)
  then have "w = 0 \<or> w = 1 \<or> (\<exists>k\<in>set [2..<16]. w = word_of_nat k)"
    by (cases "n < 2") (force simp del: upt_rec_numeral simp: less_2_cases_iff)+
  then show ?thesis unfolding list_ex_iff .
qed

lemma flag_sums:
  "unat (of_bool rd OR push_bit 1 (of_bool tc) OR push_bit 2 (of_bool aa) OR push_bit 3 (ucast (op :: 4 word)) OR push_bit 7 (of_bool True) :: 8 word)
     = 128 + 8 * unat op + 4 * of_bool aa + 2 * of_bool tc + of_bool rd"
  using word4_cases [of op] by (cases rd; cases tc; cases aa) auto

lemma flag_sums':
  "unat (ucast (rc :: 4 word) OR push_bit 4 (ucast (0 :: 3 word)) OR push_bit 7 (of_bool ra) :: 8 word) = 128 * of_bool ra + unat rc"
  using word4_cases [of rc] by (cases ra) auto

lemma flag_bytes_value:
  assumes "QR h" and "Z h = 0"
  shows "unat (flag_byte2 h) = 128 + 8 * unat (Opcode h) + 4 * of_bool (AA h) + 2 * of_bool (TC h) + of_bool (RD h)"
    and "unat (flag_byte3 h) = 128 * of_bool (RA h) + unat (RCODE h)"
  using assms flag_sums flag_sums' unfolding flag_byte2_def flag_byte3_def by simp_all

lemma num16_be16: "be16 w = num16 (unat w)"
proof -
  have "unat w < 65536" using unsigned_less [of w] by simp
  then have "unat w div 256 < 256" by linarith
  then have "unat w div 256 mod 256 = unat w div 256" by (rule mod_less)
  then show ?thesis by (simp only: be16_def num16_def)
qed

lemma num16_word: "num16 (unat (word_of_nat n :: 16 word)) = num16 n"
proof -
  have u: "unat (word_of_nat n :: 16 word) = 256 * (n div 256 mod 256) + n mod 256"
    using mod_mult2_eq [of n 256 256] by (simp add: unat_of_nat)
  have "(256 * (n div 256 mod 256) + n mod 256) div 256 = n div 256 mod 256"
    and "(256 * (n div 256 mod 256) + n mod 256) mod 256 = n mod 256" by simp_all
  then show ?thesis unfolding u num16_def by simp
qed

lemma num16_bytes:
  assumes "a < 256" and "b < 256"
  shows "num16 (256 * a + b) = [char_of a, char_of b]"
proof -
  have "(256 * a + b) div 256 = a" "(256 * a + b) mod 256 = b" "a mod 256 = a" using assms by simp_all
  then show ?thesis by (simp only: num16_def)
qed

lemma fixed_part:
  assumes "QR h" and "Z h = 0"
  shows "[unbyte (flag_byte2 h), unbyte (flag_byte3 h)] = num16 (spec_flags \<lparr>m_id = i, m_opcode = Opcode h, m_aa = AA h,
    m_tc = TC h, m_rd = RD h, m_ra = RA h, m_questions = qs, m_sections = S\<lparr>s_rcode := RCODE h\<rparr>\<rparr>)"
proof -
  have "unat (flag_byte2 h) < 256" "unat (flag_byte3 h) < 256"
    using unsigned_less [of "flag_byte2 h"] unsigned_less [of "flag_byte3 h"] by simp_all
  from num16_bytes [OF this] have "[unbyte (flag_byte2 h), unbyte (flag_byte3 h)] =
      num16 (256 * unat (flag_byte2 h) + unat (flag_byte3 h))" by (simp add: unbyte_def)
  then show ?thesis unfolding flag_bytes_value [OF assms] by (simp add: spec_flags_def algebra_simps)
qed

lemma header_dump_wire:
  "snd (header_dump h) = spec_wire \<lparr>m_id = ID h, m_opcode = Opcode h, m_aa = AA h, m_tc = TC h, m_rd = RD h, m_ra = RA h,
     m_questions = question h, m_sections = \<lparr>s_rcode = RCODE h, s_answer = answer h, s_authority = authority h, s_additional = additional h\<rparr>\<rparr>"
proof -
  have "QR (dump_counts h)" "Z (dump_counts h) = 0" by (simp_all add: dump_counts_def)
  note f = fixed_part [OF this, of "ID h" "question h" "\<lparr>s_rcode = 0, s_answer = answer h, s_authority = authority h, s_additional = additional h\<rparr>"]
  show ?thesis unfolding header_dump_def header_fixed_def Let_def snd_conv f
    by (simp add: spec_wire_def num16_be16 [symmetric]) (simp add: dump_counts_def num16_be16 num16_word)
qed

section \<open>From the files to the reply\<close>

lemma parse_questions_length: "parse_questions n p = Some (qs, r) \<Longrightarrow> length qs = n"
  by (induction n arbitrary: p qs r) (auto split: Option.bind_splits prod.splits)

lemma header_parse_parts:
  assumes "header_parse msg h0 = Some h"
  shows "unat (QDCOUNT h) = length (question h)" "answer h = []" "authority h = []" "additional h = []"
  using assms by (auto simp: header_parse_def Let_def split: if_splits option.splits dest!: parse_questions_length)

lemma dns_query:
  assumes "config_load P files s = Inr C"
  shows "query P C upstream datagram =
    map_option (spec_reply P (file_space P files s) upstream datagram) (header_parse (datagram @ [NUL]) new_header)"
proof (cases "header_parse (datagram @ [NUL]) new_header")
  case None
  then show ?thesis by (simp add: query_def)
next
  case (Some h)
  define N where "N = file_space P files s"
  have space: "space_zones N (zones C)" using config_load_space [OF assms] by (simp add: N_def)
  note h = header_parse_parts [OF Some]
  have one: "QDCOUNT h = 1 \<longleftrightarrow> length (question h) = 1" using h(1) by (simp add: word_unat_eq_iff)
  show ?thesis
  proof (cases "length (question h) = 1")
    case False
    then have "query P C upstream datagram = Some (snd (header_dump (h\<lparr>RCODE := 4\<rparr>)))"
      using Some one by (simp add: query_def query_header_def)
    also have "\<dots> = Some (spec_reply P N upstream datagram h)"
      using False h unfolding header_dump_wire spec_reply_def by (auto simp: no_answer_def split: list.split)
    finally show ?thesis using Some by (simp add: N_def)
  next
    case True
    then obtain q where q: "question h = [q]" by (auto simp: length_Suc_conv)
    have z: "zone_loop C (domain q) = spec_zone N (domain q)"
      by (rule zone_loop_spec) (use space_zonesD(1) [OF space] in \<open>simp add: config_has_def\<close>)
    show ?thesis
    proof (cases "spec_zone N (domain q)")
      case None
      then show ?thesis using Some True one q z
        by (simp add: query_def query_header_def forward_def spec_reply_def N_def)
    next
      case (Some b)
      then have b: "zone_loop C (domain q) = Some b" using z by simp
      then have "b \<noteq> []" "config_has C b" "dn_under (domain q) b"
        using zone_search.find_Some [of C "domain q" b] by (auto simp: dn_under_iff)
      then obtain rs where rs: "N b = Some rs" using space_zonesD(1) [OF space, of b] by (auto simp: config_has_def)
      obtain zn where zn: "config_get C b = Some zn" "zone_of b rs zn" "named rs b TYPE_SOA \<noteq> []"
        using space_zonesD(2) [OF space rs] by (auto simp: config_get_def)
      obtain h' r where run: "answer_from P zn q h = (h', r)" by fastforce
      have s: "r \<in> {None, Some FORMAT_ERROR, Some NOT_IMPLEMENTED}" "exn_rcode r h' = set_sections (spec_sections P rs b q) h"
        using answer_from_sections [OF zn(2,3) \<open>dn_under (domain q) b\<close> h(2,3,4) run] by simp_all
      have "query P C upstream datagram = Some (snd (header_dump (exn_rcode r h')))"
        using \<open>header_parse (datagram @ [NUL]) new_header = Some h\<close> one True q b zn(1) run s(1)
        by (cases "header_dump h'") (auto simp: query_def query_header_def exn_rcode_def)
      also have "\<dots> = Some (spec_reply P N upstream datagram h)"
        using q Some rs unfolding header_dump_wire s(2) spec_reply_def
        by (cases "spec_sections P rs b q") (simp add: set_sections_def)
      finally show ?thesis using \<open>header_parse (datagram @ [NUL]) new_header = Some h\<close> by (simp add: N_def)
    qed
  qed
qed

text \<open>
  C12. The whole server, from its files to the bytes it sends: once the configuration is loaded, every
  datagram that can be read is answered with the message the specification says, written as the
  protocol lays it out, and one that cannot be read is undefined. The specification sees the lists of
  records in the files; it has no table, no header that is changed in place and no exception.
\<close>

theorem dns_refines:
  assumes "config_load P files s = Inr C"
  shows "query P C upstream datagram =
    map_option (spec_reply P (file_space P files s) upstream datagram) (header_parse (datagram @ [NUL]) new_header)"
  using assms by (rule dns_query)

theorem dns_refines_witness:
  "query demo_platform demo_cfg id ''short'' = None \<and>
   query demo_platform demo_cfg id (header_fixed (new_header\<lparr>ID := 7, QDCOUNT := 1\<rparr>) @ question_dump (new_question [''o'', ''e''] TYPE_MX CLAS_IN))
     = map_option (spec_reply demo_platform (file_space demo_platform demo_files demo_config) id
         (header_fixed (new_header\<lparr>ID := 7, QDCOUNT := 1\<rparr>) @ question_dump (new_question [''o'', ''e''] TYPE_MX CLAS_IN)))
       (header_parse ((header_fixed (new_header\<lparr>ID := 7, QDCOUNT := 1\<rparr>) @ question_dump (new_question [''o'', ''e''] TYPE_MX CLAS_IN)) @ [NUL]) new_header)"
  using dns_refines [OF demo_load, of id "''short''"] dns_refines [OF demo_load]
  by (simp add: header_parse_def MSG_SIZE_def)

end
