(* ===== verification/DnsReader.thy ===== *)
theory DnsReader
  imports DnsSpec
begin

text \<open>
  The other side of the DNS server: a reader of replies as the protocol describes them, with the resource
  records that \<^verbatim>\<open>Header::parse\<close> leaves unread. What the server sends, it reads back (\<open>reply_readable\<close>).
\<close>

section \<open>Reading records\<close>

text \<open>What the wire carries of a record: name, type, class, time to live, data.\<close>

type_synonym wire_record = "DN \<times> RRTYPE \<times> CLAS \<times> 32 word \<times> string"

definition wire_fields :: "Record \<Rightarrow> wire_record" where
  "wire_fields r = (domain r, qtype r, clas r, ttl r, rdata r)"

definition wire_ok :: "wire_record \<Rightarrow> bool" where
  "wire_ok w \<longleftrightarrow> (case w of (d, t, c, l, rd) \<Rightarrow> dn_ok d \<and> length rd < 65536)"

definition dump_fields :: "wire_record \<Rightarrow> string" where
  "dump_fields w = (case w of (d, t, c, l, rd) \<Rightarrow> dn2data d @ be16 t @ be16 c @ be32 l @ num16 (length rd) @ rd)"

fun read32 :: "string \<Rightarrow> (32 word \<times> string) option" where
  "read32 (a # b # c # d # r) = Some (word_of_nat (((of_char a * 256 + of_char b) * 256 + of_char c) * 256 + of_char d), r)"
| "read32 _ = None"

definition read_bytes :: "nat \<Rightarrow> string \<Rightarrow> (string \<times> string) option" where
  "read_bytes n p = (if length p < n then None else Some (take n p, drop n p))"

definition read_record :: "string \<Rightarrow> (wire_record \<times> string) option" where
  "read_record p = do {
     (d, p) \<leftarrow> data2dn p;
     (t, p) \<leftarrow> data2uint16 p;
     (c, p) \<leftarrow> data2uint16 p;
     (l, p) \<leftarrow> read32 p;
     (n, p) \<leftarrow> data2uint16 p;
     (rd, p) \<leftarrow> read_bytes (unat n) p;
     Some ((d, t, c, l, rd), p) }"

interpretation u32: codec be32 read32 "\<lambda>_. True"
proof
  fix x :: "32 word" and rest
  define n where "n = unat x"
  have n: "n < 2 ^ 32" unfolding n_def using unsigned_less [of x] by simp
  have a: "n div 16777216 = n div 65536 div 256" "n div 65536 = n div 256 div 256" by (simp_all add: div_mult2_eq [symmetric])
  have b: "n div 16777216 < 256" using n by (simp add: div_less_iff_less_mult)
  have "((n div 16777216 * 256 + n div 65536 mod 256) * 256 + n div 256 mod 256) * 256 + n mod 256 = n"
    unfolding a by (simp only: div_mult_mod_eq)
  then show "read32 (be32 x @ rest) = Some (x, rest)"
    using b by (simp add: be32_def n_def [symmetric]) (simp add: n_def)
qed

interpretation record_wire: codec dump_fields read_record wire_ok
proof
  fix w :: wire_record and rest
  assume ok: "wire_ok w"
  obtain d t c l rd where w: "w = (d, t, c, l, rd)" by (cases w)
  have d: "dn_ok d" and n: "length rd < 65536" using ok w by (simp_all add: wire_ok_def)
  have "num16 (length rd) = be16 (word_of_nat (length rd))" by (simp add: num16_be16 num16_word)
  moreover have "unat (word_of_nat (length rd) :: 16 word) = length rd" using n by (simp add: unat_of_nat)
  ultimately show "read_record (dump_fields w @ rest) = Some (w, rest)"
    by (simp add: w read_record_def dump_fields_def dn_wire.dec_enc d u16.dec_enc u32.dec_enc read_bytes_def)
qed

lemma record_dump_fields: "record_dump r = dump_fields (wire_fields r)"
  by (simp add: record_dump_def dump_fields_def wire_fields_def num16_be16 num16_word)

section \<open>Reading messages\<close>

text \<open>Identifier, flags, questions, and the records of the three sections.\<close>

definition read_message :: "string \<Rightarrow>
    (16 word \<times> 16 word \<times> Question list \<times> wire_record list \<times> wire_record list \<times> wire_record list) option" where
  "read_message p = do {
     (i, p) \<leftarrow> data2uint16 p;
     (f, p) \<leftarrow> data2uint16 p;
     (qd, p) \<leftarrow> data2uint16 p;
     (an, p) \<leftarrow> data2uint16 p;
     (ns, p) \<leftarrow> data2uint16 p;
     (ar, p) \<leftarrow> data2uint16 p;
     (qs, p) \<leftarrow> question_wire.dec_many (unat qd) p;
     (an, p) \<leftarrow> record_wire.dec_many (unat an) p;
     (ns, p) \<leftarrow> record_wire.dec_many (unat ns) p;
     (ar, p) \<leftarrow> record_wire.dec_many (unat ar) p;
     if p = [] then Some (i, f, qs, an, ns, ar) else None }"

definition message_ok :: "Msg \<Rightarrow> bool" where
  "message_ok m \<longleftrightarrow> (let s = m_sections m in
     length (m_questions m) < 65536 \<and> list_all (\<lambda>q. dn_ok (domain q)) (m_questions m) \<and>
     length (s_answer s) < 65536 \<and> length (s_authority s) < 65536 \<and> length (s_additional s) < 65536 \<and>
     list_all (\<lambda>r. wire_ok (wire_fields r)) (s_answer s @ s_authority s @ s_additional s))"

lemma read_num16: "data2uint16 (num16 n @ rest) = Some (word_of_nat n, rest)"
proof -
  have "num16 n = be16 (word_of_nat n)" by (simp add: num16_be16 num16_word)
  then show ?thesis by (simp add: u16.dec_enc)
qed

lemma read_records:
  assumes "list_all (\<lambda>r. wire_ok (wire_fields r)) rs" and "length rs < 65536"
  shows "record_wire.dec_many (unat (word_of_nat (length rs) :: 16 word)) (concat (map record_dump rs) @ rest)
    = Some (map wire_fields rs, rest)"
proof -
  have "record_wire.dec_many (length (map wire_fields rs)) (concat (map dump_fields (map wire_fields rs)) @ rest)
      = Some (map wire_fields rs, rest)"
    by (rule record_wire.dec_many_enc) (use assms(1) in \<open>simp add: list_all_iff\<close>)
  moreover have "map dump_fields (map wire_fields rs) = map record_dump rs" by (simp add: record_dump_fields)
  moreover have "unat (word_of_nat (length rs) :: 16 word) = length rs" using assms(2) by (simp add: unat_of_nat)
  ultimately show ?thesis by (metis length_map)
qed

lemma read_spec_wire:
  assumes "message_ok m"
  shows "read_message (spec_wire m) = Some (m_id m, word_of_nat (spec_flags m), m_questions m,
    map wire_fields (s_answer (m_sections m)), map wire_fields (s_authority (m_sections m)),
    map wire_fields (s_additional (m_sections m)))"
proof -
  define s where "s = m_sections m"
  note ok = assms [unfolded message_ok_def Let_def, folded s_def]
  have qd: "unat (word_of_nat (length (m_questions m)) :: 16 word) = length (m_questions m)" using ok by (simp add: unat_of_nat)
  have qs: "question_wire.dec_many (length (m_questions m)) (concat (map question_dump (m_questions m)) @ rest)
      = Some (m_questions m, rest)" for rest
    using ok by (intro question_wire.dec_many_enc) simp
  have rs: "record_wire.dec_many (unat (word_of_nat (length xs) :: 16 word)) (concat (map record_dump xs) @ rest) = Some (map wire_fields xs, rest)"
    if "xs \<in> {s_answer s, s_authority s, s_additional s}" for xs rest
    using that ok by (intro read_records) auto
  have last: "record_wire.dec_many (unat (word_of_nat (length (s_additional s)) :: 16 word)) (concat (map record_dump (s_additional s)))
      = Some (map wire_fields (s_additional s), [])"
    using rs [of "s_additional s" "[]"] by simp
  have "(word_of_nat (unat (m_id m)) :: 16 word) = m_id m" by simp
  then show ?thesis
    by (simp add: spec_wire_def read_message_def s_def [symmetric] Let_def read_num16 qd qs rs last)
qed

section \<open>The records of a reply\<close>

lemma named_subset: "set (named rs dn t) \<subseteq> set rs"
  by (auto simp: named_def)

lemma addresses_subset: "set (addresses rs dn) \<subseteq> set rs"
  by (auto simp: addresses_def named_def)

definition section_records :: "Sections \<Rightarrow> Record set" where
  "section_records S = set (s_answer S) \<union> set (s_authority S) \<union> set (s_additional S)"

lemma with_answers_from: "section_records (with_answers rs b t an) \<subseteq> set an \<union> set rs"
  by (auto simp: section_records_def with_answers_def Let_def dest: named_subset [THEN subsetD] addresses_subset [THEN subsetD]
      split: if_splits)

lemma no_answer_from: "section_records (no_answer rc au) = set au"
  by (simp add: section_records_def no_answer_def)

text \<open>Every record of a reply is one of the zone's file, or the one made for the name of an address.\<close>

lemma sections_from:
  "section_records (spec_sections P rs b q) \<subseteq> set rs \<union> {r. domain r = domain q \<and> (\<exists>s. pton4 P s = Some (rdata r))}"
proof (cases "address_name b (domain q)")
  case (Some adr)
  show ?thesis
  proof (cases "pton4 P (cstr adr)")
    case None
    then show ?thesis using Some by (simp add: spec_sections_def no_answer_from)
  next
    case (Some a)
    define rr where "rr = \<lparr>domain = domain q, qtype = TYPE_A, clas = CLAS_IN, ttl = 1, data = adr, rdata = a, datadn = []\<rparr>"
    have "spec_sections P rs b q = with_answers rs b (qtype q) [rr]"
      using Some \<open>address_name b (domain q) = Some adr\<close> by (simp add: spec_sections_def rr_def)
    moreover have "domain rr = domain q" "pton4 P (cstr adr) = Some (rdata rr)" using Some by (simp_all add: rr_def)
    ultimately show ?thesis using with_answers_from [of rs b "qtype q" "[rr]"] by auto
  qed
next
  case None
  define an where "an = filter (\<lambda>r. key r = key q) rs"
  have "spec_sections P rs b q = (if \<not> type_known (qtype q) then no_answer 4 []
      else if an = [] then no_answer 3 (named rs b TYPE_SOA) else with_answers rs b (qtype q) an)"
    unfolding spec_sections_def None an_def Let_def by simp
  moreover have "set an \<subseteq> set rs" by (auto simp: an_def)
  ultimately show ?thesis using named_subset [of rs b TYPE_SOA] with_answers_from [of rs b "qtype q" an]
    by (auto simp: no_answer_from)
qed

lemma sections_ok:
  assumes rs: "\<forall>r\<in>set rs. wire_ok (wire_fields r)" and q: "dn_ok (domain q)" and "pton_ok P"
  shows "list_all (\<lambda>r. wire_ok (wire_fields r)) (s_answer (spec_sections P rs b q) @ s_authority (spec_sections P rs b q)
    @ s_additional (spec_sections P rs b q))"
  unfolding list_all_iff
proof
  fix r assume "r \<in> set (s_answer (spec_sections P rs b q) @ s_authority (spec_sections P rs b q) @ s_additional (spec_sections P rs b q))"
  then have "r \<in> section_records (spec_sections P rs b q)" by (simp add: section_records_def)
  then have "r \<in> set rs \<or> (domain r = domain q \<and> (\<exists>s. pton4 P s = Some (rdata r)))" using sections_from by blast
  then show "wire_ok (wire_fields r)"
    using rs q assms(3) by (auto simp: wire_ok_def wire_fields_def pton_ok_def)
qed

text \<open>
  C13. What a client reads: the reply to a question about a name below a configured zone is, for a reader of
  the protocol, a message with the identifier of the query, the flags of the protocol, the question, and
  section by section the records that the specification selects from the zone's file, with their types,
  classes, times and data, and nothing behind them. The records of the file must fit the wire.
\<close>

theorem reply_readable:
  assumes C: "config_load P files s = Inr C" and P: "pton_ok P"
    and parse: "header_parse (datagram @ [NUL]) new_header = Some h" and q: "question h = [q]" "dn_ok (domain q)"
    and b: "spec_zone (file_space P files s) (domain q) = Some b" "file_space P files s b = Some rs"
    and rs: "\<forall>r\<in>set rs. wire_ok (wire_fields r)"
    and S: "S = spec_sections P rs b q" "length (s_answer S) < 65536" "length (s_authority S) < 65536" "length (s_additional S) < 65536"
  shows "\<exists>reply. query P C upstream datagram = Some reply \<and>
    read_message reply = Some (ID h, word_of_nat (spec_flags \<lparr>m_id = ID h, m_opcode = Opcode h, m_aa = True, m_tc = TC h,
        m_rd = True, m_ra = False, m_questions = [q], m_sections = S\<rparr>), [q],
      map wire_fields (s_answer S), map wire_fields (s_authority S), map wire_fields (s_additional S))"
proof -
  define m where "m = \<lparr>m_id = ID h, m_opcode = Opcode h, m_aa = True, m_tc = TC h, m_rd = True, m_ra = False,
    m_questions = [q], m_sections = S\<rparr>"
  have "query P C upstream datagram = Some (spec_wire m)"
    using dns_query [OF C, of upstream datagram] parse q b by (simp add: spec_reply_def m_def S(1))
  moreover have "message_ok m"
    using sections_ok [OF rs q(2) P, of b] S(2-4) q(2) by (simp add: message_ok_def m_def S(1) [symmetric])
  ultimately show ?thesis using read_spec_wire [of m] by (simp add: m_def)
qed

section \<open>The small configuration\<close>

lemma demo_pton: "pton_ok demo_platform"
  by (auto simp: pton_ok_def demo_platform_def quad_def Let_def split: if_splits)

lemma demo_space: "space_zones (file_space demo_platform demo_files demo_config) (zones demo_cfg)"
  by (rule config_load_space [OF demo_load])

lemma demo_records: "file_space demo_platform demo_files demo_config [''o'', ''e''] = Some [demo_soa ''e'', demo_ns, demo_a, demo_mx]"
proof -
  have 1: "config_entries ([LF] @ ''e.o.,z.txt'' @ [LF] @ ''n.o.,y.txt'' @ [LF])
      = map_option (Cons (''e.o.'', ''z.txt'')) (config_entries ([LF] @ ''n.o.,y.txt'' @ [LF]))"
    by (subst config_entries.simps)
      (simp add: scan_entry_def scan_word_def scan_set_def isspace_def COMMA_def Let_def)
  have 2: "config_entries ([LF] @ ''n.o.,y.txt'' @ [LF]) = map_option (Cons (''n.o.'', ''y.txt'')) (config_entries [LF])"
    by (subst config_entries.simps)
      (simp add: scan_entry_def scan_word_def scan_set_def isspace_def COMMA_def Let_def)
  have 3: "config_entries [LF] = Some []" by (subst config_entries.simps) (simp add: isspace_def)
  have "scan_word 19 demo_config = Some (''8.8.8.8'', [LF] @ ''e.o.,z.txt'' @ [LF] @ ''n.o.,y.txt'' @ [LF])"
    by (simp add: scan_word_def scan_set_def isspace_def demo_config_def Let_def)
  moreover have "line_records demo_platform [''o'', ''e''] (tl (file_lines (demo_files ''z.txt''))) = Inr [demo_soa ''e'', demo_ns, demo_a, demo_mx]"
    by (simp add: demo_files_def file_lines_def chomp_def dns_eval demo_defs)
  ultimately show ?thesis
    using 1 2 3 by (simp add: file_space_def s2dn_def demo_platform_def zone_records_def)
qed

lemma demo_closest: "spec_zone (file_space demo_platform demo_files demo_config) [''o'', ''e''] = Some [''o'', ''e'']"
proof -
  have "zone_loop demo_cfg dn = spec_zone (file_space demo_platform demo_files demo_config) dn" for dn
    by (rule zone_loop_spec) (use space_zonesD(1) [OF demo_space] in \<open>simp add: config_has_def\<close>)
  then show ?thesis using demo_zone_loop(2) by metis
qed

lemma demo_wire: "\<forall>r\<in>set [demo_soa ''e'', demo_ns, demo_a, demo_mx]. wire_ok (wire_fields r)"
  by (simp add: wire_ok_def wire_fields_def dn_ok_def dn2data_def be16_def be32_def demo_defs)

lemma demo_sections:
  "spec_sections demo_platform [demo_soa ''e'', demo_ns, demo_a, demo_mx] [''o'', ''e''] (new_question [''o'', ''e''] TYPE_MX CLAS_IN)
     = \<lparr>s_rcode = 0, s_answer = [demo_mx], s_authority = [demo_ns], s_additional = [demo_a]\<rparr>"
  by (simp add: spec_sections_def address_name_def new_question_def type_known_def type_entries_def key_def with_answers_def
      named_def addresses_def type_defs demo_defs Let_def)

theorem reply_readable_witness:
  "\<exists>reply f. query demo_platform demo_cfg id
       (header_fixed (new_header\<lparr>ID := 7, QDCOUNT := 1\<rparr>) @ question_dump (new_question [''o'', ''e''] TYPE_MX CLAS_IN)) = Some reply
     \<and> read_message reply = Some (7, f, [new_question [''o'', ''e''] TYPE_MX CLAS_IN],
         [wire_fields demo_mx], [wire_fields demo_ns], [wire_fields demo_a])"
proof -
  let ?q = "new_question [''o'', ''e''] TYPE_MX CLAS_IN" and ?hq = "new_header\<lparr>ID := 7, QDCOUNT := 1\<rparr>"
  have q: "dn_ok (domain ?q)" "domain ?q = [''o'', ''e'']" by (simp_all add: new_question_def dn_ok_def)
  obtain h where h: "header_parse ((header_fixed ?hq @ question_dump ?q) @ [NUL]) new_header = Some h" "ID h = 7" "question h = [?q]"
    using parse_query [OF q(1), of ?hq "[]"] by auto
  let ?S = "\<lparr>s_rcode = 0, s_answer = [demo_mx], s_authority = [demo_ns], s_additional = [demo_a]\<rparr>"
  have "\<exists>reply. query demo_platform demo_cfg id (header_fixed ?hq @ question_dump ?q) = Some reply \<and>
    read_message reply = Some (ID h, word_of_nat (spec_flags \<lparr>m_id = ID h, m_opcode = Opcode h, m_aa = True, m_tc = TC h,
        m_rd = True, m_ra = False, m_questions = [?q], m_sections = ?S\<rparr>), [?q],
      map wire_fields (s_answer ?S), map wire_fields (s_authority ?S), map wire_fields (s_additional ?S))"
  proof (rule reply_readable [OF demo_load demo_pton h(1,3) q(1)])
    show "spec_zone (file_space demo_platform demo_files demo_config) (domain ?q) = Some [''o'', ''e'']"
      unfolding q(2) by (rule demo_closest)
    show "file_space demo_platform demo_files demo_config [''o'', ''e''] = Some [demo_soa ''e'', demo_ns, demo_a, demo_mx]"
      by (rule demo_records)
    show "\<forall>r\<in>set [demo_soa ''e'', demo_ns, demo_a, demo_mx]. wire_ok (wire_fields r)" by (rule demo_wire)
    show "?S = spec_sections demo_platform [demo_soa ''e'', demo_ns, demo_a, demo_mx] [''o'', ''e''] ?q"
      by (rule demo_sections [symmetric])
  qed simp_all
  then show ?thesis using h(2) by auto
qed

end
