(* ===== verification/Sudoku.thy ===== *)
theory Sudoku
  imports Prelude
begin

text \<open>
  The Sudoku solver (\<^verbatim>\<open>Lab/9/UNIX Domain Sudoku/solver.cpp\<close>): reading the board out of the server's
  reply, the test \<^verbatim>\<open>valid\<close>, the backtracking search \<^verbatim>\<open>dfs\<close>, which changes the board in place, and
  the moves sent back. An index outside an array is undefined and gives \<open>None\<close>; the theorems
  show that it does not occur for a board of digits.
\<close>

type_synonym Board = "nat list list"

section \<open>The program\<close>

definition n2c :: "nat \<Rightarrow> char" where
  "n2c x = (if x \<noteq> 0 then char_of (x + 48) else CHR ''.'')"

text \<open>\<^verbatim>\<open>size_t(c - '0')\<close>: the difference of a signed character, taken modulo \<open>2 ^ 64\<close>.\<close>

definition c2n :: "char \<Rightarrow> nat" where
  "c2n c = (if c = CHR ''.'' then 0
     else let v = int (of_char c) in nat (((if v < 128 then v else v - 256) - 48) mod 2 ^ 64))"

text \<open>Counting the entries of a line in \<^verbatim>\<open>std::array<size_t,10>\<close>.\<close>

fun count_line :: "nat list \<Rightarrow> nat list \<Rightarrow> nat list option" where
  "count_line cnt [] = Some cnt"
| "count_line cnt (v # vs) = (if v < 10 then count_line (cnt[v := cnt ! v + 1]) vs else None)"

definition line_ok :: "nat list \<Rightarrow> bool option" where
  "line_ok vs = (case count_line (replicate 10 0) vs of None \<Rightarrow> None
     | Some cnt \<Rightarrow> Some (\<not> foldl max 0 (cnt[0 := 0]) > 1))"

text \<open>The three loops, with the return at the first line that repeats a digit.\<close>

fun lines_ok :: "nat list list \<Rightarrow> bool option" where
  "lines_ok [] = Some True"
| "lines_ok (l # ls) =
     (case line_ok l of None \<Rightarrow> None | Some b \<Rightarrow> if \<not> b then Some False else lines_ok ls)"

definition row_of :: "Board \<Rightarrow> nat \<Rightarrow> nat list" where
  "row_of mp i = map (\<lambda>j. mp ! i ! j) [0..<9]"

definition col_of :: "Board \<Rightarrow> nat \<Rightarrow> nat list" where
  "col_of mp i = map (\<lambda>j. mp ! j ! i) [0..<9]"

definition box_of :: "Board \<Rightarrow> nat \<Rightarrow> nat list" where
  "box_of mp i = (let ix = i div 3; iy = i mod 3
     in map (\<lambda>j. let jx = j div 3; jy = j mod 3 in mp ! (ix * 3 + jx) ! (iy * 3 + jy)) [0..<9])"

definition valid :: "Board \<Rightarrow> bool option" where
  "valid mp = lines_ok (map (row_of mp) [0..<9] @ map (col_of mp) [0..<9] @ map (box_of mp) [0..<9])"

definition set_cell :: "Board \<Rightarrow> nat \<Rightarrow> nat \<Rightarrow> Board" where
  "set_cell mp k x = (let i = k div 9; j = k mod 9 in mp[i := (mp ! i)[j := x]])"

text \<open>\<^verbatim>\<open>dfs\<close> and its loop over \<open>x\<close>: the result and the board as it is left.\<close>

function dfs :: "nat \<Rightarrow> Board \<Rightarrow> (bool \<times> Board) option"
  and dfs_for :: "nat \<Rightarrow> nat \<Rightarrow> Board \<Rightarrow> (bool \<times> Board) option" where
  "dfs k mp =
     (if k = 81 then Some (True, mp)
      else if k > 81 then None
      else let i = k div 9; j = k mod 9
           in if mp ! i ! j \<noteq> 0 then dfs (k + 1) mp else dfs_for k 1 mp)"
| "dfs_for k x mp =
     (if k \<ge> 81 then None
      else if x \<le> 9 then
        (let mp1 = set_cell mp k x
         in case valid mp1 of None \<Rightarrow> None
            | Some v \<Rightarrow>
               if v then (case dfs (k + 1) mp1 of None \<Rightarrow> None
                            | Some (b, mp2) \<Rightarrow> if b then Some (True, mp2) else dfs_for k (x + 1) mp2)
               else dfs_for k (x + 1) mp1)
      else Some (False, set_cell mp k 0))"
  by pat_completeness auto
termination
  by (relation "measures [\<lambda>a. case a of Inl (k, mp) \<Rightarrow> 81 - k | Inr (k, x, mp) \<Rightarrow> 81 - k,
        \<lambda>a. case a of Inl _ \<Rightarrow> 20 | Inr (k, x, mp) \<Rightarrow> 10 - x]") auto

declare dfs.simps [simp del] dfs_for.simps [simp del]

text \<open>\<^verbatim>\<open>solve\<close>; \<open>Some None\<close> is the exit through \<^verbatim>\<open>fail\<close>.\<close>

definition solve :: "Board \<Rightarrow> Board option option" where
  "solve mp = (case dfs 0 mp of None \<Rightarrow> None | Some (b, m) \<Rightarrow> Some (if b then Some m else None))"

text \<open>\<^verbatim>\<open>main\<close>: the board in the reply to \<^verbatim>\<open>S\<close>, and the cells set afterwards, in order.\<close>

definition init_board :: "char list \<Rightarrow> Board" where
  "init_board buf = map (\<lambda>i. map (\<lambda>j. c2n (buf ! (4 + i * 9 + j))) [0..<9]) [0..<9]"

definition moves :: "Board \<Rightarrow> Board \<Rightarrow> (nat \<times> nat \<times> char) list" where
  "moves init fin = concat (map (\<lambda>i. concat (map (\<lambda>j.
     if init ! i ! j = 0 then [(i, j, n2c (fin ! i ! j))] else []) [0..<9])) [0..<9])"

section \<open>Boards as functions of the cell\<close>

definition cell :: "Board \<Rightarrow> nat \<Rightarrow> nat" where
  "cell mp k = mp ! (k div 9) ! (k mod 9)"

definition board_ok :: "Board \<Rightarrow> bool" where
  "board_ok mp \<longleftrightarrow> length mp = 9 \<and> (\<forall>r \<in> set mp. length r = 9 \<and> (\<forall>x \<in> set r. x \<le> 9))"

lemma board_cell_le: "board_ok mp \<Longrightarrow> k < 81 \<Longrightarrow> cell mp k \<le> 9"
proof -
  assume ok: "board_ok mp" and "k < 81"
  then have "mp ! (k div 9) \<in> set mp" by (auto simp: board_ok_def)
  then have "length (mp ! (k div 9)) = 9" and "\<forall>x \<in> set (mp ! (k div 9)). x \<le> 9"
    using ok by (auto simp: board_ok_def)
  then show ?thesis by (simp add: cell_def)
qed

lemma set_cell_ok:
  assumes "board_ok mp" and "k < 81" and "x \<le> 9"
  shows "board_ok (set_cell mp k x)"
proof -
  have "mp ! (k div 9) \<in> set mp" using assms by (auto simp: board_ok_def)
  then have "length (mp ! (k div 9)) = 9" and "\<forall>x \<in> set (mp ! (k div 9)). x \<le> 9"
    using assms by (auto simp: board_ok_def)
  then show ?thesis
    using assms by (auto simp: board_ok_def set_cell_def Let_def dest!: set_update_subset_insert [THEN subsetD])
qed

lemma cell_set_cell:
  assumes "board_ok mp" and "k < 81" and "c < 81"
  shows "cell (set_cell mp k x) c = (if c = k then x else cell mp c)"
proof -
  have "mp ! (k div 9) \<in> set mp" using assms by (auto simp: board_ok_def)
  then have "length (mp ! (k div 9)) = 9" using assms by (auto simp: board_ok_def)
  moreover have "c = k \<longleftrightarrow> c div 9 = k div 9 \<and> c mod 9 = k mod 9"
    by (metis div_mult_mod_eq)
  ultimately show ?thesis
    using assms by (auto simp: cell_def set_cell_def board_ok_def Let_def nth_list_update)
qed

lemma board_eqI:
  assumes "board_ok a" and "board_ok b" and "\<And>c. c < 81 \<Longrightarrow> cell a c = cell b c"
  shows "a = b"
proof (rule nth_equalityI)
  show "length a = length b" using assms by (simp add: board_ok_def)
  fix i assume i: "i < length a"
  then have i9: "i < 9" using assms by (simp add: board_ok_def)
  have la: "length (a ! i) = 9" and lb: "length (b ! i) = 9"
    using assms i9 by (simp_all add: board_ok_def)
  show "a ! i = b ! i"
  proof (rule nth_equalityI)
    show "length (a ! i) = length (b ! i)" using la lb by simp
    fix j assume "j < length (a ! i)"
    then have "j < 9" using la by simp
    then have "cell a (9 * i + j) = cell b (9 * i + j)" using assms(3) [of "9 * i + j"] i9 by simp
    then show "a ! i ! j = b ! i ! j" using \<open>j < 9\<close> by (simp add: cell_def)
  qed
qed

section \<open>The test against the rules of the game\<close>

lemma count_line_count:
  "\<forall>v \<in> set vs. v < 10 \<Longrightarrow> length cnt = 10 \<Longrightarrow>
    \<exists>c. count_line cnt vs = Some c \<and> length c = 10 \<and> (\<forall>v < 10. c ! v = cnt ! v + count_list vs v)"
proof (induction vs arbitrary: cnt)
  case (Cons v vs)
  have "\<forall>v \<in> set vs. v < 10" and "length (cnt[v := cnt ! v + 1]) = 10" using Cons.prems by simp_all
  from Cons.IH [OF this] obtain c where "count_line (cnt[v := cnt ! v + 1]) vs = Some c" "length c = 10"
    "\<forall>u < 10. c ! u = (cnt[v := cnt ! v + 1]) ! u + count_list vs u"
    by blast
  then show ?case using Cons.prems by (auto simp: nth_list_update)
qed simp

lemma foldl_max_gt: "(n :: nat) < foldl max m xs \<longleftrightarrow> n < m \<or> (\<exists>x \<in> set xs. n < x)"
  by (induction xs arbitrary: m) (auto simp: less_max_iff_disj)

lemma line_ok_distinct:
  assumes "\<forall>v \<in> set vs. v < 10"
  shows "line_ok vs = Some (distinct (filter (\<lambda>v. v \<noteq> 0) vs))"
proof -
  obtain c where c: "count_line (replicate 10 0) vs = Some c" "length c = 10" "\<forall>v < 10. c ! v = count_list vs v"
    using count_line_count [OF assms, of "replicate 10 0"] by auto
  have "1 < foldl max 0 (c[0 := 0]) \<longleftrightarrow> (\<exists>v < 10. 1 < (c[0 := 0]) ! v)"
    unfolding foldl_max_gt by (metis c(2) in_set_conv_nth length_list_update not_less_zero)
  also have "\<dots> \<longleftrightarrow> (\<exists>v < 10. v \<noteq> 0 \<and> 1 < count_list vs v)"
    using c(2,3) by (auto simp: nth_list_update split: if_splits)
  also have "\<dots> \<longleftrightarrow> (\<exists>v. v \<noteq> 0 \<and> 1 < count_list vs v)"
    using assms by (metis count_list_0_iff less_numeral_extra(3) not_one_less_zero)
  also have "\<dots> \<longleftrightarrow> \<not> distinct (filter (\<lambda>v. v \<noteq> 0) vs)"
  proof (induction vs)
    case (Cons a vs)
    have pos: "0 < count_list vs a \<longleftrightarrow> a \<in> set vs" using count_list_0_iff [of vs a] by auto
    have "(\<exists>v. v \<noteq> 0 \<and> 1 < count_list (a # vs) v) \<longleftrightarrow> (a \<noteq> 0 \<and> a \<in> set vs) \<or> (\<exists>v. v \<noteq> 0 \<and> 1 < count_list vs v)"
    proof
      assume "\<exists>v. v \<noteq> 0 \<and> 1 < count_list (a # vs) v"
      then obtain v where "v \<noteq> 0" "1 < count_list (a # vs) v" by blast
      then show "(a \<noteq> 0 \<and> a \<in> set vs) \<or> (\<exists>v. v \<noteq> 0 \<and> 1 < count_list vs v)"
        using pos by (cases "v = a") auto
    next
      assume "(a \<noteq> 0 \<and> a \<in> set vs) \<or> (\<exists>v. v \<noteq> 0 \<and> 1 < count_list vs v)"
      then show "\<exists>v. v \<noteq> 0 \<and> 1 < count_list (a # vs) v"
      proof
        assume "a \<noteq> 0 \<and> a \<in> set vs"
        then show ?thesis using pos by (intro exI [of _ a]) simp
      next
        assume "\<exists>v. v \<noteq> 0 \<and> 1 < count_list vs v"
        then obtain v where "v \<noteq> 0" "1 < count_list vs v" by blast
        then show ?thesis by (intro exI [of _ v]) simp
      qed
    qed
    then show ?case using Cons.IH by auto
  qed simp
  finally show ?thesis using c(1) by (simp add: line_ok_def)
qed

lemma lines_ok_distinct:
  "\<forall>l \<in> set ls. \<forall>v \<in> set l. v < 10 \<Longrightarrow>
    lines_ok ls = Some (\<forall>l \<in> set ls. distinct (filter (\<lambda>v. v \<noteq> 0) l))"
  by (induction ls) (auto simp: line_ok_distinct)

text \<open>The rules: no digit twice in a row, a column or a box.\<close>

definition units :: "nat list list" where
  "units = map (\<lambda>i. map (\<lambda>j. 9 * i + j) [0..<9]) [0..<9]
     @ map (\<lambda>i. map (\<lambda>j. 9 * j + i) [0..<9]) [0..<9]
     @ map (\<lambda>i. map (\<lambda>j. 9 * (i div 3 * 3 + j div 3) + (i mod 3 * 3 + j mod 3)) [0..<9]) [0..<9]"

definition lawful :: "Board \<Rightarrow> bool" where
  "lawful mp \<longleftrightarrow> (\<forall>u \<in> set units. \<forall>a \<in> set u. \<forall>b \<in> set u. a \<noteq> b \<longrightarrow> cell mp a \<noteq> 0 \<longrightarrow> cell mp a \<noteq> cell mp b)"

lemma cell_at: "r < 9 \<Longrightarrow> cell mp (9 * a + r) = mp ! a ! r"
  by (simp add: cell_def)

lemma valid_lines: "map (row_of mp) [0..<9] @ map (col_of mp) [0..<9] @ map (box_of mp) [0..<9] = map (map (cell mp)) units"
proof -
  have "row_of mp i = map (cell mp) (map (\<lambda>j. 9 * i + j) [0..<9])" for i
    unfolding row_of_def map_map by (rule map_cong) (simp_all add: cell_at)
  moreover have "col_of mp i = map (cell mp) (map (\<lambda>j. 9 * j + i) [0..<9])" if "i < 9" for i
    unfolding col_of_def map_map by (rule map_cong) (simp_all add: cell_at that)
  moreover have "box_of mp i = map (cell mp) (map (\<lambda>j. 9 * (i div 3 * 3 + j div 3) + (i mod 3 * 3 + j mod 3)) [0..<9])" for i
  proof -
    have r: "i mod 3 * 3 + j mod 3 < 9" for j :: nat
    proof -
      have "i mod 3 < 3" and "j mod 3 < 3" by simp_all
      then show ?thesis by linarith
    qed
    show ?thesis unfolding box_of_def map_map Let_def o_def
      by (rule map_cong [OF refl]) (rule cell_at [OF r, symmetric])
  qed
  ultimately show ?thesis by (simp add: units_def)
qed

lemma units_cells: "u \<in> set units \<Longrightarrow> distinct u \<and> (\<forall>c \<in> set u. c < 81)"
proof -
  have "\<forall>u \<in> set units. distinct u \<and> (\<forall>c \<in> set u. c < 81)"
    by (simp add: units_def upt_rec)
  then show "u \<in> set units \<Longrightarrow> distinct u \<and> (\<forall>c \<in> set u. c < 81)" by blast
qed

lemma distinct_filter_map:
  "distinct u \<Longrightarrow> distinct (filter (\<lambda>v. v \<noteq> 0) (map f u)) \<longleftrightarrow>
    (\<forall>a \<in> set u. \<forall>b \<in> set u. a \<noteq> b \<longrightarrow> f a \<noteq> 0 \<longrightarrow> f a \<noteq> (f b :: nat))"
proof (induction u)
  case (Cons a u)
  then show ?case by (cases "f a = 0") (auto simp: image_iff)
qed simp

lemma valid_eq:
  assumes "board_ok mp"
  shows "valid mp = Some (lawful mp)"
proof -
  have "\<forall>l \<in> set (map (map (cell mp)) units). \<forall>v \<in> set l. v < 10"
    using board_cell_le [OF assms] units_cells by (fastforce simp: less_Suc_eq_le)
  then have "valid mp = Some (\<forall>u \<in> set units. distinct (filter (\<lambda>v. v \<noteq> 0) (map (cell mp) u)))"
    unfolding valid_def valid_lines by (subst lines_ok_distinct) simp_all
  also have "(\<forall>u \<in> set units. distinct (filter (\<lambda>v. v \<noteq> 0) (map (cell mp) u))) = lawful mp"
    unfolding lawful_def by (rule ball_cong [OF refl]) (rule distinct_filter_map, use units_cells in blast)
  finally show ?thesis .
qed

section \<open>The search\<close>

definition full :: "Board \<Rightarrow> bool" where
  "full mp \<longleftrightarrow> (\<forall>c < 81. cell mp c \<noteq> 0)"

definition extends :: "Board \<Rightarrow> Board \<Rightarrow> bool" where
  "extends mp s \<longleftrightarrow> (\<forall>c < 81. cell mp c \<noteq> 0 \<longrightarrow> cell s c = cell mp c)"

text \<open>The solutions of a board: full boards of digits that keep its digits and obey the rules.\<close>

definition solution :: "Board \<Rightarrow> Board \<Rightarrow> bool" where
  "solution mp s \<longleftrightarrow> board_ok s \<and> full s \<and> lawful s \<and> extends mp s"

lemma lawful_mono:
  assumes "lawful s" and "extends mp s"
  shows "lawful mp"
  unfolding lawful_def
proof (intro ballI impI)
  fix u a b
  assume u: "u \<in> set units" "a \<in> set u" "b \<in> set u" "a \<noteq> b" "cell mp a \<noteq> 0"
  then have "a < 81" "b < 81" using units_cells by blast+
  then have "cell s a = cell mp a" and "cell mp b \<noteq> 0 \<Longrightarrow> cell s b = cell mp b"
    using assms(2) u by (auto simp: extends_def)
  moreover have "cell s a \<noteq> cell s b" using assms(1) u calculation unfolding lawful_def by metis
  ultimately show "cell mp a \<noteq> cell mp b" using u(5) by metis
qed

text \<open>What the search promises from a cell on, and its loop from a digit on.\<close>

definition dfs_spec :: "Board \<Rightarrow> (Board \<Rightarrow> bool) \<Rightarrow> (bool \<times> Board) option \<Rightarrow> bool" where
  "dfs_spec mp cand r \<longleftrightarrow> (\<exists>b m. r = Some (b, m)
     \<and> (if b then solution mp m else m = mp \<and> (\<forall>s. solution mp s \<longrightarrow> \<not> cand s)))"

lemma dfs_spec_all:
  assumes "dfs_spec mp cand r" and "\<And>s. solution mp s \<Longrightarrow> cand s"
  shows "dfs_spec mp (\<lambda>s. True) r"
proof -
  obtain b m where "r = Some (b, m)" "if b then solution mp m else m = mp \<and> (\<forall>s. solution mp s \<longrightarrow> \<not> cand s)"
    using assms(1) by (auto simp: dfs_spec_def)
  then show ?thesis using assms(2) unfolding dfs_spec_def by (intro exI [of _ b] exI [of _ m]) auto
qed

lemma set_cell_twice:
  "board_ok mp \<Longrightarrow> k < 81 \<Longrightarrow> x \<le> 9 \<Longrightarrow> y \<le> 9 \<Longrightarrow> set_cell (set_cell mp k x) k y = set_cell mp k y"
  by (rule board_eqI) (simp_all add: set_cell_ok cell_set_cell)

lemma set_cell_same: "board_ok mp \<Longrightarrow> k < 81 \<Longrightarrow> cell mp k = 0 \<Longrightarrow> set_cell mp k 0 = mp"
  by (rule board_eqI) (simp_all add: set_cell_ok cell_set_cell)

lemma solution_set_cell:
  assumes "board_ok mp" and "k < 81" and "cell mp k = 0" and "x \<le> 9" and "x \<noteq> 0"
  shows "solution (set_cell mp k x) s \<longleftrightarrow> solution mp s \<and> cell s k = x"
proof -
  have c: "c < 81 \<Longrightarrow> cell (set_cell mp k x) c = (if c = k then x else cell mp c)" for c
    using cell_set_cell [OF assms(1,2)] .
  have "extends (set_cell mp k x) s \<longleftrightarrow> extends mp s \<and> cell s k = x"
  proof
    assume e: "extends (set_cell mp k x) s"
    have "cell s k = x" using e c [of k] assms(2,5) unfolding extends_def by simp
    moreover have "extends mp s"
      unfolding extends_def
    proof (intro allI impI)
      fix d assume d: "d < 81" "cell mp d \<noteq> 0"
      then have "d \<noteq> k" using assms(3) by auto
      then show "cell s d = cell mp d" using e d c [of d] unfolding extends_def by simp
    qed
    ultimately show "extends mp s \<and> cell s k = x" by simp
  next
    assume "extends mp s \<and> cell s k = x"
    then show "extends (set_cell mp k x) s" using c unfolding extends_def by simp
  qed
  then show ?thesis unfolding solution_def by blast
qed

lemma dfs_correct:
  "board_ok mp \<Longrightarrow> lawful mp \<Longrightarrow> k \<le> 81 \<Longrightarrow> \<forall>c < k. cell mp c \<noteq> 0 \<Longrightarrow> dfs_spec mp (\<lambda>s. True) (dfs k mp)"
  "board_ok mp0 \<Longrightarrow> lawful (set_cell mp0 k 0) \<Longrightarrow> k < 81 \<Longrightarrow> \<forall>c < k. cell mp0 c \<noteq> 0 \<Longrightarrow> x \<noteq> 0
    \<Longrightarrow> dfs_spec (set_cell mp0 k 0) (\<lambda>s. x \<le> cell s k) (dfs_for k x mp0)"
proof (induction k mp and k x mp0 rule: dfs_dfs_for.induct)
  case (1 k mp)
  show ?case
  proof (cases "k = 81")
    case True
    then have "solution mp mp" using 1(3-6) by (auto simp: solution_def full_def extends_def)
    then show ?thesis unfolding dfs_spec_def using True by (intro exI [of _ True] exI [of _ mp]) (simp add: dfs.simps)
  next
    case False
    then have k: "k < 81" using 1(5) by simp
    show ?thesis
    proof (cases "cell mp k = 0")
      case True
      have z: "set_cell mp k 0 = mp" using set_cell_same [OF 1(3) k True] .
      have "dfs_spec (set_cell mp k 0) (\<lambda>s. 1 \<le> cell s k) (dfs_for k 1 mp)"
        using 1(2) [of "k div 9" "k mod 9"] False k True 1(3-6) z by (simp add: cell_def)
      moreover have "solution mp s \<Longrightarrow> 1 \<le> cell s k" for s
        using k by (auto simp: solution_def full_def Suc_le_eq)
      moreover have "dfs k mp = dfs_for k 1 mp"
        using k True by (subst dfs.simps) (simp add: cell_def Let_def)
      ultimately show ?thesis using dfs_spec_all z by metis
    next
      case False
      have "\<forall>c < k + 1. cell mp c \<noteq> 0" using 1(6) False by (auto simp: less_Suc_eq)
      then have "dfs_spec mp (\<lambda>s. True) (dfs (k + 1) mp)"
        using 1(1) [of "k div 9" "k mod 9"] k False 1(3-5) by (simp add: cell_def)
      moreover have "dfs k mp = dfs (k + 1) mp"
        using k False by (subst dfs.simps) (simp add: cell_def Let_def)
      ultimately show ?thesis by simp
    qed
  qed
next
  case (2 k x mp)
  let ?z = "set_cell mp k 0"
  have okz: "board_ok ?z" using set_cell_ok 2(4,6) by simp
  have zk: "cell ?z k = 0" using 2(4,6) by (simp add: cell_set_cell)
  show ?case
  proof (cases "x \<le> 9")
    case False
    have "\<not> x \<le> cell s k" if "solution ?z s" for s
      using board_cell_le [of s k] that 2(6) False by (auto simp: solution_def)
    then show ?thesis unfolding dfs_spec_def using 2(6) False
      by (intro exI [of _ False] exI [of _ ?z]) (simp add: dfs_for.simps [of k x])
  next
    case True
    let ?m = "set_cell mp k x"
    have okm: "board_ok ?m" using set_cell_ok 2(4,6) True by simp
    have zm: "set_cell ?m k 0 = ?z" "?m = set_cell ?z k x"
      using set_cell_twice 2(4,6) True by simp_all
    have cells: "\<forall>c < k. cell ?m c \<noteq> 0" using 2(4,6,7) by (simp add: cell_set_cell)
    have sol: "solution ?m s \<longleftrightarrow> solution ?z s \<and> cell s k = x" for s
      unfolding zm(2) using solution_set_cell [OF okz 2(6) zk True 2(8)] .
    have v: "valid ?m = Some (lawful ?m)" using valid_eq [OF okm] .
    have step: "dfs_for k x mp = (if lawful ?m then (case dfs (k + 1) ?m of None \<Rightarrow> None
          | Some (b, m2) \<Rightarrow> if b then Some (True, m2) else dfs_for k (x + 1) m2)
        else dfs_for k (x + 1) ?m)"
      using 2(6) True v by (subst dfs_for.simps) (simp add: Let_def)
    have next_ok: "dfs_spec ?z (\<lambda>s. x \<le> cell s k) (dfs_for k (x + 1) ?m)"
      if n: "dfs_spec ?z (\<lambda>s. x + 1 \<le> cell s k) (dfs_for k (x + 1) ?m)" and no: "\<forall>s. \<not> solution ?m s"
    proof -
      have "x + 1 \<le> cell s k" if "solution ?z s" "x \<le> cell s k" for s
        using no sol that by (metis Suc_eq_plus1 le_neq_implies_less not_less_eq_eq not_le)
      then show ?thesis using n unfolding dfs_spec_def by metis
    qed
    show ?thesis
    proof (cases "lawful ?m")
      case False
      have "\<not> solution ?m s" for s using False lawful_mono by (auto simp: solution_def)
      moreover have "dfs_spec ?z (\<lambda>s. x + 1 \<le> cell s k) (dfs_for k (x + 1) ?m)"
        using 2(3) [OF _ True refl v] False 2(5,6) okm cells zm by simp
      ultimately show ?thesis using next_ok step False by simp
    next
      case law: True
      have one: "cell ?m k \<noteq> 0" using 2(4,6,8) by (simp add: cell_set_cell)
      then have "\<forall>c < k + 1. cell ?m c \<noteq> 0" using cells by (auto simp: less_Suc_eq)
      then have d: "dfs_spec ?m (\<lambda>s. True) (dfs (k + 1) ?m)"
        using 2(1) [OF _ True refl v] law okm 2(6) by simp
      then obtain b m2 where r: "dfs (k + 1) ?m = Some (b, m2)"
        "if b then solution ?m m2 else m2 = ?m \<and> (\<forall>s. solution ?m s \<longrightarrow> \<not> True)"
        unfolding dfs_spec_def by blast
      show ?thesis
      proof (cases b)
        case True
        then have "solution ?z m2" using r(2) sol by simp
        then show ?thesis unfolding dfs_spec_def using step law r(1) True
          by (intro exI [of _ True] exI [of _ m2]) simp
      next
        case False
        then have m2: "m2 = ?m" and no: "\<forall>s. \<not> solution ?m s" using r(2) by auto
        have "dfs_spec ?z (\<lambda>s. x + 1 \<le> cell s k) (dfs_for k (x + 1) ?m)"
          using 2(2) [OF _ True refl v law r(1) refl] False m2 2(5,6) okm cells zm by simp
        then show ?thesis using next_ok no step law r(1) False m2 by simp
      qed
    qed
  qed
qed

text \<open>
  C18. The solver is correct and complete: on a board of digits that breaks no rule, the search always
  comes to an end without leaving the arrays; if it succeeds, the board it returns is full, obeys
  the rules and keeps every given digit; if it fails, the board has no solution at all.
\<close>

theorem solve_correct:
  assumes "board_ok mp" and "lawful mp"
  shows "\<exists>r. solve mp = Some r \<and> (case r of Some m \<Rightarrow> solution mp m | None \<Rightarrow> \<not> (\<exists>s. solution mp s))"
proof -
  have "dfs_spec mp (\<lambda>s. True) (dfs 0 mp)" using dfs_correct(1) [of mp 0] assms by simp
  then show ?thesis by (auto simp: dfs_spec_def solve_def)
qed

text \<open>
  The test \<^verbatim>\<open>valid\<close>, which counts digits in arrays, decides the rules of the game on every board of
  digits: no digit twice in a row, a column or a box.
\<close>

theorem valid_correct:
  assumes "board_ok mp"
  shows "valid mp = Some (lawful mp)"
  using assms by (rule valid_eq)

section \<open>A puzzle\<close>

definition puzzle :: Board where
  "puzzle = [[5,3,0,0,7,0,0,0,0], [6,0,0,1,9,5,0,0,0], [0,9,8,0,0,0,0,6,0], [8,0,0,0,6,0,0,0,3],
     [4,0,0,8,0,3,0,0,1], [7,0,0,0,2,0,0,0,6], [0,6,0,0,0,0,2,8,0], [0,0,0,4,1,9,0,0,5], [0,0,0,0,8,0,0,7,9]]"

lemma puzzle_ok: "board_ok puzzle"
  by (simp add: board_ok_def puzzle_def)

lemma puzzle_valid: "valid puzzle = Some True"
  unfolding puzzle_def by code_simp

lemma puzzle_lawful: "lawful puzzle"
  using valid_eq [OF puzzle_ok] puzzle_valid by simp

theorem solve_correct_witness:
  "\<exists>r. solve puzzle = Some r \<and> (case r of Some m \<Rightarrow> solution puzzle m | None \<Rightarrow> \<not> (\<exists>s. solution puzzle s))"
  by (rule solve_correct [OF puzzle_ok puzzle_lawful])

theorem valid_correct_witness: "valid puzzle = Some True \<and> lawful puzzle"
  using valid_correct [OF puzzle_ok] puzzle_valid by simp

section \<open>The dialogue with the server\<close>

lemma c2n_n2c: "x \<le> 9 \<Longrightarrow> c2n (n2c x) = x"
proof -
  assume "x \<le> 9"
  then have "x = 0 \<or> x = 1 \<or> x = 2 \<or> x = 3 \<or> x = 4 \<or> x = 5 \<or> x = 6 \<or> x = 7 \<or> x = 8 \<or> x = 9"
    by arith
  then show ?thesis by (elim disjE) (simp_all add: n2c_def c2n_def char_of_eq_iff take_bit_eq_mod)
qed

lemma set_moves:
  "set (moves init fin) = {(i, j, n2c (fin ! i ! j)) | i j. i < 9 \<and> j < 9 \<and> init ! i ! j = 0}"
  by (auto simp: moves_def split: if_splits)

lemma concat_if: "concat (map (\<lambda>j. if P j then [f j] else []) xs) = map f (filter P xs)"
  by (induction xs) auto

lemma concat_product:
  "concat (map (\<lambda>i. map (f i) (filter (P i) ys)) xs) =
    map (\<lambda>(i, j). f i j) (filter (\<lambda>(i, j). P i j) (List.product xs ys))"
  by (induction xs) (simp_all add: filter_map comp_def)

lemma moves_filter:
  "moves init fin = map (\<lambda>(i, j). (i, j, n2c (fin ! i ! j)))
     (filter (\<lambda>(i, j). init ! i ! j = 0) (List.product [0..<9] [0..<9]))"
  unfolding moves_def concat_if by (rule concat_product)

text \<open>
  The moves sent to the server: for each cell that was empty, and for no other, exactly one move,
  whose character is the digit of the solved board; reading the character back gives the digit.
\<close>

theorem moves_correct:
  assumes "board_ok fin"
  shows "distinct (map (\<lambda>(i, j, c). (i, j)) (moves init fin))
    \<and> (\<forall>i j c. (i, j, c) \<in> set (moves init fin)
         \<longleftrightarrow> i < 9 \<and> j < 9 \<and> init ! i ! j = 0 \<and> c = n2c (fin ! i ! j) \<and> c2n c = fin ! i ! j)"
proof -
  have "distinct (map (\<lambda>(i, j, c). (i, j)) (moves init fin))"
    by (simp add: moves_filter comp_def case_prod_beta distinct_product)
  moreover have "c2n (n2c (fin ! i ! j)) = fin ! i ! j" if "i < 9" "j < 9" for i j
    using board_cell_le [OF assms, of "9 * i + j"] that by (simp add: cell_def c2n_n2c)
  ultimately show ?thesis by (auto simp: set_moves)
qed

theorem moves_correct_witness: "(0, 2, n2c 4) \<in> set (moves puzzle (set_cell puzzle 2 4))"
  using moves_correct [of "set_cell puzzle 2 4" puzzle] puzzle_ok
  by (simp add: set_cell_ok) (simp add: puzzle_def set_cell_def Let_def c2n_n2c)

end
