(* ===== verification/ByteData.thy ===== *)
theory ByteData
  imports Prelude "HOL-Library.Monad_Syntax"
begin

text \<open>
  Data as bytes, as the file transfers of labs 8 and 10 and the unpackers of lab 2 share it:
  little-endian numbers, the files packed one behind the other and taken apart again (\<^verbatim>\<open>init_t\<close> is
  the same in both transfers, and so is the code around it), the bit set laid over a packet, and
  \<^verbatim>\<open>memcpy\<close> into an array whose bytes are undefined until they are written.
\<close>

type_synonym bytes = "8 word list"

section \<open>Numbers\<close>

definition le32 :: "nat \<Rightarrow> bytes" where
  "le32 n = map (\<lambda>i. word_of_nat (n div 256 ^ i)) [0..<4]"

definition le64 :: "nat \<Rightarrow> bytes" where
  "le64 n = map (\<lambda>i. word_of_nat (n div 256 ^ i)) [0..<8]"

definition le_val :: "bytes \<Rightarrow> nat" where
  "le_val bs = foldr (\<lambda>b n. unat b + 256 * n) bs 0"

lemma le_val_bytes: "le_val (map (\<lambda>i. word_of_nat (m div 256 ^ i)) [0..<k]) = m mod 256 ^ k"
proof (induction k arbitrary: m)
  case (Suc k)
  have "map (\<lambda>i. word_of_nat (m div 256 ^ i) :: 8 word) [0..<Suc k]
      = word_of_nat m # map (\<lambda>i. word_of_nat (m div 256 div 256 ^ i)) [0..<k]"
    by (simp only: upt_conv_Cons [OF zero_less_Suc] map_Suc_upt [symmetric])
      (simp add: div_mult2_eq)
  then have "le_val (map (\<lambda>i. word_of_nat (m div 256 ^ i)) [0..<Suc k]) = m mod 256 + 256 * ((m div 256) mod 256 ^ k)"
    using Suc.IH [of "m div 256"] by (simp add: le_val_def unat_of_nat)
  also have "\<dots> = m mod 256 ^ Suc k" by (simp add: mod_mult2_eq)
  finally show ?case .
qed (simp add: le_val_def)

lemma le_val_le32: "m < 2 ^ 32 \<Longrightarrow> le_val (le32 m) = m"
  using le_val_bytes [of m 4] by (simp add: le32_def)

lemma le_val_le64: "m < 2 ^ 64 \<Longrightarrow> le_val (le64 m) = m"
  using le_val_bytes [of m 8] by (simp add: le64_def)

lemma length_le [simp]: "length (le32 m) = 4" "length (le64 m) = 8"
  by (simp_all add: le32_def le64_def)

lemma le32_ne [simp]: "le32 m \<noteq> []"
  by (simp add: le32_def)

section \<open>The packed files\<close>

text \<open>\<^verbatim>\<open>init_t\<close> in memory, and the loop that copies the files behind each other.\<close>

definition init_bytes :: "nat \<Rightarrow> nat \<Rightarrow> bytes" where
  "init_bytes filename filesize = le32 filename @ le32 filesize"

definition pack_files :: "(nat \<times> bytes) list \<Rightarrow> bytes" where
  "pack_files files = foldl (\<lambda>orig (fn, d). orig @ init_bytes fn (length d) @ d) [] files"

text \<open>The loop that writes the files: the number in each name, and its bytes.\<close>

function unpack_files :: "bytes \<Rightarrow> (nat \<times> bytes) list option" where
  "unpack_files bs =
     (if bs = [] then Some []
      else if length bs < 8 then None
      else let filename = le_val (take 4 bs); filesize = le_val (take 4 (drop 4 bs)); r = drop 8 bs
           in if length r < filesize then None
              else map_option ((#) (filename, take filesize r)) (unpack_files (drop filesize r)))"
  by pat_completeness auto
termination by (relation "measure length") auto

declare unpack_files.simps [simp del]

definition file_ok :: "nat \<times> bytes \<Rightarrow> bool" where
  "file_ok f \<longleftrightarrow> fst f < 2 ^ 32 \<and> length (snd f) < 2 ^ 32"

lemma pack_files_concat: "pack_files files = concat (map (\<lambda>(fn, d). init_bytes fn (length d) @ d) files)"
proof -
  have "foldl (\<lambda>orig (fn, d). orig @ init_bytes fn (length d) @ d) acc files
      = acc @ concat (map (\<lambda>(fn, d). init_bytes fn (length d) @ d) files)" for acc
    by (induction files arbitrary: acc) auto
  then show ?thesis by (simp add: pack_files_def)
qed

lemma unpack_pack: "list_all file_ok files \<Longrightarrow> unpack_files (pack_files files) = Some files"
proof (induction files)
  case Nil
  then show ?case by (simp add: pack_files_def unpack_files.simps)
next
  case (Cons f files)
  obtain fn d where f: "f = (fn, d)" by (cases f)
  have pack: "pack_files (f # files) = le32 fn @ le32 (length d) @ d @ pack_files files"
    by (simp add: pack_files_concat f init_bytes_def)
  have "unpack_files (pack_files files) = Some files" using Cons by simp
  then show ?case
    using Cons.prems unfolding pack
    by (subst unpack_files.simps) (simp add: f file_ok_def le_val_le32 Let_def)
qed

section \<open>The bit set\<close>

text \<open>A bit of \<^verbatim>\<open>std::bitset<DATA_SIZE*8>\<close> laid over the data of a packet.\<close>

definition get_bit :: "bytes \<Rightarrow> nat \<Rightarrow> bool" where
  "get_bit bs i = bit (bs ! (i div 8)) (i mod 8)"

definition set_bit :: "bytes \<Rightarrow> nat \<Rightarrow> bytes option" where
  "set_bit bs i = (if i < 8 * length bs then Some (bs[i div 8 := (bs ! (i div 8)) OR push_bit (i mod 8) 1]) else None)"

lemma set_bit_get:
  assumes "set_bit bs i = Some bs'"
  shows "length bs' = length bs" and "j < 8 * length bs \<Longrightarrow> get_bit bs' j \<longleftrightarrow> j = i \<or> get_bit bs j"
proof -
  have i: "i < 8 * length bs" and bs': "bs' = bs[i div 8 := (bs ! (i div 8)) OR push_bit (i mod 8) 1]"
    using assms by (auto simp: set_bit_def split: if_splits)
  show "length bs' = length bs" by (simp add: bs')
  assume j: "j < 8 * length bs"
  have l: "j div 8 < length bs" "i div 8 < length bs" using i j by auto
  have same: "j = i \<longleftrightarrow> j div 8 = i div 8 \<and> j mod 8 = i mod 8" by (metis div_mult_mod_eq)
  show "get_bit bs' j \<longleftrightarrow> j = i \<or> get_bit bs j"
  proof (cases "j div 8 = i div 8")
    case True
    have "bit (push_bit (i mod 8) (1 :: 8 word)) (j mod 8) \<longleftrightarrow> j mod 8 = i mod 8"
      by (auto simp: push_bit_eq_mult bit_exp_iff)
    then show ?thesis using True l same by (auto simp: get_bit_def bs' bit_or_iff)
  next
    case False
    then show ?thesis using l same by (auto simp: get_bit_def bs' nth_list_update)
  qed
qed

section \<open>Arrays\<close>

text \<open>\<^verbatim>\<open>memcpy\<close> into a fresh array, whose bytes are undefined until they are written.\<close>

definition write_at :: "'a option list \<Rightarrow> nat \<Rightarrow> 'a list \<Rightarrow> 'a option list option" where
  "write_at buf off frag =
     (if off + length frag \<le> length buf
      then Some (take off buf @ map Some frag @ drop (off + length frag) buf) else None)"

lemma write_at_nth:
  assumes "write_at buf off fr = Some buf'"
  shows "length buf' = length buf" and
    "i < length buf \<Longrightarrow> buf' ! i = (if off \<le> i \<and> i < off + length fr then Some (fr ! (i - off)) else buf ! i)"
proof -
  have b: "off + length fr \<le> length buf" "buf' = take off buf @ map Some fr @ drop (off + length fr) buf"
    using assms by (auto simp: write_at_def split: if_splits)
  then show "length buf' = length buf" by simp
  show "buf' ! i = (if off \<le> i \<and> i < off + length fr then Some (fr ! (i - off)) else buf ! i)" if "i < length buf"
    using b that by (auto simp: nth_append min_def)
qed

end
