(* ===== verification/Chunks.thy ===== *)
theory Chunks
  imports ByteData
begin

text \<open>
  What the two file transfers (labs 8 and 10) have in common, for a chunk size \<open>D\<close>: the data cut into
  numbered chunks, the receiver's record with its bit set and its map of chunks, and the copy of the
  chunks into one array. The locale \<open>chunked\<close> states the loops of a program as laws; the lemmas about
  the receiver are proved once inside it, and each program discharges the laws for its own loops.
\<close>

section \<open>Chunks\<close>

text \<open>The number of chunks, a chunk, and the chunk as it travels, padded, under its key.\<close>

definition nchunks :: "nat \<Rightarrow> nat \<Rightarrow> nat" where
  "nchunks D len = (len + D - 1) div D"

definition chunk :: "nat \<Rightarrow> bytes \<Rightarrow> nat \<Rightarrow> bytes" where
  "chunk D orig i = take D (drop (i * D) orig)"

definition frag :: "nat \<Rightarrow> bytes \<Rightarrow> nat \<Rightarrow> bytes" where
  "frag D orig k = (let c = chunk D orig (k - 1) in c @ replicate (D - length c) 0)"

text \<open>The size up to which every key fits in the bit set.\<close>

definition max_orig :: "nat \<Rightarrow> nat" where
  "max_orig D = (8 * D - 1) * D"

definition full_map :: "nat \<Rightarrow> bytes \<Rightarrow> (nat \<times> bytes) list" where
  "full_map D orig = (0, le64 (length orig) @ replicate 8 0) # map (\<lambda>j. (j + 1, chunk D orig j)) [0..<nchunks D (length orig)]"

lemma full_map_keys: "fst ` set (full_map D orig) = {0..nchunks D (length orig)}"
proof -
  have "k \<in> fst ` set (full_map D orig) \<longleftrightarrow> k \<le> nchunks D (length orig)" for k
    by (cases k) (auto simp: full_map_def image_image image_iff)
  then show ?thesis by (simp only: set_eq_iff atLeastAtMost_iff) simp
qed

section \<open>The receiver\<close>

record Rx =
  recvbit :: bytes
  orig_size :: nat
  recv_size :: nat
  data_map :: "(nat, bytes) um"

definition UINT_MAX :: nat where
  "UINT_MAX = 4294967295"

definition rx_more :: "Rx \<Rightarrow> bool" where
  "rx_more st \<longleftrightarrow> orig_size st = UINT_MAX \<or> recv_size st < orig_size st"

text \<open>What the state holds after the keys \<open>seen\<close>.\<close>

definition rx_ok :: "nat \<Rightarrow> bytes \<Rightarrow> nat set \<Rightarrow> Rx \<Rightarrow> bool" where
  "rx_ok D orig seen st \<longleftrightarrow>
     seen \<subseteq> {0..nchunks D (length orig)} \<and> length (recvbit st) = D \<and>
     (\<forall>j < 8 * D. get_bit (recvbit st) j \<longleftrightarrow> j \<in> seen) \<and>
     orig_size st = (if 0 \<in> seen then length orig else UINT_MAX) \<and> um_wf (data_map st) \<and>
     (\<forall>k. um_find (data_map st) k = (if k \<noteq> 0 \<and> k \<in> seen then Some (frag D orig k) else None)) \<and>
     recv_size st = length (data_map st) * D"

section \<open>The laws of the loops, and what follows\<close>

locale chunked =
  fixes D :: nat
    and cut :: "bytes \<Rightarrow> nat \<Rightarrow> (nat \<times> bytes) list"
    and copy :: "(nat \<times> bytes) list \<Rightarrow> 8 word option list \<Rightarrow> 8 word option list option"
  assumes D_pos: "0 < D" and D_small: "max_orig D < 2 ^ 32 - 1 - D" "8 * D < 2 ^ 32"
    and cut_step: "cut orig i = (if i * D < length orig then (i + 1, chunk D orig i) # cut orig (i + 1) else [])"
    and copy_Nil: "copy [] buf = Some buf"
    and copy_Cons: "copy ((seq, fr) # m) buf =
      (if seq \<noteq> 0 then write_at buf ((seq - 1) * D) fr \<bind> copy m else copy m buf)"
begin

lemma less_nchunks: "i < nchunks D len \<longleftrightarrow> i * D < len"
proof -
  have "i < nchunks D len \<longleftrightarrow> Suc i * D \<le> len + D - 1"
    unfolding nchunks_def Suc_le_eq [symmetric] by (rule less_eq_div_iff_mult_less_eq [OF D_pos])
  also have "\<dots> \<longleftrightarrow> i * D < len" using D_pos by (simp; linarith)
  finally show ?thesis .
qed

lemma nchunks_le: "nchunks D L \<le> m \<longleftrightarrow> L \<le> m * D"
  using less_nchunks [of m L] by (meson not_less)

lemma nchunks_max: "L \<le> max_orig D \<Longrightarrow> nchunks D L < 8 * D"
  using nchunks_le [of L "8 * D - 1"] D_pos by (simp add: max_orig_def; linarith)

lemma cut_eq: "cut orig i = map (\<lambda>j. (j + 1, chunk D orig j)) [i..<nchunks D (length orig)]"
proof (induction "nchunks D (length orig) - i" arbitrary: i)
  case 0
  then show ?case by (subst cut_step) (simp add: less_nchunks [symmetric])
next
  case (Suc x)
  then have "i < nchunks D (length orig)" by simp
  moreover have "cut orig (i + 1) = map (\<lambda>j. (j + 1, chunk D orig j)) [i + 1..<nchunks D (length orig)]"
    using Suc by simp
  ultimately show ?case by (subst cut_step) (simp add: less_nchunks [symmetric] upt_conv_Cons)
qed

lemma cut_full: "(0, le64 (length orig) @ replicate 8 0) # cut orig 0 = full_map D orig"
  by (simp add: full_map_def cut_eq)

lemma length_frag [simp]: "length (frag D orig k) = D"
  by (simp add: frag_def chunk_def Let_def)

lemma frag_nth:
  assumes "1 \<le> k" and "r < D" and "(k - 1) * D + r < length orig"
  shows "frag D orig k ! r = orig ! ((k - 1) * D + r)"
proof -
  have "r < length orig - (k - 1) * D" using assms(3) by linarith
  then show ?thesis using assms by (simp add: frag_def chunk_def Let_def nth_append)
qed

text \<open>The entries of the sender's map, as the receiver sees them.\<close>

lemma full_map_cases:
  assumes "e \<in> set (full_map D orig)" and "length orig \<le> max_orig D"
  obtains "fst e = 0" and "le_val (take 8 (snd e @ pad)) mod 2 ^ 32 = length orig"
  | k where "fst e = k" and "1 \<le> k" and "k \<le> nchunks D (length orig)" and "k < 2 ^ 32"
      and "snd e @ replicate (D - length (snd e)) 0 = frag D orig k"
proof (cases "e = (0, le64 (length orig) @ replicate 8 0)")
  case True
  have "length orig < 2 ^ 32 - 1" using assms(2) D_small(1) by linarith
  then have "le_val (le64 (length orig)) mod 2 ^ 32 = length orig" by (simp add: le_val_le64)
  then show ?thesis by (intro that(1)) (simp_all add: True)
next
  case False
  then obtain j where j: "j < nchunks D (length orig)" and e: "e = (j + 1, chunk D orig j)"
    using assms(1) by (auto simp: full_map_def)
  have "j + 1 < 2 ^ 32" using j nchunks_max [OF assms(2)] D_small(2) by linarith
  then show ?thesis using j by (intro that(2) [of "j + 1"]) (simp_all add: e frag_def Let_def)
qed

lemma rx_ok_count:
  assumes "rx_ok D orig seen st"
  shows "length (data_map st) = card (seen - {0})"
proof -
  have "k \<in> set (um_keys (data_map st)) \<longleftrightarrow> k \<in> seen - {0}" for k
    unfolding um_keys_find using assms by (simp add: rx_ok_def)
  then have "set (um_keys (data_map st)) = seen - {0}" by blast
  moreover have "length (data_map st) = card (set (um_keys (data_map st)))"
    using assms distinct_card [of "um_keys (data_map st)"] by (simp add: rx_ok_def um_wf_def um_keys_def)
  ultimately show ?thesis by simp
qed

lemma seen_card:
  assumes "seen \<subseteq> {0..n}"
  shows "card (seen - {0}) \<le> n" and "card (seen - {0}) = n \<longleftrightarrow> {1..n} \<subseteq> seen"
proof -
  have sub: "seen - {0} \<subseteq> {1..n}" using assms by fastforce
  show "card (seen - {0}) \<le> n" using card_mono [OF _ sub] by simp
  show "card (seen - {0}) = n \<longleftrightarrow> {1..n} \<subseteq> seen"
  proof
    assume "card (seen - {0}) = n"
    then have "seen - {0} = {1..n}" using sub by (intro card_subset_eq) simp_all
    then show "{1..n} \<subseteq> seen" by blast
  next
    assume "{1..n} \<subseteq> seen"
    then have "seen - {0} = {1..n}" using sub by force
    then show "card (seen - {0}) = n" by simp
  qed
qed

text \<open>The loop condition: it ends exactly when everything has been seen.\<close>

lemma rx_ok_more:
  assumes "rx_ok D orig seen st" and "length orig \<le> max_orig D"
  shows "\<not> rx_more st \<longleftrightarrow> {0..nchunks D (length orig)} \<subseteq> seen"
proof -
  define n where "n = nchunks D (length orig)"
  have sub: "seen \<subseteq> {0..n}" using assms(1) by (simp add: rx_ok_def n_def)
  have "length orig \<noteq> UINT_MAX" using assms(2) D_small(1) by (simp add: UINT_MAX_def)
  then have "\<not> rx_more st \<longleftrightarrow> 0 \<in> seen \<and> length orig \<le> card (seen - {0}) * D"
    using assms(1) rx_ok_count [OF assms(1)] by (auto simp: rx_more_def rx_ok_def)
  also have "\<dots> \<longleftrightarrow> 0 \<in> seen \<and> n \<le> card (seen - {0})" by (simp add: n_def nchunks_le)
  also have "\<dots> \<longleftrightarrow> 0 \<in> seen \<and> {1..n} \<subseteq> seen" using seen_card [OF sub] by auto
  also have "\<dots> \<longleftrightarrow> {0..n} \<subseteq> seen"
  proof -
    have "{0..n} = insert 0 {1..n}" by auto
    then show ?thesis by simp
  qed
  finally show ?thesis by (simp add: n_def)
qed

lemma rx_ok_mark:
  assumes "rx_ok D orig seen st" and "set_bit (recvbit st) k = Some bs"
  shows "length bs = D" and "\<forall>j < 8 * D. get_bit bs j \<longleftrightarrow> j \<in> insert k seen"
  using assms(1) set_bit_get [OF assms(2)] by (simp_all add: rx_ok_def)

lemma rx_ok_size:
  assumes ok: "rx_ok D orig seen st" and bs: "set_bit (recvbit st) 0 = Some bs"
  shows "rx_ok D orig (insert 0 seen) (st\<lparr>recvbit := bs, orig_size := length orig\<rparr>)"
  using ok rx_ok_mark [OF ok bs] by (auto simp: rx_ok_def)

lemma rx_ok_chunk:
  assumes ok: "rx_ok D orig seen st" and bs: "set_bit (recvbit st) k = Some bs"
    and k: "1 \<le> k" "k \<le> nchunks D (length orig)" and small: "length orig \<le> max_orig D"
  shows "rx_ok D orig (insert k seen) (if um_find (data_map st) k = None
    then st\<lparr>recvbit := bs, data_map := um_emplace k (frag D orig k) (data_map st),
      recv_size := (recv_size st + D) mod 2 ^ 32\<rparr>
    else st\<lparr>recvbit := bs\<rparr>)"
proof (cases "k \<in> seen")
  case True
  then have "insert k seen = seen" by blast
  moreover have "um_find (data_map st) k \<noteq> None" using ok True k by (simp add: rx_ok_def)
  moreover have "rx_ok D orig seen (st\<lparr>recvbit := bs\<rparr>)"
    using ok rx_ok_mark [OF ok bs] \<open>insert k seen = seen\<close> by (simp add: rx_ok_def)
  ultimately show ?thesis by force
next
  case False
  have none: "um_find (data_map st) k = None" using ok False by (simp add: rx_ok_def)
  have len: "length (um_emplace k (frag D orig k) (data_map st)) = length (data_map st) + 1"
    by (simp add: um_emplace_def none)
  have "length (data_map st) \<le> nchunks D (length orig)"
    using rx_ok_count [OF ok] seen_card(1) ok by (simp add: rx_ok_def)
  then have "length (data_map st) * D \<le> nchunks D (length orig) * D" by simp
  moreover have "nchunks D (length orig) * D \<le> max_orig D"
    using nchunks_max [OF small] unfolding max_orig_def by (intro mult_le_mono1) linarith
  ultimately have "recv_size st + D < 2 ^ 32"
    using ok D_small(1) unfolding rx_ok_def by linarith
  moreover have "um_wf (um_emplace k (frag D orig k) (data_map st))"
    using um_wf_emplace [of "data_map st" k "frag D orig k"] ok by (simp add: rx_ok_def)
  moreover have "um_find (um_emplace k (frag D orig k) (data_map st)) j
      = (if j \<noteq> 0 \<and> j \<in> insert k seen then Some (frag D orig j) else None)" for j
    using um_find_emplace [of k "frag D orig k" "data_map st" j] ok k none unfolding rx_ok_def by auto
  ultimately show ?thesis
    using ok rx_ok_mark [OF ok bs] k none len by (simp add: rx_ok_def)
qed

text \<open>Every key a sender uses has its bit.\<close>

lemma rx_ok_bit:
  assumes "rx_ok D orig seen st" and "k \<le> nchunks D (length orig)" and "length orig \<le> max_orig D"
  obtains bs where "set_bit (recvbit st) k = Some bs"
  using that nchunks_max [OF assms(3)] assms(1,2) by (auto simp: rx_ok_def set_bit_def)

text \<open>The copy into one array.\<close>

lemma slot_iff: "1 \<le> k \<Longrightarrow> (k - 1) * D \<le> i \<and> i < (k - 1) * D + D \<longleftrightarrow> i div D = k - 1"
  using less_eq_div_iff_mult_less_eq [OF D_pos, of "k - 1" i] div_less_iff_less_mult [OF D_pos, of i k]
  by (cases k) auto

lemma copy_nth:
  assumes "\<forall>e\<in>set m. 1 \<le> fst e \<and> fst e * D \<le> length buf \<and> snd e = frag D orig (fst e)"
  shows "\<exists>buf'. copy m buf = Some buf' \<and> length buf' = length buf \<and>
    (\<forall>i < length buf. buf' ! i = (if Suc (i div D) \<in> fst ` set m
       then Some (frag D orig (Suc (i div D)) ! (i mod D)) else buf ! i))"
  using assms
proof (induction m arbitrary: buf)
  case (Cons e m)
  obtain k where e: "e = (k, frag D orig k)" and k: "1 \<le> k" "k * D \<le> length buf"
    using Cons.prems by (cases e) auto
  have "(k - 1) * D + length (frag D orig k) \<le> length buf" using k by (cases k) simp_all
  then obtain b1 where b1: "write_at buf ((k - 1) * D) (frag D orig k) = Some b1"
    by (simp add: write_at_def)
  note b1n = write_at_nth [OF b1, unfolded length_frag]
  obtain b2 where b2: "copy m b1 = Some b2" "length b2 = length b1"
      "\<forall>i < length b1. b2 ! i = (if Suc (i div D) \<in> fst ` set m
         then Some (frag D orig (Suc (i div D)) ! (i mod D)) else b1 ! i)"
    using Cons.IH [of b1] Cons.prems b1n(1) by auto
  have "b1 ! i = (if Suc (i div D) = k then Some (frag D orig k ! (i mod D)) else buf ! i)"
    if "i < length buf" for i
  proof -
    have "i - (k - 1) * D = i mod D" if "i div D = k - 1"
      using that by (metis minus_div_mult_eq_mod)
    moreover have "i div D = k - 1 \<longleftrightarrow> Suc (i div D) = k" using k(1) by linarith
    ultimately show ?thesis using b1n(2) [OF that] slot_iff [OF k(1), of i] by auto
  qed
  then show ?case using b1 b1n(1) b2 k(1) by (auto simp: e copy_Cons)
qed (simp add: copy_Nil)

lemma copy_None:
  assumes "(k, d) \<in> set m" and "k \<noteq> 0" and "length buf < (k - 1) * D + length d"
  shows "copy m buf = None"
  using assms
proof (induction m arbitrary: buf)
  case (Cons e m)
  obtain k' d' where e: "e = (k', d')" by (cases e)
  show ?case
  proof (cases "k' = 0")
    case True
    then show ?thesis using Cons by (auto simp: e copy_Cons)
  next
    case False
    show ?thesis
    proof (cases "write_at buf ((k' - 1) * D) d'")
      case (Some b)
      have "(k, d) \<noteq> e" using Some Cons.prems by (auto simp: e write_at_def split: if_splits)
      then have "(k, d) \<in> set m" using Cons.prems(1) by simp
      then have "copy m b = None"
        using Cons.prems by (intro Cons.IH) (simp_all add: write_at_nth(1) [OF Some])
      then show ?thesis using Some False by (simp add: e copy_Cons)
    qed (simp add: e False copy_Cons)
  qed
qed simp

text \<open>The complete map copied into an array of \<open>n * D\<close> bytes: the data, padded.\<close>

lemma copy_complete:
  assumes "rx_ok D orig {0..nchunks D (length orig)} st"
  shows "\<exists>buf. copy (sort_key fst (data_map st)) (replicate (nchunks D (length orig) * D) None) = Some (map Some buf) \<and>
    length buf = nchunks D (length orig) * D \<and> take (length orig) buf = orig"
    and "\<not> D dvd length orig \<Longrightarrow> copy (sort_key fst (data_map st)) (replicate (length orig) None) = None"
proof -
  define n where "n = nchunks D (length orig)"
  have "um_wf (data_map st)" using assms by (simp add: rx_ok_def)
  then have entry: "(k, d) \<in> set (data_map st) \<longleftrightarrow> 1 \<le> k \<and> k \<le> n \<and> d = frag D orig k" for k d
    unfolding um_in_set_find [OF \<open>um_wf (data_map st)\<close>] using assms by (auto simp: rx_ok_def n_def)
  have keys: "fst ` set (data_map st) = {1..n}"
    using entry by (auto simp: image_iff) (metis fst_conv)
  have le: "length orig \<le> n * D" using nchunks_le [of "length orig" n] by (simp add: n_def)
  have "\<forall>e\<in>set (sort_key fst (data_map st)). 1 \<le> fst e \<and> fst e * D \<le> length (replicate (n * D) (None :: 8 word option))
      \<and> snd e = frag D orig (fst e)"
    using entry by auto
  from copy_nth [OF this] obtain buf where buf: "copy (sort_key fst (data_map st)) (replicate (n * D) None) = Some buf"
    "length buf = n * D"
    "\<And>i. i < n * D \<Longrightarrow> buf ! i = (if Suc (i div D) \<in> fst ` set (data_map st)
       then Some (frag D orig (Suc (i div D)) ! (i mod D)) else None)"
    by auto
  have nth: "buf ! i = Some (frag D orig (Suc (i div D)) ! (i mod D))" if i: "i < n * D" for i
  proof -
    have "i div D < n" using i by (simp add: less_mult_imp_div_less)
    then show ?thesis using buf(3) [OF i] by (simp add: keys)
  qed
  define b where "b = map (\<lambda>i. frag D orig (Suc (i div D)) ! (i mod D)) [0..<n * D]"
  have "buf = map Some b" using buf(2) nth by (intro nth_equalityI) (simp_all add: b_def)
  moreover have "take (length orig) b = orig"
  proof (rule nth_equalityI)
    show "take (length orig) b ! i = orig ! i" if "i < length (take (length orig) b)" for i
      using that le D_pos frag_nth [of "Suc (i div D)" "i mod D" orig] by (simp add: b_def)
  qed (use le in \<open>simp add: b_def\<close>)
  ultimately show "\<exists>buf. copy (sort_key fst (data_map st)) (replicate (nchunks D (length orig) * D) None) = Some (map Some buf) \<and>
      length buf = nchunks D (length orig) * D \<and> take (length orig) buf = orig"
    using buf(1) by (intro exI [of _ b]) (simp add: n_def b_def)
  assume "\<not> D dvd length orig"
  then have "length orig \<noteq> n * D" by auto
  moreover from this have "n \<noteq> 0" using le by (metis le_zero_eq mult_zero_left)
  ultimately have "length orig < (n - 1) * D + length (frag D orig n)"
    using le by (cases n) auto
  moreover have "(n, frag D orig n) \<in> set (sort_key fst (data_map st))" using \<open>n \<noteq> 0\<close> entry by simp
  ultimately show "copy (sort_key fst (data_map st)) (replicate (length orig) None) = None"
    using \<open>n \<noteq> 0\<close> copy_None [of n "frag D orig n"] by (metis length_replicate)
qed

lemma nchunks_dvd: "D dvd L \<Longrightarrow> nchunks D L * D = L"
proof -
  assume "D dvd L"
  then obtain q where q: "L = q * D" by (metis dvd_def mult.commute)
  then have "nchunks D L = q" using nchunks_le [of L] less_nchunks [of "q - 1" L] D_pos
    by (metis div_mult_self_is_m le_antisym le_refl less_nchunks linorder_not_le mult_less_cancel2)
  then show ?thesis by (simp add: q)
qed

end

end
