(* ===== verification/Xfer.thy ===== *)
theory Xfer
  imports Chunks
begin

text \<open>
  The broadcast file transfer (\<^verbatim>\<open>Lab/10/Broadcast-XDP-File-Transfer/src\<close>): the checksums of \<^verbatim>\<open>utils.hpp\<close>,
  the sender of \<^verbatim>\<open>client.cpp\<close>, which packs the files, cuts the result into numbered chunks and
  repeats those that are not acknowledged, and the receiver of \<^verbatim>\<open>server.cpp\<close>, which collects the
  chunks in any order, acknowledges them in a bit set, and unpacks the files. The sockets are
  arguments: the packets that arrive. Writing outside an array, or reading what was never written,
  is undefined and gives \<open>None\<close>. Memory is little endian. What the transfer shares with that of lab
  8 (packing and unpacking the files, the bit set, the receiver's record) is in \<open>ByteData\<close> and
  \<open>Chunks\<close>, whose laws are discharged here.
\<close>

section \<open>Sizes\<close>

definition PACKET_SIZE :: nat where
  "PACKET_SIZE = 1500"

text \<open>\<^verbatim>\<open>sizeof(hdr_t)\<close>: the IP header, the sequence number and the checksum.\<close>

definition HEADER_SIZE :: nat where
  "HEADER_SIZE = 20 + 4 + 4"

definition DATA_SIZE :: nat where
  "DATA_SIZE = PACKET_SIZE - HEADER_SIZE - 4 - 4"

lemma DATA_SIZE_value: "DATA_SIZE = 1464"
  by (simp add: DATA_SIZE_def PACKET_SIZE_def HEADER_SIZE_def)

section \<open>Checksums\<close>

definition MOD_ADLER :: "32 word" where
  "MOD_ADLER = 1000000007"

fun adler_loop :: "bytes \<Rightarrow> 32 word \<Rightarrow> 32 word \<Rightarrow> 32 word" where
  "adler_loop [] a b = push_bit 16 b OR a"
| "adler_loop (d # ds) a b =
     (let a1 = (a + ucast d) mod MOD_ADLER; b1 = (b + a1) mod MOD_ADLER in adler_loop ds a1 b1)"

definition adler32 :: "bytes \<Rightarrow> 32 word" where
  "adler32 ds = adler_loop ds 1 0"

record pkt =
  sess_seq :: "32 word"
  pchecksum :: "32 word"  \<comment> \<open>the member \<^verbatim>\<open>checksum\<close>\<close>
  pdata :: bytes  \<comment> \<open>the member \<^verbatim>\<open>data\<close>, \<open>DATA_SIZE\<close> bytes\<close>

definition checksum :: "pkt \<Rightarrow> 32 word" where
  "checksum p = adler32 (pdata p) XOR sess_seq p"

text \<open>The Internet checksum: \<^verbatim>\<open>cksum\<close> sums 16-bit words in the machine's order.\<close>

fun sum16 :: "bytes \<Rightarrow> nat" where
  "sum16 [] = 0"
| "sum16 [x] = unat x"
| "sum16 (x # y # r) = unat x + 256 * unat y + sum16 r"

function fold16 :: "nat \<Rightarrow> nat" where
  "fold16 s = (if s div 65536 \<noteq> 0 then fold16 (s mod 65536 + s div 65536) else s)"
  by pat_completeness auto
termination
proof (relation "measure id")
  fix s :: nat
  assume "s div 65536 \<noteq> 0"
  moreover have "s div 65536 * 65536 + s mod 65536 = s" by (rule div_mult_mod_eq)
  ultimately have "s mod 65536 + s div 65536 < s" by linarith
  then show "(s mod 65536 + s div 65536, s) \<in> measure id" by simp
qed simp

declare fold16.simps [simp del]

definition cksum :: "bytes \<Rightarrow> 16 word" where
  "cksum bs = NOT (word_of_nat (fold16 (sum16 bs)))"

text \<open>The IP header \<^verbatim>\<open>send\<close> fills in: version 4, five words, the length of the packet, TTL 64,
  protocol 153, the checksum, and the destination twice.\<close>

definition ip_header :: "bytes \<Rightarrow> 16 word \<Rightarrow> bytes" where
  "ip_header dst s =
     [0x45, 0, word_of_nat ((HEADER_SIZE + DATA_SIZE) div 256), word_of_nat ((HEADER_SIZE + DATA_SIZE) mod 256),
      0, 0, 0, 0, 64, 153, ucast s, ucast (drop_bit 8 s)] @ dst @ dst"

text \<open>What \<^verbatim>\<open>send\<close> puts on the wire.\<close>

definition send_pkt :: "bytes \<Rightarrow> pkt \<Rightarrow> bytes \<times> pkt" where
  "send_pkt dst p = (ip_header dst (cksum (ip_header dst 0)), p\<lparr>pchecksum := checksum p\<rparr>)"

section \<open>The sender\<close>

text \<open>The chunks, under the keys from 1 on, and the entry 0 that announces the size.\<close>

function chunk_loop :: "bytes \<Rightarrow> nat \<Rightarrow> (nat \<times> bytes) list" where
  "chunk_loop orig i =
     (if i * DATA_SIZE < length orig
      then (let offset = i * DATA_SIZE
            in (i + 1, take (min DATA_SIZE (length orig - offset)) (drop offset orig)) # chunk_loop orig (i + 1))
      else [])"
  by pat_completeness auto
termination
  by (relation "measure (\<lambda>(orig, i). length orig - i * DATA_SIZE)") (auto simp: DATA_SIZE_value)

declare chunk_loop.simps [simp del]

definition data_map_of :: "bytes \<Rightarrow> (nat \<times> bytes) list" where
  "data_map_of orig = (0, le64 (length orig) @ replicate 8 0) # chunk_loop orig 0"

definition packet_of :: "nat \<times> bytes \<Rightarrow> pkt" where
  "packet_of e = \<lparr>sess_seq = word_of_nat (fst e), pchecksum = 0,
     pdata = snd e @ replicate (DATA_SIZE - length (snd e)) 0\<rparr>"

text \<open>One round of the sender: the packets it sends (\<open>None\<close> when a key lies behind the bit set, whose
  \<^verbatim>\<open>operator[]\<close> is unchecked), and the map after the last response was read.\<close>

definition round_packets :: "bytes \<Rightarrow> bytes \<Rightarrow> (nat \<times> bytes) list \<Rightarrow> (bytes \<times> pkt) list option" where
  "round_packets dst donebit m =
     (if list_all (\<lambda>e. fst e < 8 * length donebit) m
      then Some (map (\<lambda>e. send_pkt dst (packet_of e)) (filter (\<lambda>e. \<not> get_bit donebit (fst e)) m))
      else None)"

definition round_erase :: "bytes \<Rightarrow> (nat \<times> bytes) list \<Rightarrow> (nat \<times> bytes) list" where
  "round_erase donebit m = filter (\<lambda>e. \<not> (fst e < DATA_SIZE * 8 \<and> get_bit donebit (fst e))) m"

section \<open>The receiver\<close>

definition rx_init :: Rx where
  "rx_init = \<lparr>recvbit = replicate DATA_SIZE 0, orig_size = UINT_MAX, recv_size = 0, data_map = []\<rparr>"

definition rx_packet :: "pkt \<Rightarrow> Rx \<Rightarrow> Rx option" where
  "rx_packet p st =
     (if checksum p \<noteq> pchecksum p then Some st
      else let seq = unat (sess_seq p)
           in case set_bit (recvbit st) seq of None \<Rightarrow> None
              | Some bs \<Rightarrow>
                 let st1 = st\<lparr>recvbit := bs\<rparr>
                 in if seq = 0
                    then (if orig_size st1 = UINT_MAX
                          then Some (st1\<lparr>orig_size := le_val (take 8 (pdata p)) mod 2 ^ 32\<rparr>) else Some st1)
                    else if um_find (data_map st1) seq = None
                    then Some (st1\<lparr>data_map := um_emplace seq (pdata p) (data_map st1),
                                recv_size := (recv_size st1 + DATA_SIZE) mod 2 ^ 32\<rparr>)
                    else Some st1)"

text \<open>The receive loop over the packets that arrive.\<close>

fun rx_run :: "pkt list \<Rightarrow> Rx \<Rightarrow> Rx option" where
  "rx_run [] st = Some st"
| "rx_run (p # ps) st = (if rx_more st then rx_packet p st \<bind> rx_run ps else Some st)"

fun write_frags :: "(nat \<times> bytes) list \<Rightarrow> 8 word option list \<Rightarrow> 8 word option list option" where
  "write_frags [] buf = Some buf"
| "write_frags ((seq, fr) # m) buf =
     (if seq \<noteq> 0 then write_at buf ((seq - 1) * DATA_SIZE) fr \<bind> write_frags m else write_frags m buf)"

text \<open>The traversal of a \<^verbatim>\<open>std::map\<close> goes by ascending keys.\<close>

definition assemble :: "nat \<Rightarrow> (nat, bytes) um \<Rightarrow> 8 word option list option" where
  "assemble alloc m = write_frags (sort_key fst m) (replicate alloc None)"

text \<open>After the loop: \<^verbatim>\<open>new char[orig_size]\<close>, the fragments copied in, the files taken out.\<close>

definition rx_finish :: "Rx \<Rightarrow> (nat \<times> bytes) list option" where
  "rx_finish st = do {
     buf \<leftarrow> assemble (orig_size st) (data_map st);
     if None \<in> set buf then None else unpack_files (map the buf) }"

section \<open>The laws of the chunks\<close>

interpretation xf: chunked DATA_SIZE chunk_loop write_frags
proof unfold_locales
  show "chunk_loop orig i = (if i * DATA_SIZE < length orig
      then (i + 1, chunk DATA_SIZE orig i) # chunk_loop orig (i + 1) else [])" for orig i
    by (subst chunk_loop.simps) (simp add: chunk_def Let_def min_def)
qed (simp_all add: max_orig_def DATA_SIZE_value)

end
