(* ===== verification/XferCorrect.thy ===== *)
theory XferCorrect
  imports Xfer
begin

text \<open>
  Correctness of the checksums of the broadcast transfer: which errors the packet checksum detects,
  and that the IP header verifies.
\<close>

section \<open>The checksums\<close>

definition byte_sum :: "bytes \<Rightarrow> nat" where
  "byte_sum ds = sum_list (map unat ds)"

lemma unat_byte: "unat (d :: 8 word) < 256"
  using unsigned_less [of d] by simp

lemma byte_sum_le: "byte_sum ds \<le> 255 * length ds"
proof (induction ds)
  case (Cons d ds)
  then show ?case using unat_byte [of d] by (simp add: byte_sum_def)
qed (simp add: byte_sum_def)

lemma adler_step:
  assumes "unat a + unat d < 1000000007"
  shows "unat ((a + ucast d) mod MOD_ADLER) = unat a + unat (d :: 8 word)"
proof -
  have u: "unat (ucast d :: 32 word) = unat d"
  proof -
    have "unat d < 2 ^ 32" using unat_byte [of d] by simp
    then show ?thesis by (simp add: unsigned_ucast_eq take_bit_nat_eq_self)
  qed
  have "unat (a + ucast d) = unat a + unat d"
    using assms by (subst unat_add_lem [THEN iffD1]) (simp_all add: u)
  then show ?thesis using assms by (simp add: unat_mod MOD_ADLER_def)
qed

lemma adler_low:
  "unat a + 255 * length ds < 1000000007 \<Longrightarrow>
    unat (adler_loop ds a b) mod 65536 = (unat a + byte_sum ds) mod 65536"
proof (induction ds arbitrary: a b)
  case Nil
  have "take_bit 16 (push_bit 16 b OR a) = take_bit 16 a"
    by (rule bit_word_eqI) (auto simp: bit_simps)
  then have "take_bit 16 (unat (push_bit 16 b OR a)) = take_bit 16 (unat a)"
    by (metis unsigned_take_bit_eq)
  then show ?case by (simp add: take_bit_eq_mod byte_sum_def)
next
  case (Cons d ds)
  have d: "unat d < 256" by (rule unat_byte)
  have a1: "unat ((a + ucast d) mod MOD_ADLER) = unat a + unat d"
    using Cons.prems d by (intro adler_step) simp
  show ?case
    using Cons.IH [of "(a + ucast d) mod MOD_ADLER"] Cons.prems d
    by (simp add: a1 Let_def byte_sum_def add.assoc)
qed

lemma byte_sum_update:
  "i < length ds \<Longrightarrow> byte_sum (ds[i := x]) + unat (ds ! i) = byte_sum ds + unat x"
  by (induction ds arbitrary: i) (auto simp: byte_sum_def split: nat.splits)

lemma small_shift:
  assumes "u mod 65536 = v mod 65536" and "u + e = v + d" and "d < 256" and "e < (256 :: nat)"
  shows "d = e"
proof -
  have eq: "u div 65536 * 65536 + e = v div 65536 * 65536 + d"
    using assms(1,2) div_mult_mod_eq [of u 65536] div_mult_mod_eq [of v 65536] by linarith
  have "\<not> u div 65536 < v div 65536" and "\<not> v div 65536 < u div 65536"
    using eq assms(3,4) by linarith+
  then show ?thesis using eq by simp
qed

text \<open>
  C21. The packet checksum detects every error in a single byte: on data of at most 1464 bytes, the
  sums never reach the modulus, so two packets that differ in one data byte have different
  checksums, whatever the sequence number.
\<close>

theorem checksum_single_error:
  assumes "length (pdata p) \<le> DATA_SIZE" and "i < length (pdata p)" and "x \<noteq> pdata p ! i"
  shows "checksum (p\<lparr>pdata := (pdata p)[i := x]\<rparr>) \<noteq> checksum p"
proof
  assume eq: "checksum (p\<lparr>pdata := (pdata p)[i := x]\<rparr>) = checksum p"
  have cancel: "u = v" if "u XOR w = v XOR w" for u v w :: "32 word"
  proof -
    have "(u XOR w) XOR w = (v XOR w) XOR w" using that by simp
    then show ?thesis by (simp add: xor.assoc)
  qed
  have "adler32 ((pdata p)[i := x]) XOR sess_seq p = adler32 (pdata p) XOR sess_seq p"
    using eq by (simp add: checksum_def)
  then have "adler32 ((pdata p)[i := x]) = adler32 (pdata p)" by (rule cancel)
  moreover have "255 * length (pdata p) + 1 < 1000000007"
    using assms(1) by (simp add: DATA_SIZE_value)
  ultimately have "(1 + byte_sum ((pdata p)[i := x])) mod 65536 = (1 + byte_sum (pdata p)) mod 65536"
    using adler_low [of 1 "(pdata p)[i := x]" 0] adler_low [of 1 "pdata p" 0] by (simp add: adler32_def)
  moreover have "(1 + byte_sum ((pdata p)[i := x])) + unat (pdata p ! i) = (1 + byte_sum (pdata p)) + unat x"
    using byte_sum_update [OF assms(2), of x] by simp
  ultimately have "unat x = unat (pdata p ! i)"
    using small_shift unat_byte by blast
  then show False using assms(3) unsigned_word_eqI by blast
qed

lemma fold16_mod: "fold16 s mod 65535 = s mod 65535"
proof (induction s rule: fold16.induct)
  case (1 s)
  have "(s mod 65536 + s div 65536) mod 65535 = s mod 65535"
  proof -
    have "s = s div 65536 * 65535 + (s mod 65536 + s div 65536)" using div_mult_mod_eq [of s 65536] by simp
    then show ?thesis by (metis mod_mult_self3)
  qed
  then show ?case using 1 by (subst fold16.simps) simp
qed

lemma fold16_bounds: "fold16 s < 65536 \<and> (fold16 s = 0 \<longleftrightarrow> s = 0)"
proof (induction s rule: fold16.induct)
  case (1 s)
  show ?case
  proof (cases "s div 65536 = 0")
    case True
    then show ?thesis by (subst (1 2) fold16.simps) (auto simp: div_eq_0_iff)
  next
    case False
    then have "fold16 s = fold16 (s mod 65536 + s div 65536)" by (subst fold16.simps) simp
    then show ?thesis using 1 [OF False] False by auto
  qed
qed

text \<open>
  The IP checksum: with the checksum that \<^verbatim>\<open>send\<close> stores, computed while the field is zero, the
  header verifies; the checksum over the whole header is then zero, as a receiver demands.
\<close>

theorem ip_header_verifies:
  assumes "length dst = 4"
  shows "cksum (ip_header dst (cksum (ip_header dst 0))) = 0"
proof -
  define s where "s = sum16 (ip_header dst 0)"
  define c where "c = cksum (ip_header dst 0)"
  obtain w x y z where dst: "dst = [w, x, y, z]"
    using assms by (auto simp: length_Suc_conv numeral_eq_Suc)
  have f: "fold16 s < 65536" "fold16 s mod 65535 = s mod 65535"
    using fold16_bounds [of s] fold16_mod [of s] by auto
  have c: "unat c = 65535 - fold16 s"
  proof -
    have "c = - 1 - word_of_nat (fold16 s)" by (simp add: c_def cksum_def s_def not_eq_complement)
    moreover have "unat (word_of_nat (fold16 s) :: 16 word) = fold16 s" using f(1) by (simp add: unat_of_nat)
    moreover have "(word_of_nat (fold16 s) :: 16 word) \<le> - 1" by simp
    moreover have "unat (- 1 :: 16 word) = 65535"
      by (simp add: unsigned_minus_1_eq_mask mask_eq_exp_minus_1)
    ultimately show ?thesis by (simp add: unat_sub)
  qed
  have lo: "unat (ucast c :: 8 word) = unat c mod 256"
    by (simp add: unsigned_ucast_eq take_bit_eq_mod)
  have hi: "unat (ucast (drop_bit 8 c) :: 8 word) = unat c div 256"
  proof -
    have "unat (drop_bit 8 c) = unat c div 256" by (simp add: drop_bit_eq_div unat_div)
    moreover have "unat c div 256 < 256" using unsigned_less [of c] by (simp add: div_less_iff_less_mult)
    ultimately show ?thesis by (simp add: unsigned_ucast_eq take_bit_eq_mod)
  qed
  have "sum16 (ip_header dst c) = s + (unat c mod 256 + 256 * (unat c div 256))"
    by (simp add: s_def ip_header_def dst lo hi)
  then have sum: "sum16 (ip_header dst c) = s + unat c" by simp
  have "s > 0" by (simp add: s_def ip_header_def dst)
  have "(s + unat c) mod 65535 = (fold16 s + unat c) mod 65535" using f(2) by (metis mod_add_left_eq)
  also have "\<dots> = 0" using c f(1) by simp
  finally have "fold16 (s + unat c) mod 65535 = 0" by (simp add: fold16_mod)
  moreover have "fold16 (s + unat c) < 65536" "fold16 (s + unat c) \<noteq> 0"
    using fold16_bounds [of "s + unat c"] \<open>s > 0\<close> by auto
  moreover obtain k where k: "fold16 (s + unat c) = 65535 * k"
    using calculation(1) by (auto simp: mod_eq_0_iff_dvd)
  ultimately have "k = 1" by auto
  then have "fold16 (s + unat c) = 65535" using k by simp
  then have "cksum (ip_header dst c) = NOT (word_of_nat 65535)" by (simp add: cksum_def sum)
  also have "\<dots> = 0" by (simp add: not_eq_complement)
  finally show ?thesis by (simp add: c_def)
qed

end
