(* ===== verification/XferReceive.thy ===== *)
theory XferReceive
  imports XferCorrect
begin

text \<open>
  The receiver of the broadcast transfer against a channel that loses, repeats, reorders and damages
  packets: the invariant \<open>rx_ok\<close> says what the state holds after a set of sequence numbers has been
  seen; from it follow when the receive loop ends and what the code after the loop does.
\<close>

section \<open>What arrives\<close>

text \<open>A packet as it leaves \<^verbatim>\<open>send\<close>, without the IP header; and a packet the channel may deliver.\<close>

definition sealed :: "nat \<times> bytes \<Rightarrow> pkt" where
  "sealed e = snd (send_pkt [] (packet_of e))"

definition from_sender :: "bytes \<Rightarrow> pkt \<Rightarrow> bool" where
  "from_sender orig p \<longleftrightarrow> checksum p \<noteq> pchecksum p \<or> p \<in> sealed ` set (data_map_of orig)"

definition good_seqs :: "pkt list \<Rightarrow> nat set" where
  "good_seqs ps = (\<lambda>p. unat (sess_seq p)) ` {p \<in> set ps. checksum p = pchecksum p}"

lemma data_map_full: "data_map_of orig = full_map DATA_SIZE orig"
  by (simp add: data_map_of_def xf.cut_full)

lemma from_sender_cases:
  assumes "from_sender orig p" and "checksum p = pchecksum p" and "length orig \<le> max_orig DATA_SIZE"
  obtains "unat (sess_seq p) = 0" and "le_val (take 8 (pdata p)) mod 2 ^ 32 = length orig"
  | k where "unat (sess_seq p) = k" and "1 \<le> k" and "k \<le> nchunks DATA_SIZE (length orig)" and "pdata p = frag DATA_SIZE orig k"
proof -
  obtain e where e: "e \<in> set (full_map DATA_SIZE orig)" and p: "p = sealed e"
    using assms(1,2) by (auto simp: from_sender_def data_map_full)
  have parts: "sess_seq p = word_of_nat (fst e)" "pdata p = snd e @ replicate (DATA_SIZE - length (snd e)) 0"
    by (simp_all add: p sealed_def send_pkt_def packet_of_def)
  show ?thesis
  proof (rule xf.full_map_cases [OF e assms(3), of "replicate (DATA_SIZE - length (snd e)) 0"], goal_cases)
    case 1
    then show ?thesis by (intro that(1)) (simp_all add: parts)
  next
    case (2 k)
    then show ?thesis by (intro that(2) [of k]) (simp_all add: parts unat_of_nat)
  qed
qed

section \<open>The invariant\<close>

lemma rx_ok_init: "rx_ok DATA_SIZE orig {} rx_init"
proof -
  have "\<not> get_bit (replicate DATA_SIZE 0) j" if "j < 8 * DATA_SIZE" for j
    using that by (simp add: get_bit_def less_mult_imp_div_less mult.commute)
  then show ?thesis by (simp add: rx_ok_def rx_init_def)
qed

lemma rx_ok_step:
  assumes ok: "rx_ok DATA_SIZE orig seen st" and p: "from_sender orig p" and small: "length orig \<le> max_orig DATA_SIZE"
  shows "\<exists>st'. rx_packet p st = Some st' \<and> rx_ok DATA_SIZE orig (seen \<union> good_seqs [p]) st'"
proof (cases "checksum p = pchecksum p")
  case False
  then have "good_seqs [p] = {}" by (auto simp: good_seqs_def)
  then show ?thesis using False ok by (simp add: rx_packet_def)
next
  case True
  define k where "k = unat (sess_seq p)"
  have seqs: "seen \<union> good_seqs [p] = insert k seen" using True by (auto simp: good_seqs_def k_def)
  have "k \<le> nchunks DATA_SIZE (length orig)" by (rule from_sender_cases [OF p True small]) (simp_all add: k_def)
  then obtain bs where bs: "set_bit (recvbit st) k = Some bs" using xf.rx_ok_bit [OF ok _ small] by blast
  show ?thesis unfolding seqs
  proof (rule from_sender_cases [OF p True small], goal_cases)
    case 1
    then have "k = 0" by (simp add: k_def)
    have "orig_size st \<in> {UINT_MAX, length orig}" using ok by (simp add: rx_ok_def)
    then have "rx_packet p st = Some (st\<lparr>recvbit := bs, orig_size := length orig\<rparr>)"
      using 1 bs \<open>k = 0\<close> by (auto simp: rx_packet_def Let_def True)
    then show ?case using xf.rx_ok_size [OF ok] bs \<open>k = 0\<close> by simp
  next
    case (2 j)
    then have j: "j = k" by (simp add: k_def)
    then have "rx_packet p st = Some (if um_find (data_map st) k = None
        then st\<lparr>recvbit := bs, data_map := um_emplace k (frag DATA_SIZE orig k) (data_map st),
          recv_size := (recv_size st + DATA_SIZE) mod 2 ^ 32\<rparr>
        else st\<lparr>recvbit := bs\<rparr>)"
      using 2 bs by (simp add: rx_packet_def Let_def True k_def)
    then show ?case using xf.rx_ok_chunk [OF ok bs _ _ small] 2(2,3) j by auto
  qed
qed

section \<open>The receive loop\<close>

lemma rx_run_ok:
  assumes "rx_ok DATA_SIZE orig seen st" and "\<forall>p\<in>set ps. from_sender orig p" and small: "length orig \<le> max_orig DATA_SIZE"
  shows "\<exists>st' seen'. rx_run ps st = Some st' \<and> rx_ok DATA_SIZE orig seen' st' \<and> seen' \<subseteq> seen \<union> good_seqs ps \<and>
    (rx_more st' \<longrightarrow> seen' = seen \<union> good_seqs ps)"
  using assms(1,2)
proof (induction ps arbitrary: st seen)
  case Nil
  then show ?case by (auto simp: good_seqs_def)
next
  case (Cons p ps)
  show ?case
  proof (cases "rx_more st")
    case False
    then show ?thesis using Cons.prems by auto
  next
    case True
    obtain st1 where st1: "rx_packet p st = Some st1" "rx_ok DATA_SIZE orig (seen \<union> good_seqs [p]) st1"
      using rx_ok_step [OF Cons.prems(1) _ small] Cons.prems(2) by auto
    have "good_seqs (p # ps) = good_seqs [p] \<union> good_seqs ps" by (auto simp: good_seqs_def)
    then show ?thesis using Cons.IH [OF st1(2)] Cons.prems(2) st1(1) True by (simp add: Un_assoc)
  qed
qed

lemma rx_run_complete:
  assumes "\<forall>p\<in>set ps. from_sender orig p" and small: "length orig \<le> max_orig DATA_SIZE"
  obtains st seen where "rx_run ps rx_init = Some st" and "rx_ok DATA_SIZE orig seen st"
    and "\<not> rx_more st \<longleftrightarrow> {0..nchunks DATA_SIZE (length orig)} \<subseteq> good_seqs ps"
proof -
  obtain st seen where st: "rx_run ps rx_init = Some st" "rx_ok DATA_SIZE orig seen st" "seen \<subseteq> good_seqs ps"
      "rx_more st \<Longrightarrow> seen = good_seqs ps"
    using rx_run_ok [OF rx_ok_init assms] by auto
  then have "\<not> rx_more st \<longleftrightarrow> {0..nchunks DATA_SIZE (length orig)} \<subseteq> good_seqs ps"
    using xf.rx_ok_more [OF st(2) small] by blast
  then show ?thesis using that st by blast
qed

text \<open>
  The receive loop, under any loss, repetition, reordering and detected damage of the sender's
  packets: it never leaves its arrays, it ends exactly when the size and every chunk have arrived
  intact, and every chunk it has kept is the sender's.
\<close>

theorem receive_complete:
  assumes "\<forall>p\<in>set ps. from_sender orig p" and "length orig \<le> max_orig DATA_SIZE"
  shows "\<exists>st. rx_run ps rx_init = Some st \<and>
    (\<not> rx_more st \<longleftrightarrow> {0..nchunks DATA_SIZE (length orig)} \<subseteq> good_seqs ps) \<and>
    (\<forall>k d. um_find (data_map st) k = Some d \<longrightarrow> d = frag DATA_SIZE orig k)"
proof (rule rx_run_complete [OF assms])
  fix st seen
  assume "rx_run ps rx_init = Some st" and ok: "rx_ok DATA_SIZE orig seen st"
    and "\<not> rx_more st \<longleftrightarrow> {0..nchunks DATA_SIZE (length orig)} \<subseteq> good_seqs ps"
  moreover have "d = frag DATA_SIZE orig k" if "um_find (data_map st) k = Some d" for k d
    using ok that by (auto simp: rx_ok_def split: if_splits)
  ultimately show ?thesis by blast
qed

section \<open>After the loop\<close>

lemma rx_finish_complete:
  assumes "list_all file_ok files" and ok: "rx_ok DATA_SIZE (pack_files files) {0..nchunks DATA_SIZE (length (pack_files files))} st"
  shows "rx_finish st = (if DATA_SIZE dvd length (pack_files files) then Some files else None)"
proof -
  let ?orig = "pack_files files"
  have "orig_size st = length ?orig" using ok by (simp add: rx_ok_def)
  moreover have "assemble (length ?orig) (data_map st) = (if DATA_SIZE dvd length ?orig then Some (map Some ?orig) else None)"
  proof (cases "DATA_SIZE dvd length ?orig")
    case True
    then show ?thesis using xf.copy_complete(1) [OF ok] xf.nchunks_dvd [OF True] by (auto simp: assemble_def)
  next
    case False
    then show ?thesis using xf.copy_complete(2) [OF ok] by (simp add: assemble_def)
  qed
  ultimately have "rx_finish st = (if DATA_SIZE dvd length ?orig then unpack_files ?orig else None)"
    by (auto simp: rx_finish_def comp_def)
  then show ?thesis using unpack_pack [OF assms(1)] by auto
qed

text \<open>
  The transfer as a whole: once the size and every chunk of the packed files have arrived
  intact, in whatever order and number, the receiver gets exactly the sender's files back, when the
  size of the packed files is a multiple of the chunk size. When it is not, the copy of the last,
  padded chunk goes over the end of \<^verbatim>\<open>new char[orig_size]\<close>.
\<close>

theorem transfer_files:
  assumes "list_all file_ok files" and "length (pack_files files) \<le> max_orig DATA_SIZE"
    and "\<forall>p\<in>set ps. from_sender (pack_files files) p"
    and "{0..nchunks DATA_SIZE (length (pack_files files))} \<subseteq> good_seqs ps"
  shows "\<exists>st. rx_run ps rx_init = Some st \<and> \<not> rx_more st \<and>
    rx_finish st = (if DATA_SIZE dvd length (pack_files files) then Some files else None)"
proof (rule rx_run_complete [OF assms(3,2)])
  fix st seen
  let ?orig = "pack_files files"
  assume run: "rx_run ps rx_init = Some st" and ok: "rx_ok DATA_SIZE ?orig seen st"
    and more: "\<not> rx_more st \<longleftrightarrow> {0..nchunks DATA_SIZE (length ?orig)} \<subseteq> good_seqs ps"
  then have fin: "\<not> rx_more st" using assms(4) by blast
  then have seen: "seen = {0..nchunks DATA_SIZE (length ?orig)}"
    using xf.rx_ok_more [OF ok assms(2)] ok by (auto simp: rx_ok_def)
  then show ?thesis using run fin rx_finish_complete [OF assms(1) ok [unfolded seen]] by blast
qed

section \<open>A channel that delivers everything\<close>

lemma good_seqs_all:
  assumes "length orig \<le> max_orig DATA_SIZE" and "set ps = sealed ` set (data_map_of orig)"
  shows "\<forall>p\<in>set ps. from_sender orig p" and "{0..nchunks DATA_SIZE (length orig)} \<subseteq> good_seqs ps"
proof -
  show "\<forall>p\<in>set ps. from_sender orig p" using assms(2) by (simp add: from_sender_def)
  have good: "word_of_nat (fst e) \<in> sess_seq ` {p \<in> set ps. checksum p = pchecksum p}"
    if "e \<in> set (data_map_of orig)" for e
  proof -
    have "checksum (sealed e) = pchecksum (sealed e)" "sess_seq (sealed e) = word_of_nat (fst e)"
      by (simp_all add: sealed_def send_pkt_def packet_of_def checksum_def)
    moreover have "sealed e \<in> set ps" using that assms(2) by simp
    ultimately show ?thesis by (metis (mono_tags, lifting) image_eqI mem_Collect_eq)
  qed
  show "{0..nchunks DATA_SIZE (length orig)} \<subseteq> good_seqs ps"
  proof
    fix k
    assume k: "k \<in> {0..nchunks DATA_SIZE (length orig)}"
    then obtain e where e: "e \<in> set (data_map_of orig)" "fst e = k"
      unfolding data_map_full full_map_keys [symmetric] by auto
    have "k < 2 ^ 32" using k xf.nchunks_max [OF assms(1)] xf.D_small(2) by simp
    then have "unat (word_of_nat k :: 32 word) = k" by (simp add: unat_of_nat)
    moreover obtain p where "p \<in> set ps" "checksum p = pchecksum p" "sess_seq p = word_of_nat k"
      using good [OF e(1)] e(2) by auto
    ultimately show "k \<in> good_seqs ps" by (force simp: good_seqs_def)
  qed
qed

section \<open>The properties on concrete inputs\<close>

lemma checksum_single_error_witness:
  "checksum (\<lparr>sess_seq = 7, pchecksum = 0, pdata = [1, 2, 3]\<rparr>\<lparr>pdata := [1, 9, 3]\<rparr>)
    \<noteq> checksum \<lparr>sess_seq = 7, pchecksum = 0, pdata = [1, 2, 3]\<rparr>"
  using checksum_single_error [of "\<lparr>sess_seq = 7, pchecksum = 0, pdata = [1, 2, 3]\<rparr>" 1 9]
  by (simp add: DATA_SIZE_value)

lemma ip_header_verifies_witness:
  "cksum (ip_header [192, 168, 0, 255] (cksum (ip_header [192, 168, 0, 255] 0))) = 0"
  using ip_header_verifies [of "[192, 168, 0, 255]"] by simp

definition demo_ps :: "bytes \<Rightarrow> pkt list" where
  "demo_ps orig = rev (map sealed (data_map_of orig))"

lemma demo_ps: "length orig \<le> max_orig DATA_SIZE \<Longrightarrow>
    (\<forall>p\<in>set (demo_ps orig). from_sender orig p) \<and> {0..nchunks DATA_SIZE (length orig)} \<subseteq> good_seqs (demo_ps orig)"
  using good_seqs_all [of orig "demo_ps orig"] by (simp add: demo_ps_def)

lemma receive_complete_witness:
  "\<exists>st. rx_run (demo_ps [1, 2, 3]) rx_init = Some st \<and> \<not> rx_more st"
proof -
  have small: "length [1, 2, 3 :: 8 word] \<le> max_orig DATA_SIZE" by (simp add: max_orig_def DATA_SIZE_value)
  show ?thesis using receive_complete [OF conjunct1 [OF demo_ps [OF small]] small] demo_ps [OF small] by blast
qed

text \<open>A file of 1456 bytes, which fills a chunk with its header, and one of three bytes, which does not.\<close>

definition demo_file :: "nat \<Rightarrow> (nat \<times> bytes) list" where
  "demo_file len = [(0, replicate len 7)]"

lemma demo_file:
  assumes "len \<le> 1456"
  shows "list_all file_ok (demo_file len)" and "length (pack_files (demo_file len)) = len + 8"
    and "length (pack_files (demo_file len)) \<le> max_orig DATA_SIZE"
  using assms by (simp_all add: demo_file_def file_ok_def pack_files_def init_bytes_def max_orig_def DATA_SIZE_value)

lemma transfer_files_witness:
  "(\<exists>st. rx_run (demo_ps (pack_files (demo_file 1456))) rx_init = Some st \<and> rx_finish st = Some (demo_file 1456)) \<and>
    (\<exists>st. rx_run (demo_ps (pack_files (demo_file 3))) rx_init = Some st \<and> rx_finish st = None)"
  using transfer_files [OF demo_file(1,3) conjunct1 [OF demo_ps [OF demo_file(3)]] conjunct2 [OF demo_ps [OF demo_file(3)]], of 1456]
    transfer_files [OF demo_file(1,3) conjunct1 [OF demo_ps [OF demo_file(3)]] conjunct2 [OF demo_ps [OF demo_file(3)]], of 3]
    demo_file(2) [of 1456] demo_file(2) [of 3]
  by (auto simp: DATA_SIZE_value)

end
