(* ===== verification/Rounds.thy ===== *)
theory Rounds
  imports Main
begin

text \<open>
  Protocols in rounds, used for the two file transfers. In every round the network chooses what gets
  through (the elements of a schedule); a round may be undefined (\<open>None\<close>); some rounds are productive.
  The interface \<open>progress\<close> asks for an invariant and a measure that every productive round decreases;
  the run of a schedule with enough productive rounds then ends.
\<close>

fun rounds :: "('i \<Rightarrow> 'n \<Rightarrow> 'n option) \<Rightarrow> ('n \<Rightarrow> bool) \<Rightarrow> 'i list \<Rightarrow> 'n \<Rightarrow> 'n option" where
  "rounds round over [] n = Some n"
| "rounds round over (i # sched) n =
     (if over n then Some n else case round i n of None \<Rightarrow> None | Some n' \<Rightarrow> rounds round over sched n')"

text \<open>The schedules a network may choose, and how many of their rounds are productive.\<close>

fun allowed_rounds :: "('i \<Rightarrow> 'n \<Rightarrow> 'n option) \<Rightarrow> ('n \<Rightarrow> bool) \<Rightarrow> ('i \<Rightarrow> 'n \<Rightarrow> bool) \<Rightarrow> 'i list \<Rightarrow> 'n \<Rightarrow> bool" where
  "allowed_rounds round over may [] n = True"
| "allowed_rounds round over may (i # sched) n =
     (over n \<or> may i n \<and> (case round i n of None \<Rightarrow> True | Some n' \<Rightarrow> allowed_rounds round over may sched n'))"

fun productive_rounds :: "('i \<Rightarrow> 'n \<Rightarrow> 'n option) \<Rightarrow> ('n \<Rightarrow> bool) \<Rightarrow> ('i \<Rightarrow> 'n \<Rightarrow> bool) \<Rightarrow> 'i list \<Rightarrow> 'n \<Rightarrow> nat" where
  "productive_rounds round over good [] n = 0"
| "productive_rounds round over good (i # sched) n =
     (if over n then 0
      else of_bool (good i n) + (case round i n of None \<Rightarrow> 0 | Some n' \<Rightarrow> productive_rounds round over good sched n'))"

text \<open>Either nothing of a kind \<open>bad\<close> happens in the rounds of a schedule, or there is a first such round.\<close>

lemma allowed_rounds_or_first:
  assumes "allowed_rounds round over may sched n"
  shows "allowed_rounds round over (\<lambda>i m. may i m \<and> \<not> bad i m) sched n \<or>
    (\<exists>pre i post m. sched = pre @ i # post \<and> allowed_rounds round over (\<lambda>i m. may i m \<and> \<not> bad i m) pre n \<and>
      rounds round over pre n = Some m \<and> \<not> over m \<and> bad i m)"
  using assms
proof (induction sched arbitrary: n)
  case (Cons i sched)
  consider "over n" | "\<not> over n" "bad i n" | "\<not> over n" "\<not> bad i n" "round i n = None"
    | n' where "\<not> over n" "\<not> bad i n" "round i n = Some n'" by fastforce
  then show ?case
  proof cases
    case 2
    then have "i # sched = [] @ i # sched \<and> allowed_rounds round over (\<lambda>i m. may i m \<and> \<not> bad i m) [] n \<and>
        rounds round over [] n = Some n \<and> \<not> over n \<and> bad i n" by simp
    then show ?thesis by blast
  next
    case (4 n')
    then consider "allowed_rounds round over (\<lambda>i m. may i m \<and> \<not> bad i m) sched n'"
      | pre j post m where "sched = pre @ j # post" "allowed_rounds round over (\<lambda>i m. may i m \<and> \<not> bad i m) pre n'"
        "rounds round over pre n' = Some m" "\<not> over m" "bad j m"
      using Cons by fastforce
    then show ?thesis
    proof cases
      case (2 pre j post m)
      then have "i # sched = (i # pre) @ j # post \<and> allowed_rounds round over (\<lambda>i m. may i m \<and> \<not> bad i m) (i # pre) n \<and>
          rounds round over (i # pre) n = Some m \<and> \<not> over m \<and> bad j m" using 4 Cons.prems by simp
      then show ?thesis by blast
    qed (use 4 Cons.prems in simp)
  qed (use Cons.prems in simp_all)
qed simp

locale progress =
  fixes round :: "'i \<Rightarrow> 'n \<Rightarrow> 'n option"
    and over :: "'n \<Rightarrow> bool"
    and may :: "'i \<Rightarrow> 'n \<Rightarrow> bool"
    and good :: "'i \<Rightarrow> 'n \<Rightarrow> bool"
    and inv :: "'n \<Rightarrow> bool"
    and left :: "'n \<Rightarrow> nat"
  assumes round_ok: "inv n \<Longrightarrow> \<not> over n \<Longrightarrow> may i n \<Longrightarrow> \<exists>n'. round i n = Some n' \<and> inv n' \<and>
      (over n' \<or> left n' + of_bool (good i n) \<le> left n)"
    and none_left: "inv n \<Longrightarrow> left n = 0 \<Longrightarrow> over n"
begin

lemma over_stays: "over n \<Longrightarrow> rounds round over sched n = Some n"
  by (cases sched) simp_all

lemma rounds_ok:
  "inv n \<Longrightarrow> allowed_rounds round over may sched n \<Longrightarrow> \<exists>n'. rounds round over sched n = Some n' \<and> inv n' \<and>
     (left n \<le> productive_rounds round over good sched n \<longrightarrow> over n')"
proof (induction sched arbitrary: n)
  case Nil
  then show ?case using none_left by simp
next
  case (Cons i sched)
  show ?case
  proof (cases "over n")
    case False
    then obtain n1 where n1: "round i n = Some n1" "inv n1" "over n1 \<or> left n1 + of_bool (good i n) \<le> left n"
      using round_ok [of n i] Cons.prems by auto
    show ?thesis
    proof (cases "over n1")
      case True
      then show ?thesis using n1 False over_stays [OF True] by simp
    next
      case more: False
      have "allowed_rounds round over may sched n1" using Cons.prems(2) False n1(1) by simp
      moreover have "left n \<le> productive_rounds round over good (i # sched) n \<Longrightarrow> left n1 \<le> productive_rounds round over good sched n1"
        using n1 more False by simp
      ultimately show ?thesis using Cons.IH [OF n1(2)] n1(1) False by auto
    qed
  qed (use Cons.prems(1) in simp)
qed

end

end
