(* ===== verification/XferNetwork.thy ===== *)
theory XferNetwork
  imports XferReceive Rounds
begin

text \<open>
  Client and server of the broadcast transfer together. A round is one turn of the client's main loop:
  it sends what is not acknowledged, packets arrive at the server, which acknowledges at most every
  500 ms, the client reads responses, and erases what they acknowledge. The network chooses which
  packets arrive, when, and which are read: any of those sent so far, in any order and number, and
  any packet that was damaged so that its checksum does not match (a \<^verbatim>\<open>recvfrom\<close> of the server that
  times out handles the packet in its buffer once more, which is one more repetition). All packets go
  to the broadcast address and neither program looks at where one comes from, so each may also read
  its own: the server takes an acknowledgement of its own for the announcement of the size, the
  client one of its own chunks for an acknowledgement. \<open>misled\<close> says when that does harm.
\<close>

section \<open>The responses\<close>

text \<open>The acknowledgement, and the final one that is repeated once the files are saved.\<close>

definition rx_ack :: "Rx \<Rightarrow> pkt" where
  "rx_ack st = snd (send_pkt [] \<lparr>sess_seq = 0, pchecksum = 0, pdata = recvbit st\<rparr>)"

definition rx_fin :: "Rx \<Rightarrow> pkt" where
  "rx_fin st = snd (send_pkt [] \<lparr>sess_seq = word_of_nat UINT_MAX, pchecksum = 0, pdata = recvbit st\<rparr>)"

text \<open>The acknowledgement in the loop: \<open>now\<close> and \<open>last_send\<close> in milliseconds.\<close>

definition ack_due :: "nat \<Rightarrow> nat \<Rightarrow> bool" where
  "ack_due now last_send \<longleftrightarrow> now - last_send > 500"

text \<open>The server's loop over the packets, each with the time it is handled at. After a damaged one
  \<^verbatim>\<open>continue\<close> skips the acknowledgement.\<close>

fun xsrv_loop :: "(nat \<times> pkt) list \<Rightarrow> Rx \<Rightarrow> nat \<Rightarrow> (Rx \<times> nat \<times> pkt list) option" where
  "xsrv_loop [] st last_send = Some (st, last_send, [])"
| "xsrv_loop ((now, p) # ps) st last_send =
     (if rx_more st
      then if checksum p \<noteq> pchecksum p then xsrv_loop ps st last_send
           else case rx_packet p st of None \<Rightarrow> None
                | Some st1 \<Rightarrow>
                  if ack_due now last_send
                  then map_option (\<lambda>(st2, l, out). (st2, l, rx_ack st1 # out)) (xsrv_loop ps st1 now)
                  else xsrv_loop ps st1 last_send
      else Some (st, last_send, []))"

text \<open>What is sent over and over after the loop, once the files are saved; and the responses that can be
  on the wire.\<close>

definition fin_resps :: "Rx \<Rightarrow> pkt list" where
  "fin_resps st = (if rx_more st then [] else case rx_finish st of None \<Rightarrow> [] | Some files \<Rightarrow> [rx_fin st])"

definition on_wire :: "Rx \<Rightarrow> pkt list \<Rightarrow> pkt set" where
  "on_wire st acks = set acks \<union> set (fin_resps st)"

text \<open>\<^verbatim>\<open>read_resps\<close> over the packets that arrive: the response it keeps, and whether it exits.\<close>

fun xread_resps :: "pkt list \<Rightarrow> pkt \<Rightarrow> pkt \<times> bool" where
  "xread_resps [] s_res = (s_res, False)"
| "xread_resps (r # rs) s_res =
     (if checksum r \<noteq> pchecksum r then xread_resps rs s_res
      else if sess_seq r = word_of_nat UINT_MAX then (r, True) else xread_resps rs r)"

section \<open>The system\<close>

record XNet =
  xmap :: "(nat \<times> bytes) list"  \<comment> \<open>the client's \<^verbatim>\<open>data_map\<close>\<close>
  xres :: pkt  \<comment> \<open>the client's \<^verbatim>\<open>s_res\<close>\<close>
  xexit :: bool
  xrx :: Rx  \<comment> \<open>the server\<close>
  xlast :: nat  \<comment> \<open>the server's \<^verbatim>\<open>last_send\<close>\<close>
  xacks :: "pkt list"  \<comment> \<open>the acknowledgements sent\<close>

definition xnet_init :: "bytes \<Rightarrow> nat \<Rightarrow> XNet" where
  "xnet_init orig t0 = \<lparr>xmap = data_map_of orig, xres = \<lparr>sess_seq = 0, pchecksum = 0, pdata = replicate DATA_SIZE 0\<rparr>,
     xexit = False, xrx = rx_init, xlast = t0, xacks = []\<rparr>"

definition xnet_over :: "XNet \<Rightarrow> bool" where
  "xnet_over n \<longleftrightarrow> xexit n \<or> xmap n = []"

text \<open>One turn: the packets that arrive at the server at \<open>broadip\<close>, and those the client reads.\<close>

definition xnet_round :: "bytes \<Rightarrow> (nat \<times> pkt) list \<times> pkt list \<Rightarrow> XNet \<Rightarrow> XNet option" where
  "xnet_round broadip i n =
     (case round_packets broadip (pdata (xres n)) (xmap n) of None \<Rightarrow> None
      | Some _ \<Rightarrow>
        case xsrv_loop (fst i) (xrx n) (xlast n) of None \<Rightarrow> None
        | Some (st, l, out) \<Rightarrow>
          let (res, ex) = xread_resps (snd i) (xres n)
          in Some (n\<lparr>xmap := (if ex then xmap n else round_erase (pdata res) (xmap n)), xres := res, xexit := ex,
                     xrx := st, xlast := l, xacks := xacks n @ out\<rparr>))"

text \<open>What the server may read in its loop, after the acknowledgements \<open>acks\<close>: the client's packets, and
  its own acknowledgements (when \<open>strict\<close>, only once it knows the size).\<close>

fun srv_hears :: "bool \<Rightarrow> bytes \<Rightarrow> pkt list \<Rightarrow> (nat \<times> pkt) list \<Rightarrow> Rx \<Rightarrow> nat \<Rightarrow> bool" where
  "srv_hears strict orig acks [] st l = True"
| "srv_hears strict orig acks ((now, p) # ps) st l =
     (rx_more st \<longrightarrow>
        (from_sender orig p \<or> p \<in> set acks \<and> (strict \<longrightarrow> orig_size st \<noteq> UINT_MAX)) \<and>
        (if checksum p \<noteq> pchecksum p then srv_hears strict orig acks ps st l
         else case rx_packet p st of None \<Rightarrow> True
              | Some st1 \<Rightarrow> if ack_due now l then srv_hears strict orig (acks @ [rx_ack st1]) ps st1 now
                            else srv_hears strict orig acks ps st1 l))"

definition xnet_may :: "bytes \<Rightarrow> (nat \<times> pkt) list \<times> pkt list \<Rightarrow> XNet \<Rightarrow> bool" where
  "xnet_may orig i n \<longleftrightarrow> srv_hears False orig (xacks n) (fst i) (xrx n) (xlast n) \<and>
     (case xsrv_loop (fst i) (xrx n) (xlast n) of None \<Rightarrow> True
      | Some (st, l, out) \<Rightarrow> \<forall>r\<in>set (snd i). checksum r \<noteq> pchecksum r \<or> r \<in> on_wire st (xacks n @ out) \<or>
          r \<in> sealed ` set (data_map_of orig))"

text \<open>A round in which a program is misled by a packet of its own: the server reads an acknowledgement
  before it knows the size; or the response the client keeps is one of its own packets, with a bit
  set for a chunk that the server does not have.\<close>

definition misled :: "bytes \<Rightarrow> (nat \<times> pkt) list \<times> pkt list \<Rightarrow> XNet \<Rightarrow> bool" where
  "misled orig i n \<longleftrightarrow> \<not> srv_hears True orig (xacks n) (fst i) (xrx n) (xlast n) \<or>
     (case xsrv_loop (fst i) (xrx n) (xlast n) of None \<Rightarrow> False
      | Some (st, l, out) \<Rightarrow> let res = fst (xread_resps (snd i) (xres n))
          in res \<in> sealed ` set (data_map_of orig) \<and> (\<exists>j < 8 * DATA_SIZE. get_bit (pdata res) j \<and> \<not> get_bit (recvbit st) j))"

text \<open>
  A round that gets something through: a packet that is still outstanding arrives, and at it or
  after it an intact packet more than 500 ms after the last acknowledgement, while the server is
  still receiving; and if the server has sent acknowledgements in this round, the client reads
  the last of them last. Or the server has saved the files, and the client reads what it sends then.
\<close>

definition comes_due :: "(nat \<times> pkt) list \<Rightarrow> XNet \<Rightarrow> bool" where
  "comes_due ps n \<longleftrightarrow> (\<exists>a now p b st1 l1 out1. ps = a @ (now, p) # b \<and> xsrv_loop a (xrx n) (xlast n) = Some (st1, l1, out1) \<and>
     rx_more st1 \<and> now - l1 > 500 \<and> checksum p = pchecksum p \<and> sealed ` set (xmap n) \<inter> snd ` set (a @ [(now, p)]) \<noteq> {})"

definition xproductive :: "(nat \<times> pkt) list \<times> pkt list \<Rightarrow> XNet \<Rightarrow> bool" where
  "xproductive i n \<longleftrightarrow>
     (case xsrv_loop (fst i) (xrx n) (xlast n) of None \<Rightarrow> False
      | Some (st, l, out) \<Rightarrow>
          comes_due (fst i) n \<and> (out = [] \<or> snd i \<noteq> [] \<and> last (snd i) = last out) \<or>
          \<not> rx_more st \<and> rx_finish st \<noteq> None \<and> set (fin_resps st) \<subseteq> set (snd i))"

definition xnet_run :: "bytes \<Rightarrow> ((nat \<times> pkt) list \<times> pkt list) list \<Rightarrow> XNet \<Rightarrow> XNet option" where
  "xnet_run broadip = rounds (xnet_round broadip) xnet_over"

definition xnet_allowed :: "bytes \<Rightarrow> bytes \<Rightarrow> ((nat \<times> pkt) list \<times> pkt list) list \<Rightarrow> XNet \<Rightarrow> bool" where
  "xnet_allowed broadip orig = allowed_rounds (xnet_round broadip) xnet_over (xnet_may orig)"

definition xnet_productive :: "bytes \<Rightarrow> ((nat \<times> pkt) list \<times> pkt list) list \<Rightarrow> XNet \<Rightarrow> nat" where
  "xnet_productive broadip = productive_rounds (xnet_round broadip) xnet_over xproductive"

section \<open>The invariant\<close>

abbreviation xfer_keys :: "bytes \<Rightarrow> nat set" where
  "xfer_keys orig \<equiv> {0..nchunks DATA_SIZE (length orig)}"

text \<open>A response that is truthful once \<open>seen\<close> has arrived.\<close>

definition true_ack :: "bytes \<Rightarrow> nat set \<Rightarrow> pkt \<Rightarrow> bool" where
  "true_ack orig seen r \<longleftrightarrow> length (pdata r) = DATA_SIZE \<and>
     (\<forall>j < 8 * DATA_SIZE. get_bit (pdata r) j \<longrightarrow> j \<in> seen) \<and> (sess_seq r = word_of_nat UINT_MAX \<longrightarrow> xfer_keys orig \<subseteq> seen)"

lemma true_ack_mono: "true_ack orig seen r \<Longrightarrow> seen \<subseteq> seen' \<Longrightarrow> true_ack orig seen' r"
  by (auto simp: true_ack_def)

lemma sent_checksum: "checksum (snd (send_pkt dst p)) = pchecksum (snd (send_pkt dst p))"
  by (simp add: send_pkt_def checksum_def)

lemma rx_ack_parts: "pdata (rx_ack st) = recvbit st" "sess_seq (rx_ack st) = 0"
    "pdata (rx_fin st) = recvbit st" "sess_seq (rx_fin st) = word_of_nat UINT_MAX"
    "checksum (rx_ack st) = pchecksum (rx_ack st)" "checksum (rx_fin st) = pchecksum (rx_fin st)"
  by (simp_all add: rx_ack_def rx_fin_def send_pkt_def checksum_def)

lemma fin_seq: "word_of_nat UINT_MAX \<noteq> (0 :: 32 word)"
  by (simp add: UINT_MAX_def)

lemma true_ack_now: "rx_ok DATA_SIZE orig seen st \<Longrightarrow> true_ack orig seen (rx_ack st)"
  by (simp add: true_ack_def rx_ack_parts rx_ok_def fin_seq [symmetric])

lemma good_seqs_keys:
  assumes "\<forall>p\<in>set ps. from_sender orig p" and "length orig \<le> max_orig DATA_SIZE"
  shows "good_seqs ps \<subseteq> xfer_keys orig"
proof -
  have "unat (sess_seq p) \<le> nchunks DATA_SIZE (length orig)" if "p \<in> set ps" and ok: "checksum p = pchecksum p" for p
    by (rule from_sender_cases [OF bspec [OF assms(1) that(1)] ok assms(2)]) simp_all
  then show ?thesis by (auto simp: good_seqs_def)
qed

lemma good_seqs_split: "good_seqs (p # ps) = (if checksum p = pchecksum p then insert (unat (sess_seq p)) (good_seqs ps) else good_seqs ps)"
  by (auto simp: good_seqs_def)

lemma xsrv_loop_append:
  "xsrv_loop (a @ b) st l = (case xsrv_loop a st l of None \<Rightarrow> None
     | Some (st1, l1, out1) \<Rightarrow> map_option (\<lambda>(st2, l2, out2). (st2, l2, out1 @ out2)) (xsrv_loop b st1 l1))"
proof (induction a st l rule: xsrv_loop.induct)
  case (1 st l)
  then show ?case by (cases "xsrv_loop b st l") auto
next
  case (2 now p ps st l)
  have "xsrv_loop b st l = Some (st, l, [])" if "\<not> rx_more st" using that by (cases b) auto
  then show ?case using 2
    by (auto split: option.split) (auto simp: map_option_case split: option.splits)
qed

lemma srv_hears_append:
  "srv_hears strict orig acks (a @ b) st l \<longleftrightarrow> srv_hears strict orig acks a st l \<and>
     (case xsrv_loop a st l of None \<Rightarrow> True | Some (st1, l1, out1) \<Rightarrow> srv_hears strict orig (acks @ out1) b st1 l1)"
proof (induction strict orig acks a st l rule: srv_hears.induct)
  case (2 strict orig acks now p ps st l)
  have "srv_hears strict orig acks b st l" if "\<not> rx_more st" using that by (cases b) auto
  then show ?case using 2 by (auto split: option.splits)
qed simp

text \<open>One packet that the server reads, its own or the client's, when it is not misled.\<close>

lemma hears_step:
  assumes ok: "rx_ok DATA_SIZE orig seen st" and small: "length orig \<le> max_orig DATA_SIZE"
    and acks: "\<forall>r\<in>set acks. sess_seq r = 0"
    and p: "from_sender orig p \<or> p \<in> set acks \<and> orig_size st \<noteq> UINT_MAX"
  shows "\<exists>st'. rx_packet p st = Some st' \<and> rx_ok DATA_SIZE orig (seen \<union> (if from_sender orig p then good_seqs [p] else {})) st'"
proof (cases "from_sender orig p")
  case True
  then show ?thesis using rx_ok_step [OF ok _ small] by simp
next
  case False
  then have p0: "sess_seq p = 0" and size: "orig_size st \<noteq> UINT_MAX" using p acks by auto
  have sees: "0 \<in> seen" "orig_size st = length orig" using ok size by (auto simp: rx_ok_def split: if_splits)
  obtain bs where bs: "set_bit (recvbit st) 0 = Some bs" using xf.rx_ok_bit [OF ok _ small, of 0] by auto
  have "checksum p = pchecksum p" using False by (simp add: from_sender_def)
  then have "rx_packet p st = Some (st\<lparr>recvbit := bs\<rparr>)" using bs size by (simp add: rx_packet_def p0)
  moreover have "rx_ok DATA_SIZE orig seen (st\<lparr>recvbit := bs, orig_size := length orig\<rparr>)"
    using xf.rx_ok_size [OF ok] bs sees(1) by (simp add: insert_absorb)
  moreover have "st\<lparr>recvbit := bs, orig_size := length orig\<rparr> = st\<lparr>recvbit := bs\<rparr>" using sees(2) by simp
  ultimately show ?thesis using False by simp
qed

lemma sealed_good:
  assumes "e \<in> set (data_map_of orig)" and "length orig \<le> max_orig DATA_SIZE"
  shows "good_seqs [sealed e] = {fst e}" and "from_sender orig (sealed e)"
proof -
  have "fst e \<in> xfer_keys orig" using assms(1) unfolding data_map_full full_map_keys [symmetric] by simp
  then have "fst e < 2 ^ 32" using xf.nchunks_max [OF assms(2)] xf.D_small(2) by simp
  then have "unat (sess_seq (sealed e)) = fst e" by (simp add: sealed_def send_pkt_def packet_of_def unat_of_nat)
  moreover have "checksum (sealed e) = pchecksum (sealed e)" by (simp add: sealed_def sent_checksum)
  ultimately show "good_seqs [sealed e] = {fst e}" by (auto simp: good_seqs_def)
  show "from_sender orig (sealed e)" using assms(1) by (simp add: from_sender_def)
qed

text \<open>The receive loop, not misled: what it has seen, and what its acknowledgements say.\<close>

definition arrived :: "bytes \<Rightarrow> pkt set \<Rightarrow> nat set" where
  "arrived orig ps = fst ` {e \<in> set (data_map_of orig). sealed e \<in> ps}"

lemma xsrv_loop_ok:
  assumes "rx_ok DATA_SIZE orig seen st" and "srv_hears True orig acks ps st l" and "\<forall>r\<in>set acks. sess_seq r = 0"
    and small: "length orig \<le> max_orig DATA_SIZE"
  shows "\<exists>st' l' out seen'. xsrv_loop ps st l = Some (st', l', out) \<and> rx_ok DATA_SIZE orig seen' st' \<and>
    seen \<union> arrived orig (snd ` set ps) \<subseteq> seen' \<and>
    (\<forall>r\<in>set out. true_ack orig seen' r \<and> sess_seq r = 0 \<and> checksum r = pchecksum r \<and> (\<forall>j\<in>seen. get_bit (pdata r) j))"
  using assms(1-3)
proof (induction ps arbitrary: st seen l acks)
  case Nil
  then show ?case by (auto simp: arrived_def)
next
  case (Cons tp ps)
  obtain now p where tp: "tp = (now, p)" by fastforce
  show ?case
  proof (cases "rx_more st")
    case False
    then have "xfer_keys orig \<subseteq> seen" using xf.rx_ok_more [OF Cons.prems(1) small] by simp
    moreover have "arrived orig qs \<subseteq> xfer_keys orig" for qs
      unfolding arrived_def data_map_full full_map_keys [symmetric] by blast
    ultimately have "seen \<union> arrived orig (snd ` set (tp # ps)) \<subseteq> seen" by blast
    then show ?thesis using False Cons.prems(1) by (auto simp: tp)
  next
    case more: True
    have hp: "from_sender orig p \<or> p \<in> set acks \<and> orig_size st \<noteq> UINT_MAX" using Cons.prems(2) more by (simp add: tp)
    have arr: "arrived orig (snd ` set (tp # ps)) = arrived orig {p} \<union> arrived orig (snd ` set ps)"
      by (auto simp: arrived_def tp)
    have new: "arrived orig {p} \<subseteq> (if from_sender orig p then good_seqs [p] else {})"
      using sealed_good [OF _ small] by (force simp: arrived_def)
    show ?thesis
    proof (cases "checksum p = pchecksum p")
      case False
      then have "good_seqs [p] = {}" by (auto simp: good_seqs_def)
      then have "arrived orig {p} = {}" using new by (auto split: if_splits)
      moreover have "srv_hears True orig acks ps st l" using Cons.prems(2) more False by (simp add: tp)
      ultimately show ?thesis using Cons.IH [OF Cons.prems(1) _ Cons.prems(3), of l] more False arr by (simp add: tp)
    next
      case True
      obtain st1 where st1: "rx_packet p st = Some st1" "rx_ok DATA_SIZE orig (seen \<union> (if from_sender orig p then good_seqs [p] else {})) st1"
        using hears_step [OF Cons.prems(1) small Cons.prems(3) hp] by blast
      define seen1 where "seen1 = seen \<union> (if from_sender orig p then good_seqs [p] else {})"
      define l1 where "l1 = (if ack_due now l then now else l)"
      define new_acks where "new_acks = (if ack_due now l then [rx_ack st1] else [])"
      have hears: "srv_hears True orig (acks @ new_acks) ps st1 l1"
        using Cons.prems(2) more True st1(1) by (auto simp: tp l1_def new_acks_def split: if_splits)
      have acks1: "\<forall>r\<in>set (acks @ new_acks). sess_seq r = 0"
        using Cons.prems(3) by (auto simp: new_acks_def rx_ack_parts)
      obtain st2 l2 out seen2 where IH: "xsrv_loop ps st1 l1 = Some (st2, l2, out)" "rx_ok DATA_SIZE orig seen2 st2"
        "seen1 \<union> arrived orig (snd ` set ps) \<subseteq> seen2"
        "\<forall>r\<in>set out. true_ack orig seen2 r \<and> sess_seq r = 0 \<and> checksum r = pchecksum r \<and> (\<forall>j\<in>seen1. get_bit (pdata r) j)"
        using Cons.IH [OF st1(2) hears acks1] unfolding seen1_def by blast
      have ok1: "rx_ok DATA_SIZE orig seen1 st1" using st1(2) by (simp add: seen1_def)
      have "true_ack orig seen2 (rx_ack st1)" using true_ack_mono [OF true_ack_now [OF ok1]] IH(3) by blast
      moreover have "get_bit (pdata (rx_ack st1)) j" if "j \<in> seen" for j
      proof -
        have "j \<in> seen1" using that by (simp add: seen1_def)
        moreover have "j < 8 * DATA_SIZE" if "j \<in> seen1" using that ok1 xf.nchunks_max [OF small] by (auto simp: rx_ok_def)
        ultimately show ?thesis using ok1 by (simp add: rx_ok_def rx_ack_parts)
      qed
      ultimately have "\<forall>r\<in>set (new_acks @ out). true_ack orig seen2 r \<and> sess_seq r = 0 \<and> checksum r = pchecksum r \<and>
          (\<forall>j\<in>seen. get_bit (pdata r) j)"
        using IH(4) by (auto simp: new_acks_def rx_ack_parts seen1_def)
      moreover have "xsrv_loop (tp # ps) st l = Some (st2, l2, new_acks @ out)"
        using more True st1(1) IH(1) by (cases "ack_due now l") (simp_all add: tp l1_def new_acks_def)
      moreover have "seen \<union> arrived orig (snd ` set (tp # ps)) \<subseteq> seen2" using IH(3) new arr by (auto simp: seen1_def)
      ultimately show ?thesis using IH(2) by blast
    qed
  qed
qed

lemma xread_cases:
  assumes "xread_resps rs s = (r, ex)"
  shows "r = s \<or> r \<in> set rs \<and> checksum r = pchecksum r" and "ex \<Longrightarrow> sess_seq r = word_of_nat UINT_MAX \<and> r \<in> set rs \<and> checksum r = pchecksum r"
    and "\<not> ex \<Longrightarrow> rs \<noteq> [] \<Longrightarrow> checksum (last rs) = pchecksum (last rs) \<Longrightarrow> r = last rs \<and> sess_seq r \<noteq> word_of_nat UINT_MAX"
  using assms by (induction rs arbitrary: s) (auto split: if_splits)

definition xnet_inv :: "bytes \<Rightarrow> nat set \<Rightarrow> XNet \<Rightarrow> bool" where
  "xnet_inv orig seen n \<longleftrightarrow> rx_ok DATA_SIZE orig seen (xrx n) \<and> true_ack orig seen (xres n) \<and>
     (\<forall>r\<in>set (xacks n). true_ack orig seen r \<and> sess_seq r = 0) \<and> set (xmap n) \<subseteq> set (data_map_of orig) \<and>
     xfer_keys orig - fst ` set (xmap n) \<subseteq> seen \<and> (xexit n \<longrightarrow> xfer_keys orig \<subseteq> seen)"

lemma xnet_inv_init: "xnet_inv orig {} (xnet_init orig t0)"
proof -
  have "\<not> get_bit (replicate DATA_SIZE 0) j" if "j < 8 * DATA_SIZE" for j
    using that by (simp add: get_bit_def less_mult_imp_div_less mult.commute)
  then show ?thesis using rx_ok_init [of orig] fin_seq
    by (auto simp: xnet_inv_def xnet_init_def true_ack_def data_map_full full_map_keys)
qed

lemma data_map_key: "e \<in> set (data_map_of orig) \<Longrightarrow> length orig \<le> max_orig DATA_SIZE \<Longrightarrow> fst e < 8 * DATA_SIZE"
proof -
  assume "e \<in> set (data_map_of orig)" and small: "length orig \<le> max_orig DATA_SIZE"
  then have "fst e \<in> xfer_keys orig" unfolding data_map_full full_map_keys [symmetric] by simp
  then show ?thesis using xf.nchunks_max [OF small] by simp
qed

lemma erase_seen:
  assumes "xfer_keys orig - fst ` set m \<subseteq> seen" and "true_ack orig seen r" and "\<forall>e\<in>set m. fst e < 8 * DATA_SIZE"
  shows "xfer_keys orig - fst ` set (round_erase (pdata r) m) \<subseteq> seen"
proof
  fix k
  assume k: "k \<in> xfer_keys orig - fst ` set (round_erase (pdata r) m)"
  show "k \<in> seen"
  proof (cases "k \<in> fst ` set m")
    case True
    then have "get_bit (pdata r) k" and "k < 8 * DATA_SIZE" using k assms(3) by (auto simp: round_erase_def)
    then show ?thesis using assms(2) by (simp add: true_ack_def)
  qed (use k assms(1) in blast)
qed

text \<open>When an acknowledgement is due at or after the arrival of a packet, one is sent, and the last one
  tells of the packet.\<close>

lemma timely_ack:
  assumes ok: "rx_ok DATA_SIZE orig seen st" and hears: "srv_hears True orig acks (a @ (now, p) # b) st l"
    and acks: "\<forall>r\<in>set acks. sess_seq r = 0" and small: "length orig \<le> max_orig DATA_SIZE"
    and a: "xsrv_loop a st l = Some (st1, l1, out1)" and due: "rx_more st1" "now - l1 > 500" "checksum p = pchecksum p"
    and e: "e \<in> set (data_map_of orig)" "sealed e \<in> snd ` set (a @ [(now, p)])"
  shows "\<exists>st' l' out. xsrv_loop (a @ (now, p) # b) st l = Some (st', l', out) \<and> out \<noteq> [] \<and> get_bit (pdata (last out)) (fst e)"
proof -
  have hears1: "srv_hears True orig acks a st l" and hears2: "srv_hears True orig (acks @ out1) ((now, p) # b) st1 l1"
    using hears by (simp_all add: srv_hears_append a)
  obtain seen1 where s1: "rx_ok DATA_SIZE orig seen1 st1" "arrived orig (snd ` set a) \<subseteq> seen1" "\<forall>r\<in>set out1. sess_seq r = 0"
    using xsrv_loop_ok [OF ok hears1 acks small] a by auto
  have acks1: "\<forall>r\<in>set (acks @ out1). sess_seq r = 0" using acks s1(3) by auto
  define seen2 where "seen2 = seen1 \<union> (if from_sender orig p then good_seqs [p] else {})"
  obtain st2 where st2: "rx_packet p st1 = Some st2" "rx_ok DATA_SIZE orig seen2 st2"
    using hears_step [OF s1(1) small acks1, of p] hears2 due(1) unfolding seen2_def by auto
  have "fst e \<in> seen2"
  proof (cases "sealed e = p")
    case True
    then show ?thesis using sealed_good [OF e(1) small] by (auto simp: seen2_def)
  next
    case False
    then have "fst e \<in> arrived orig (snd ` set a)" using e by (auto simp: arrived_def)
    then show ?thesis using s1(2) by (auto simp: seen2_def)
  qed
  moreover have key: "fst e < 8 * DATA_SIZE" by (rule data_map_key [OF e(1) small])
  ultimately have bit: "get_bit (pdata (rx_ack st2)) (fst e)" using st2(2) by (simp add: rx_ok_def rx_ack_parts)
  have "srv_hears True orig ((acks @ out1) @ [rx_ack st2]) b st2 now"
    using hears2 due st2(1) by (simp add: ack_due_def)
  moreover have "\<forall>r\<in>set ((acks @ out1) @ [rx_ack st2]). sess_seq r = 0" using acks1 by (simp add: rx_ack_parts)
  ultimately obtain st3 l3 out3 where loop: "xsrv_loop b st2 now = Some (st3, l3, out3)"
      "\<forall>r\<in>set out3. \<forall>j\<in>seen2. get_bit (pdata r) j"
    using xsrv_loop_ok [OF st2(2) _ _ small] by meson
  have "xsrv_loop (a @ (now, p) # b) st l = Some (st3, l3, out1 @ rx_ack st2 # out3)"
    using due st2(1) loop(1) by (simp add: xsrv_loop_append a ack_due_def)
  moreover have "get_bit (pdata (last (out1 @ rx_ack st2 # out3))) (fst e)"
    using loop(2) bit \<open>fst e \<in> seen2\<close> by (cases "out3 = []") auto
  ultimately show ?thesis by blast
qed

lemma own_packet:
  assumes "e \<in> set (data_map_of orig)" and "length orig \<le> max_orig DATA_SIZE"
  shows "length (pdata (sealed e)) = DATA_SIZE" and "sess_seq (sealed e) \<noteq> word_of_nat UINT_MAX"
proof -
  have "length (snd e) \<le> DATA_SIZE"
    using assms(1) by (auto simp: data_map_full full_map_def chunk_def le64_def DATA_SIZE_value)
  then show "length (pdata (sealed e)) = DATA_SIZE" by (simp add: sealed_def send_pkt_def packet_of_def)
  have "fst e < 8 * DATA_SIZE" by (rule data_map_key [OF assms])
  then have "unat (sess_seq (sealed e)) < UINT_MAX"
    by (simp add: sealed_def send_pkt_def packet_of_def unat_of_nat DATA_SIZE_value UINT_MAX_def)
  then show "sess_seq (sealed e) \<noteq> word_of_nat UINT_MAX" by (auto simp: unat_of_nat UINT_MAX_def)
qed

lemma xread_fin:
  assumes "xread_resps rs s = (r, ex)" and "rx_fin st \<in> set rs"
  shows "ex"
  using assms by (induction rs arbitrary: s) (auto simp: rx_ack_parts split: if_splits)

lemma xnet_round_ok:
  assumes inv: "xnet_inv orig seen n" and may: "xnet_may orig i n" and led: "\<not> misled orig i n"
    and small: "length orig \<le> max_orig DATA_SIZE"
  shows "\<exists>n' seen'. xnet_round broadip i n = Some n' \<and> xnet_inv orig seen' n' \<and>
    (xnet_over n' \<or> length (xmap n') + of_bool (xproductive i n) \<le> length (xmap n))"
proof -
  have cm: "set (xmap n) \<subseteq> set (data_map_of orig)" and res0: "true_ack orig seen (xres n)"
    and ok: "rx_ok DATA_SIZE orig seen (xrx n)" and acks0: "\<forall>r\<in>set (xacks n). sess_seq r = 0"
    using inv by (simp_all add: xnet_inv_def)
  have keys: "\<forall>e\<in>set (xmap n). fst e < 8 * DATA_SIZE" using data_map_key [OF _ small] cm by blast
  have hears: "srv_hears True orig (xacks n) (fst i) (xrx n) (xlast n)" using led by (simp add: misled_def)
  obtain st l out seen' where run: "xsrv_loop (fst i) (xrx n) (xlast n) = Some (st, l, out)" "rx_ok DATA_SIZE orig seen' st"
    "seen \<subseteq> seen'" "\<forall>r\<in>set out. true_ack orig seen' r \<and> sess_seq r = 0 \<and> checksum r = pchecksum r"
    using xsrv_loop_ok [OF ok hears acks0 small] by auto
  obtain res ex where rr: "xread_resps (snd i) (xres n) = (res, ex)" by fastforce
  define n' where "n' = n\<lparr>xmap := (if ex then xmap n else round_erase (pdata res) (xmap n)), xres := res, xexit := ex,
      xrx := st, xlast := l, xacks := xacks n @ out\<rparr>"
  have "round_packets broadip (pdata (xres n)) (xmap n) \<noteq> None"
    using keys res0 by (simp add: round_packets_def list_all_iff true_ack_def)
  then have round: "xnet_round broadip i n = Some n'" by (auto simp: xnet_round_def run(1) rr n'_def)
  note sub = run(3)
  have acks: "\<forall>r\<in>set (xacks n @ out). true_ack orig seen' r \<and> sess_seq r = 0"
    using inv run(4) true_ack_mono [OF _ sub] by (auto simp: xnet_inv_def)
  have wire: "true_ack orig seen' r" if "r \<in> on_wire st (xacks n @ out)" for r
  proof (cases "r \<in> set (xacks n @ out)")
    case False
    then have "r = rx_fin st" "\<not> rx_more st"
      using that by (auto simp: on_wire_def fin_resps_def split: if_splits option.splits)
    then show ?thesis using run(2) xf.rx_ok_more [OF run(2) small] by (simp add: true_ack_def rx_ack_parts rx_ok_def)
  qed (use acks in blast)
  have own: "true_ack orig seen' res" if "res \<in> sealed ` set (data_map_of orig)"
  proof -
    have "get_bit (recvbit st) j" if "j < 8 * DATA_SIZE" "get_bit (pdata res) j" for j
      using led \<open>res \<in> _\<close> that by (auto simp: misled_def run(1) rr)
    then show ?thesis using that own_packet [OF _ small] run(2) by (auto simp: true_ack_def rx_ok_def)
  qed
  have res: "true_ack orig seen' res"
    using xread_cases(1) [OF rr] may true_ack_mono [OF res0 sub] wire own by (auto simp: xnet_may_def run(1))
  have "ex \<longrightarrow> xfer_keys orig \<subseteq> seen'" using xread_cases(2) [OF rr] res by (simp add: true_ack_def)
  moreover have base: "xfer_keys orig - fst ` set (xmap n) \<subseteq> seen'" using inv sub by (auto simp: xnet_inv_def)
  then have "xfer_keys orig - fst ` set (xmap n') \<subseteq> seen'" using erase_seen [OF base res keys] by (simp add: n'_def)
  moreover have "set (xmap n') \<subseteq> set (xmap n)" by (auto simp: n'_def round_erase_def)
  ultimately have inv': "xnet_inv orig seen' n'" using run(2) res acks cm by (auto simp: xnet_inv_def n'_def)
  have "length (xmap n') < length (xmap n)" if prod: "xproductive i n" and more: "\<not> xnet_over n'"
  proof -
    have ex: "\<not> ex" using more by (simp add: xnet_over_def n'_def)
    have "\<not> (\<not> rx_more st \<and> rx_finish st \<noteq> None \<and> set (fin_resps st) \<subseteq> set (snd i))"
      using xread_fin [OF rr, of st] ex by (auto simp: fin_resps_def)
    then have due: "comes_due (fst i) n" and got: "out = [] \<or> snd i \<noteq> [] \<and> last (snd i) = last out"
      using prod unfolding xproductive_def run(1) by auto
    obtain a now p b st1 l1 out1 where split: "fst i = a @ (now, p) # b"
        "xsrv_loop a (xrx n) (xlast n) = Some (st1, l1, out1)" "rx_more st1" "now - l1 > 500" "checksum p = pchecksum p"
        and meet: "sealed ` set (xmap n) \<inter> snd ` set (a @ [(now, p)]) \<noteq> {}"
      using due unfolding comes_due_def by blast
    obtain e where e: "e \<in> set (xmap n)" "sealed e \<in> snd ` set (a @ [(now, p)])" using meet by blast
    have "e \<in> set (data_map_of orig)" using e(1) cm by blast
    then have "out \<noteq> []" "get_bit (pdata (last out)) (fst e)"
      using timely_ack [OF ok _ acks0 small split(2-5) _ e(2), of b] hears run(1) unfolding split(1) by auto
    moreover have "res = last out" using xread_cases(3) [OF rr ex] got run(4) calculation(1) by auto
    ultimately have "length (round_erase (pdata res) (xmap n)) < length (xmap n)"
      unfolding round_erase_def using keys e(1) by (intro length_filter_less [OF e(1)]) (simp add: mult.commute)
    then show ?thesis using ex by (simp add: n'_def)
  qed
  moreover have "length (xmap n') \<le> length (xmap n)" by (simp add: n'_def round_erase_def)
  ultimately have "xnet_over n' \<or> length (xmap n') + of_bool (xproductive i n) \<le> length (xmap n)"
    by (cases "xproductive i n"; cases "xnet_over n'") simp_all
  then show ?thesis using round inv' by blast
qed

definition xnet_good :: "bytes \<Rightarrow> XNet \<Rightarrow> bool" where
  "xnet_good orig n \<longleftrightarrow> length orig \<le> max_orig DATA_SIZE \<and> (\<exists>seen. xnet_inv orig seen n)"

interpretation xfer_net: progress "xnet_round broadip" xnet_over "\<lambda>i n. xnet_may orig i n \<and> \<not> misled orig i n" xproductive "xnet_good orig" "\<lambda>n. length (xmap n)"
  for broadip orig
proof unfold_locales
  fix n i
  assume "xnet_good orig n" and "xnet_may orig i n \<and> \<not> misled orig i n"
  then show "\<exists>n'. xnet_round broadip i n = Some n' \<and> xnet_good orig n' \<and>
      (xnet_over n' \<or> length (xmap n') + of_bool (xproductive i n) \<le> length (xmap n))"
    using xnet_round_ok unfolding xnet_good_def by meson
qed (simp add: xnet_over_def)

section \<open>Safety and liveness\<close>

lemma xnet_over_complete:
  assumes "xnet_inv (pack_files files) seen n" and "xnet_over n"
    and "list_all file_ok files" and "length (pack_files files) \<le> max_orig DATA_SIZE"
  shows "\<not> rx_more (xrx n) \<and> rx_finish (xrx n) = (if DATA_SIZE dvd length (pack_files files) then Some files else None)"
proof -
  have "xfer_keys (pack_files files) \<subseteq> seen" using assms(1,2) by (auto simp: xnet_inv_def xnet_over_def)
  moreover have ok: "rx_ok DATA_SIZE (pack_files files) seen (xrx n)" using assms(1) by (simp add: xnet_inv_def)
  ultimately have "seen = xfer_keys (pack_files files)" by (auto simp: rx_ok_def)
  then show ?thesis using rx_finish_complete [OF assms(3)] ok xf.rx_ok_more [OF ok assms(4)] by simp
qed

text \<open>The run until a program is first misled.\<close>

lemma xnet_run_ok:
  assumes "xnet_allowed broadip orig sched (xnet_init orig t0)" and small: "length orig \<le> max_orig DATA_SIZE"
  shows "(\<exists>pre i post n. sched = pre @ i # post \<and> xnet_run broadip pre (xnet_init orig t0) = Some n \<and> misled orig i n) \<or>
    (\<exists>n seen. xnet_run broadip sched (xnet_init orig t0) = Some n \<and> xnet_inv orig seen n \<and>
      (nchunks DATA_SIZE (length orig) + 1 \<le> xnet_productive broadip sched (xnet_init orig t0) \<longrightarrow> xnet_over n))"
proof -
  have good: "xnet_good orig (xnet_init orig t0)" using small xnet_inv_init by (auto simp: xnet_good_def)
  have left: "length (xmap (xnet_init orig t0)) = nchunks DATA_SIZE (length orig) + 1"
    by (simp add: xnet_init_def data_map_full full_map_def)
  have "(\<exists>pre i post n. sched = pre @ i # post \<and> xnet_run broadip pre (xnet_init orig t0) = Some n \<and> misled orig i n) \<or>
      allowed_rounds (xnet_round broadip) xnet_over (\<lambda>i n. xnet_may orig i n \<and> \<not> misled orig i n) sched (xnet_init orig t0)"
    using allowed_rounds_or_first [OF assms(1) [unfolded xnet_allowed_def], of "misled orig"] unfolding xnet_run_def by blast
  then show ?thesis
  proof
    assume "allowed_rounds (xnet_round broadip) xnet_over (\<lambda>i n. xnet_may orig i n \<and> \<not> misled orig i n) sched (xnet_init orig t0)"
    from xfer_net.rounds_ok [OF good this] show ?thesis
      unfolding xnet_run_def xnet_productive_def xnet_good_def left by blast
  qed simp
qed

text \<open>
  C20. Safety of the broadcast transfer, for packed files of at most \<open>max_orig\<close> bytes (17,144,904, so
  that every key fits in the bit set): whatever the network loses, repeats, delays, reorders and
  detectably damages, and although each program also reads what it broadcasts itself, either there
  is a first round in which a program is misled by a packet of its own (up to which all is defined),
  or no array is left during the transfer and the client stops only when the server has received
  everything; the server then has exactly the client's files, or, when their packed size is not a
  multiple of the chunk size, copies over the end of its array.
\<close>

theorem xfer_client_stops_safely:
  assumes "list_all file_ok files" and "length (pack_files files) \<le> max_orig DATA_SIZE"
    and "xnet_allowed broadip (pack_files files) sched (xnet_init (pack_files files) t0)"
  shows "(\<exists>pre i post n. sched = pre @ i # post \<and> xnet_run broadip pre (xnet_init (pack_files files) t0) = Some n \<and>
      misled (pack_files files) i n) \<or>
    (\<exists>n. xnet_run broadip sched (xnet_init (pack_files files) t0) = Some n \<and>
      (xnet_over n \<longrightarrow> \<not> rx_more (xrx n) \<and>
        rx_finish (xrx n) = (if DATA_SIZE dvd length (pack_files files) then Some files else None)))"
  using xnet_run_ok [OF assms(3,2)] xnet_over_complete [OF _ _ assms(1,2)] by blast

text \<open>
  C19. Liveness of the broadcast transfer, under the same bound: after as many productive rounds as
  there are packets (a missing packet gets through in time for an acknowledgement to be due, and if
  the server then acknowledges, the last acknowledgement gets through), either a program has been
  misled by a packet of its own, or the client has stopped and the server has everything; it then
  has exactly the client's files when their packed size is a multiple of the chunk size.
\<close>

theorem xfer_live:
  assumes "list_all file_ok files" and "length (pack_files files) \<le> max_orig DATA_SIZE"
    and "xnet_allowed broadip (pack_files files) sched (xnet_init (pack_files files) t0)"
    and "nchunks DATA_SIZE (length (pack_files files)) + 1
      \<le> xnet_productive broadip sched (xnet_init (pack_files files) t0)"
  shows "(\<exists>pre i post n. sched = pre @ i # post \<and> xnet_run broadip pre (xnet_init (pack_files files) t0) = Some n \<and>
      misled (pack_files files) i n) \<or>
    (\<exists>n. xnet_run broadip sched (xnet_init (pack_files files) t0) = Some n \<and> xnet_over n \<and> \<not> rx_more (xrx n) \<and>
      rx_finish (xrx n) = (if DATA_SIZE dvd length (pack_files files) then Some files else None))"
  using xnet_run_ok [OF assms(3,2)] xnet_over_complete [OF _ _ assms(1,2)] assms(4) by blast

text \<open>
  What being misled does: a client that reads a chunk of its own in which the bits of all keys are set
  (a file with a long stretch of ones has such chunks) stops, whatever the server has received.
\<close>

lemma xfer_echo_unsafe:
  assumes "e \<in> set (data_map_of orig)" and small: "length orig \<le> max_orig DATA_SIZE"
    and bits: "\<forall>k\<in>xfer_keys orig. get_bit (pdata (sealed e)) k"
  shows "xnet_allowed broadip orig [([], [sealed e])] (xnet_init orig t0)"
    and "\<exists>n. xnet_run broadip [([], [sealed e])] (xnet_init orig t0) = Some n \<and> xnet_over n \<and> xrx n = rx_init"
proof -
  have keys: "fst x \<in> xfer_keys orig" "fst x < 8 * DATA_SIZE" if "x \<in> set (data_map_of orig)" for x
    using that data_map_key [OF that small] unfolding data_map_full full_map_keys [symmetric] by auto
  show "xnet_allowed broadip orig [([], [sealed e])] (xnet_init orig t0)"
    using assms(1) by (auto simp: xnet_allowed_def xnet_may_def split: option.split)
  have "round_packets broadip (replicate DATA_SIZE 0) (data_map_of orig) \<noteq> None"
    using keys by (auto simp: round_packets_def list_all_iff)
  moreover have "xread_resps [sealed e] r = (sealed e, False)" for r
    using own_packet(2) [OF assms(1) small] by (simp add: sealed_def sent_checksum)
  moreover have "round_erase (pdata (sealed e)) (data_map_of orig) = []"
    using bits keys by (auto simp: round_erase_def filter_empty_conv mult.commute)
  moreover have "\<not> xnet_over (xnet_init orig t0)" by (simp add: xnet_over_def xnet_init_def data_map_of_def)
  ultimately show "\<exists>n. xnet_run broadip [([], [sealed e])] (xnet_init orig t0) = Some n \<and> xnet_over n \<and> xrx n = rx_init"
    by (auto simp: xnet_run_def xnet_round_def xnet_init_def xnet_over_def)
qed

section \<open>Two rounds\<close>

text \<open>One file that fills one chunk with its header; a network that gets the announcement through in the
  first round and, after a damaged response, the chunk in the second.\<close>

definition xdemo_orig :: bytes where
  "xdemo_orig = pack_files (demo_file 1456)"

definition xdemo_e0 :: "nat \<times> bytes" where
  "xdemo_e0 = (0, le64 1464 @ replicate 8 0)"

definition xdemo_st1 :: Rx where
  "xdemo_st1 = rx_init\<lparr>recvbit := 1 # replicate (DATA_SIZE - 1) 0, orig_size := 1464\<rparr>"

definition xdemo_st2 :: Rx where
  "xdemo_st2 = xdemo_st1\<lparr>recvbit := 3 # replicate (DATA_SIZE - 1) 0, data_map := [(1, xdemo_orig)], recv_size := DATA_SIZE\<rparr>"

definition xdemo_bad :: pkt where
  "xdemo_bad = (rx_ack xdemo_st1)\<lparr>pchecksum := NOT (pchecksum (rx_ack xdemo_st1))\<rparr>"

definition xdemo_sched :: "((nat \<times> pkt) list \<times> pkt list) list" where
  "xdemo_sched = [([(501, sealed xdemo_e0)], [rx_ack xdemo_st1]),
     ([(1002, sealed (1, xdemo_orig))], [xdemo_bad, rx_ack xdemo_st2])]"

lemma xdemo_len: "length xdemo_orig = DATA_SIZE"
  using demo_file(2) [of 1456] by (simp add: xdemo_orig_def DATA_SIZE_value)

lemma xdemo_map: "data_map_of xdemo_orig = [xdemo_e0, (1, xdemo_orig)]"
proof -
  have "nchunks DATA_SIZE DATA_SIZE = 1" by (simp add: nchunks_def DATA_SIZE_value)
  then show ?thesis by (simp add: data_map_full full_map_def xdemo_e0_def xdemo_len chunk_def) (simp add: DATA_SIZE_value xdemo_len)
qed

lemma xdemo_checksums: "checksum (sealed e) = pchecksum (sealed e)" "checksum xdemo_bad \<noteq> pchecksum xdemo_bad"
proof -
  show "checksum (sealed e) = pchecksum (sealed e)" by (simp add: sealed_def sent_checksum)
  have "checksum xdemo_bad = pchecksum (rx_ack xdemo_st1)"
    by (simp add: xdemo_bad_def rx_ack_def send_pkt_def checksum_def)
  moreover have "NOT x \<noteq> x" for x :: "32 word" using bit_not_iff [of x 0] by auto
  ultimately show "checksum xdemo_bad \<noteq> pchecksum xdemo_bad" by (simp add: xdemo_bad_def) metis
qed

lemma xdemo_zeros: "replicate DATA_SIZE (0 :: 8 word) = 0 # replicate (DATA_SIZE - 1) 0"
  by (metis DATA_SIZE_value Suc_diff_1 replicate_Suc zero_less_numeral)

lemma xdemo_packets: "rx_packet (sealed xdemo_e0) rx_init = Some xdemo_st1"
    "rx_packet (sealed (1, xdemo_orig)) xdemo_st1 = Some xdemo_st2"
proof -
  have "set_bit (recvbit rx_init) 0 = Some (1 # replicate (DATA_SIZE - 1) 0)"
    by (simp add: set_bit_def rx_init_def xdemo_zeros)
  then show "rx_packet (sealed xdemo_e0) rx_init = Some xdemo_st1"
    unfolding rx_packet_def using xdemo_checksums(1) [of xdemo_e0]
    by (simp add: sealed_def send_pkt_def packet_of_def xdemo_e0_def xdemo_st1_def le_val_le64 rx_init_def)
  have "set_bit (recvbit xdemo_st1) 1 = Some (3 # replicate (DATA_SIZE - 1) 0)"
    by (simp add: set_bit_def xdemo_st1_def)
  then show "rx_packet (sealed (1, xdemo_orig)) xdemo_st1 = Some xdemo_st2"
    unfolding rx_packet_def using xdemo_checksums(1) [of "(1, xdemo_orig)"]
    by (simp add: sealed_def send_pkt_def packet_of_def xdemo_st2_def um_emplace_def xdemo_len xdemo_st1_def rx_init_def)
      (simp add: DATA_SIZE_value)
qed

lemma xdemo_loops: "xsrv_loop [(501, sealed xdemo_e0)] rx_init 0 = Some (xdemo_st1, 501, [rx_ack xdemo_st1])"
    "xsrv_loop [(1002, sealed (1, xdemo_orig))] xdemo_st1 501 = Some (xdemo_st2, 1002, [rx_ack xdemo_st2])"
  using xdemo_packets xdemo_checksums(1)
  by (simp_all add: ack_due_def rx_more_def rx_init_def xdemo_st1_def UINT_MAX_def)

definition xdemo_n0 :: XNet where
  "xdemo_n0 = xnet_init xdemo_orig 0"

definition xdemo_n1 :: XNet where
  "xdemo_n1 = \<lparr>xmap = [(1, xdemo_orig)], xres = rx_ack xdemo_st1, xexit = False, xrx = xdemo_st1, xlast = 501,
     xacks = [rx_ack xdemo_st1]\<rparr>"

lemma xdemo_parts: "xrx xdemo_n0 = rx_init" "xlast xdemo_n0 = 0" "xrx xdemo_n1 = xdemo_st1" "xlast xdemo_n1 = 501"
    "xmap xdemo_n0 = [xdemo_e0, (1, xdemo_orig)]" "xmap xdemo_n1 = [(1, xdemo_orig)]" "xacks xdemo_n0 = []" "xacks xdemo_n1 = [rx_ack xdemo_st1]"
    "\<not> xnet_over xdemo_n0" "\<not> xnet_over xdemo_n1"
  by (simp_all add: xdemo_n0_def xdemo_n1_def xnet_init_def xdemo_map xnet_over_def)

lemma xdemo_round1: "xnet_round broadip ([(501, sealed xdemo_e0)], [rx_ack xdemo_st1]) xdemo_n0 = Some xdemo_n1"
proof -
  have "round_packets broadip (replicate DATA_SIZE 0) [xdemo_e0, (1, xdemo_orig)] \<noteq> None"
    by (simp add: round_packets_def xdemo_e0_def DATA_SIZE_value)
  moreover have "round_erase (pdata (rx_ack xdemo_st1)) [xdemo_e0, (1, xdemo_orig)] = [(1, xdemo_orig)]"
    by (simp add: round_erase_def rx_ack_parts xdemo_st1_def get_bit_def xdemo_e0_def DATA_SIZE_value)
  moreover have "xread_resps [rx_ack xdemo_st1] r = (rx_ack xdemo_st1, False)" for r
    using fin_seq by (auto simp: rx_ack_parts)
  ultimately show ?thesis using xdemo_loops(1)
    by (auto simp: xnet_round_def xdemo_n0_def xnet_init_def xdemo_map xdemo_n1_def)
qed

lemma xdemo_hears: "srv_hears strict xdemo_orig [] [(501, sealed xdemo_e0)] rx_init 0"
    "srv_hears strict xdemo_orig acks [(1002, sealed (1, xdemo_orig))] xdemo_st1 501"
  using xdemo_packets by (simp_all add: from_sender_def xdemo_map)

lemma xdemo_allowed: "xnet_allowed broadip xdemo_orig xdemo_sched xdemo_n0"
  and xdemo_productive: "xnet_productive broadip xdemo_sched xdemo_n0 = 2"
proof -
  have may: "xnet_may xdemo_orig ([(501, sealed xdemo_e0)], [rx_ack xdemo_st1]) xdemo_n0"
    "xnet_may xdemo_orig ([(1002, sealed (1, xdemo_orig))], [xdemo_bad, rx_ack xdemo_st2]) xdemo_n1"
    unfolding xnet_may_def fst_conv snd_conv xdemo_parts xdemo_loops
    by (simp_all add: xdemo_hears on_wire_def xdemo_checksums(2) del: srv_hears.simps One_nat_def)
  have "comes_due [(501, sealed xdemo_e0)] xdemo_n0"
    unfolding comes_due_def xdemo_parts
    by (intro exI [of _ "[]"] exI [of _ 501] exI [of _ "sealed xdemo_e0"]) (simp add: xdemo_checksums(1) rx_more_def rx_init_def)
  moreover have "comes_due [(1002, sealed (1, xdemo_orig))] xdemo_n1"
    unfolding comes_due_def xdemo_parts
    by (intro exI [of _ "[]"] exI [of _ 1002] exI [of _ "sealed (1, xdemo_orig)"])
      (simp add: xdemo_checksums(1) rx_more_def rx_init_def xdemo_st1_def UINT_MAX_def)
  ultimately have prod: "xproductive ([(501, sealed xdemo_e0)], [rx_ack xdemo_st1]) xdemo_n0"
    "xproductive ([(1002, sealed (1, xdemo_orig))], [xdemo_bad, rx_ack xdemo_st2]) xdemo_n1"
    unfolding xproductive_def fst_conv snd_conv xdemo_parts xdemo_loops by simp_all
  show "xnet_allowed broadip xdemo_orig xdemo_sched xdemo_n0"
    using may by (simp add: xnet_allowed_def xdemo_sched_def xdemo_round1 xdemo_parts split: option.split)
  show "xnet_productive broadip xdemo_sched xdemo_n0 = 2"
    using prod by (simp add: xnet_productive_def xdemo_sched_def xdemo_round1 xdemo_parts split: option.split)
qed

lemma xdemo_not_misled:
  assumes "xdemo_sched = pre @ i # post" and "xnet_run broadip pre xdemo_n0 = Some n"
  shows "\<not> misled xdemo_orig i n"
proof -
  have "xread_resps [rx_ack xdemo_st1] r = (rx_ack xdemo_st1, False)"
    "xread_resps [xdemo_bad, rx_ack xdemo_st2] r = (rx_ack xdemo_st2, False)" for r
    using fin_seq xdemo_checksums(2) by (auto simp: rx_ack_parts)
  then have "\<not> misled xdemo_orig ([(501, sealed xdemo_e0)], [rx_ack xdemo_st1]) xdemo_n0"
    "\<not> misled xdemo_orig ([(1002, sealed (1, xdemo_orig))], [xdemo_bad, rx_ack xdemo_st2]) xdemo_n1"
    unfolding misled_def fst_conv snd_conv xdemo_parts xdemo_loops
    by (simp_all add: xdemo_hears rx_ack_parts del: srv_hears.simps xread_resps.simps One_nat_def)
  then show ?thesis using assms
    by (auto simp: xdemo_sched_def xnet_run_def xdemo_round1 xdemo_parts Cons_eq_append_conv)
qed

lemma xfer_client_stops_safely_witness:
  "\<exists>n. xnet_run [10, 0, 0, 255] xdemo_sched (xnet_init xdemo_orig 0) = Some n \<and>
    (xnet_over n \<longrightarrow> rx_finish (xrx n) = Some (demo_file 1456))"
proof -
  have "DATA_SIZE dvd length (pack_files (demo_file 1456))" using xdemo_len by (simp add: xdemo_orig_def)
  then show ?thesis
    using xfer_client_stops_safely [OF demo_file(1,3) xdemo_allowed [unfolded xdemo_orig_def xdemo_n0_def], of "[10, 0, 0, 255]"]
      xdemo_not_misled [unfolded xdemo_orig_def xdemo_n0_def]
    unfolding xdemo_orig_def by (metis order_refl)
qed

lemma xfer_live_witness:
  "\<exists>n. xnet_run [10, 0, 0, 255] xdemo_sched (xnet_init xdemo_orig 0) = Some n \<and> xnet_over n \<and>
    rx_finish (xrx n) = Some (demo_file 1456)"
proof -
  have len: "length (pack_files (demo_file 1456)) = DATA_SIZE" using xdemo_len by (simp add: xdemo_orig_def)
  have "nchunks DATA_SIZE (length (pack_files (demo_file 1456))) + 1
      \<le> xnet_productive [10, 0, 0, 255] xdemo_sched (xnet_init (pack_files (demo_file 1456)) 0)"
    using xdemo_productive [of "[10, 0, 0, 255]"]
    by (simp add: xdemo_n0_def xdemo_orig_def len nchunks_def DATA_SIZE_value)
  then show ?thesis
    using xfer_live [OF demo_file(1,3) xdemo_allowed [unfolded xdemo_orig_def xdemo_n0_def], of "[10, 0, 0, 255]"] len
      xdemo_not_misled [unfolded xdemo_orig_def xdemo_n0_def]
    unfolding xdemo_orig_def by (metis dvd_refl order_refl)
qed

end
