(* ===== verification/UdpTransfer.thy ===== *)
theory UdpTransfer
  imports Chunks
begin

text \<open>
  The UDP file transfer of lab 8 (\<^verbatim>\<open>Lab/8/src\<close>), as it is compiled (without \<^verbatim>\<open>USE_CHECKSUM\<close> and
  \<^verbatim>\<open>DEBUG\<close>): the client compresses the packed files, cuts them into chunks and repeats those that
  are not acknowledged; the server collects the chunks, answers with the bit set of what it has and,
  when it has everything, with the sequence number \<open>UINT32_MAX\<close>; \<^verbatim>\<open>save_to_file\<close> and \<^verbatim>\<open>extract\<close>
  take the files out. The compression library (zstd) is a parameter: \<open>zcomp\<close> compresses, \<open>zsize\<close>
  is the size announced in a frame, \<open>zdec\<close> decompresses into a buffer of the size given.
\<close>

section \<open>Packets\<close>

definition U_TOTAL_SIZE :: nat where
  "U_TOTAL_SIZE = 1200"

definition U_HEADER_SIZE :: nat where
  "U_HEADER_SIZE = 28"

definition U_DATA_SIZE :: nat where
  "U_DATA_SIZE = U_TOTAL_SIZE - U_HEADER_SIZE - 4"

lemma U_DATA_SIZE_value: "U_DATA_SIZE = 1168"
  by (simp add: U_DATA_SIZE_def U_TOTAL_SIZE_def U_HEADER_SIZE_def)

record hdr =
  data_seq :: nat
  hdata :: bytes  \<comment> \<open>the member \<^verbatim>\<open>data\<close>, \<open>U_DATA_SIZE\<close> bytes\<close>

definition U_PACKET_SIZE :: nat where
  "U_PACKET_SIZE = 4 + U_DATA_SIZE"

definition UINT32_MAX :: nat where
  "UINT32_MAX = 4294967295"

text \<open>What \<^verbatim>\<open>send\<close> puts into the datagram, and what \<^verbatim>\<open>recv_sender_data\<close> makes of one: the memory of
  the header, zero behind what has arrived.\<close>

definition hdr_bytes :: "hdr \<Rightarrow> bytes" where
  "hdr_bytes h = le32 (data_seq h) @ hdata h"

definition recv_sender_data :: "bytes \<Rightarrow> hdr" where
  "recv_sender_data dg =
     (let b = take U_PACKET_SIZE (dg @ replicate U_PACKET_SIZE 0)
      in \<lparr>data_seq = le_val (take 4 b), hdata = drop 4 b\<rparr>)"

section \<open>The client\<close>

definition wrap_send :: "nat \<times> bytes \<Rightarrow> hdr" where
  "wrap_send e = \<lparr>data_seq = fst e, hdata = snd e @ replicate (U_DATA_SIZE - length (snd e)) 0\<rparr>"

function cli_chunks :: "bytes \<Rightarrow> nat \<Rightarrow> (nat \<times> bytes) list" where
  "cli_chunks cd i =
     (if i * U_DATA_SIZE < length cd
      then (let offset = i * U_DATA_SIZE
            in (i + 1, take (min U_DATA_SIZE (length cd - offset)) (drop offset cd)) # cli_chunks cd (i + 1))
      else [])"
  by pat_completeness auto
termination
  by (relation "measure (\<lambda>(cd, i). length cd - i * U_DATA_SIZE)") (auto simp: U_DATA_SIZE_value)

declare cli_chunks.simps [simp del]

definition cli_data_map :: "bytes \<Rightarrow> (nat \<times> bytes) list" where
  "cli_data_map cd = (0, le64 (length cd) @ replicate 8 0) # cli_chunks cd 0"

text \<open>From the files to the data packets.\<close>

definition cli_prepare :: "(bytes \<Rightarrow> bytes) \<Rightarrow> (nat \<times> bytes) list \<Rightarrow> (nat \<times> bytes) list" where
  "cli_prepare zcomp files = (let orig = pack_files files; cd = zcomp orig in cli_data_map cd)"

text \<open>\<^verbatim>\<open>read_resps\<close>: the last response read, and whether the program has exited.\<close>

fun read_resps :: "hdr list \<Rightarrow> hdr \<Rightarrow> hdr \<times> bool" where
  "read_resps [] s_res = (s_res, False)"
| "read_resps (res # rs) s_res =
     (if data_seq res = UINT32_MAX then (res, True) else read_resps rs res)"

definition cli_send :: "bytes \<Rightarrow> (nat \<times> bytes) list \<Rightarrow> hdr list option" where
  "cli_send donebit m =
     (if list_all (\<lambda>e. fst e < 8 * length donebit) m
      then Some (map wrap_send (filter (\<lambda>e. \<not> get_bit donebit (fst e)) m)) else None)"

definition cli_erase :: "bytes \<Rightarrow> (nat \<times> bytes) list \<Rightarrow> (nat \<times> bytes) list" where
  "cli_erase donebit m = filter (\<lambda>e. \<not> (fst e < U_DATA_SIZE * 8 \<and> get_bit donebit (fst e))) m"

section \<open>The server\<close>

definition srv_init :: Rx where
  "srv_init = \<lparr>recvbit = replicate U_DATA_SIZE 0, orig_size = UINT_MAX, recv_size = 0, data_map = []\<rparr>"

text \<open>One packet in the loop (\<open>orig_size\<close> is the variable \<^verbatim>\<open>comp_size\<close>).\<close>

definition srv_packet :: "hdr \<Rightarrow> Rx \<Rightarrow> Rx option" where
  "srv_packet h st =
     (case set_bit (recvbit st) (data_seq h) of None \<Rightarrow> None
      | Some bs \<Rightarrow>
        let st1 = st\<lparr>recvbit := bs\<rparr>
        in if data_seq h = 0 then Some (st1\<lparr>orig_size := le_val (take 8 (hdata h)) mod 2 ^ 32\<rparr>)
           else if um_find (data_map st1) (data_seq h) = None
           then Some (st1\<lparr>data_map := um_emplace (data_seq h) (hdata h) (data_map st1),
                       recv_size := (recv_size st1 + U_DATA_SIZE) mod 2 ^ 32\<rparr>)
           else Some st1)"

text \<open>The acknowledgement: how many bits are set, the switch to the short interval (a difference of
  \<^verbatim>\<open>size_t\<close>), and the interval itself, in milliseconds.\<close>

definition bit_count :: "bytes \<Rightarrow> nat" where
  "bit_count bs = length (filter (get_bit bs) [0..<8 * length bs])"

definition srv_keep :: "Rx \<Rightarrow> bool \<Rightarrow> bool" where
  "srv_keep st keep \<longleftrightarrow> keep \<or>
     nat ((int (orig_size st div U_DATA_SIZE) - int (bit_count (recvbit st))) mod 2 ^ 64) < 100"

definition SEND_TIME :: nat where
  "SEND_TIME = 1000 div 2"

definition do_reponse :: "hdr \<Rightarrow> hdr list" where
  "do_reponse h = replicate 3 h"

definition srv_ack :: "nat \<Rightarrow> Rx \<Rightarrow> nat \<times> bool \<Rightarrow> (nat \<times> bool) \<times> hdr list" where
  "srv_ack now st s = (let (last_send, keep) = s; keep1 = srv_keep st keep
     in if now - last_send > (if keep1 then 10 else SEND_TIME)
        then ((now, keep1), do_reponse \<lparr>data_seq = 0, hdata = recvbit st\<rparr>)
        else ((last_send, keep1), []))"

text \<open>The loop over the datagrams, each with the time it is handled at, up to the condition.\<close>

fun srv_loop :: "(nat \<times> bytes) list \<Rightarrow> Rx \<Rightarrow> nat \<times> bool \<Rightarrow> (Rx \<times> hdr list) option" where
  "srv_loop [] st s = Some (st, [])"
| "srv_loop ((now, dg) # dgs) st s =
     (if rx_more st
      then case srv_packet (recv_sender_data dg) st of None \<Rightarrow> None
           | Some st1 \<Rightarrow> let (s1, out) = srv_ack now st1 s
                         in map_option (\<lambda>(st2, out2). (st2, out @ out2)) (srv_loop dgs st1 s1)
      else Some (st, []))"

text \<open>After the loop every datagram is answered with the final acknowledgement.\<close>

definition srv_fin :: "Rx \<Rightarrow> hdr list" where
  "srv_fin st = do_reponse \<lparr>data_seq = UINT32_MAX, hdata = recvbit st\<rparr>"

section \<open>Taking the files out\<close>

fun copy_frags :: "(nat \<times> bytes) list \<Rightarrow> 8 word option list \<Rightarrow> 8 word option list option" where
  "copy_frags [] buf = Some buf"
| "copy_frags ((seq, fr) # m) buf =
     (if seq \<noteq> 0 then write_at buf ((seq - 1) * U_DATA_SIZE) fr \<bind> copy_frags m else copy_frags m buf)"

text \<open>The size of \<^verbatim>\<open>comp_data\<close>: \<^verbatim>\<open>comp_size - 1\<close> is computed in 32 bits.\<close>

definition comp_alloc :: "nat \<Rightarrow> nat" where
  "comp_alloc comp_size = (1 + ((comp_size + 2 ^ 32 - 1) mod 2 ^ 32) div U_DATA_SIZE) * U_DATA_SIZE"

definition save_to_file :: "(bytes \<Rightarrow> nat) \<Rightarrow> (nat \<Rightarrow> bytes \<Rightarrow> bytes) \<Rightarrow> Rx \<Rightarrow> (nat \<times> bytes) list option" where
  "save_to_file zsize zdec st = do {
     buf \<leftarrow> copy_frags (sort_key fst (data_map st)) (replicate (comp_alloc (orig_size st)) None);
     if length buf < orig_size st \<or> None \<in> set (take (orig_size st) buf) then None
     else let comp_data = map the (take (orig_size st) buf)
          in unpack_files (zdec (zsize comp_data) comp_data) }"

text \<open>\<^verbatim>\<open>extract\<close> does the last step on a file of its own.\<close>

definition extract_main :: "bytes \<Rightarrow> (nat \<times> bytes) list option" where
  "extract_main orig_data = unpack_files orig_data"

section \<open>The laws of the chunks\<close>

interpretation udp: chunked U_DATA_SIZE cli_chunks copy_frags
proof unfold_locales
  show "cli_chunks orig i = (if i * U_DATA_SIZE < length orig
      then (i + 1, chunk U_DATA_SIZE orig i) # cli_chunks orig (i + 1) else [])" for orig i
    by (subst cli_chunks.simps) (simp add: chunk_def Let_def min_def)
qed (simp_all add: max_orig_def U_DATA_SIZE_value)

end
