(* ===== verification/UdpCorrect.thy ===== *)
theory UdpCorrect
  imports UdpTransfer
begin

text \<open>
  The UDP transfer: packets survive the wire; the server's loop; what \<^verbatim>\<open>save_to_file\<close> gets back; and
  client and server together, over a network that loses, repeats, delays and reorders in both
  directions: the client stops only when the server has everything, and it stops after as many
  rounds in which anything new gets through.
\<close>

section \<open>The wire\<close>

lemma drop_le32: "drop 4 (le32 n @ xs) = xs"
  by (simp add: le32_def)

lemma take_le32: "take 4 (le32 n @ xs) = le32 n"
  by (simp add: le32_def)

lemma recv_cut:
  assumes "data_seq h < 2 ^ 32" and "length (hdata h) = U_DATA_SIZE" and "k \<le> U_DATA_SIZE"
  shows "recv_sender_data (take (4 + k) (hdr_bytes h)) =
    h\<lparr>hdata := take k (hdata h) @ replicate (U_DATA_SIZE - k) 0\<rparr>"
proof -
  have "take U_PACKET_SIZE (take (4 + k) (hdr_bytes h) @ replicate U_PACKET_SIZE 0)
      = le32 (data_seq h) @ take k (hdata h) @ replicate (U_DATA_SIZE - k) 0"
    using assms(2,3) by (auto simp: hdr_bytes_def U_PACKET_SIZE_def min_def)
  then show ?thesis using assms(1)
    by (simp add: recv_sender_data_def Let_def drop_le32 take_le32 le_val_le32)
qed

text \<open>
  A header survives the wire, and one that is cut short arrives with zeros in place of what is missing.
\<close>

theorem recv_wire:
  assumes "data_seq h < 2 ^ 32" and "length (hdata h) = U_DATA_SIZE" and "k \<le> U_DATA_SIZE"
  shows "recv_sender_data (take (4 + k) (hdr_bytes h)) =
    h\<lparr>hdata := take k (hdata h) @ replicate (U_DATA_SIZE - k) 0\<rparr>"
  by (rule recv_cut [OF assms])

section \<open>The server\<close>

lemma cli_map_full: "cli_data_map cd = full_map U_DATA_SIZE cd"
  by (simp add: cli_data_map_def udp.cut_full)

abbreviation full_keys :: "bytes \<Rightarrow> nat set" where
  "full_keys cd \<equiv> {0..nchunks U_DATA_SIZE (length cd)}"

lemma srv_ok_init: "rx_ok U_DATA_SIZE cd {} srv_init"
proof -
  have "\<not> get_bit (replicate U_DATA_SIZE 0) j" if "j < 8 * U_DATA_SIZE" for j
    using that by (simp add: get_bit_def less_mult_imp_div_less mult.commute)
  then show ?thesis by (simp add: rx_ok_def srv_init_def)
qed

lemma srv_ok_step:
  assumes ok: "rx_ok U_DATA_SIZE cd seen st" and e: "e \<in> set (cli_data_map cd)" and small: "length cd \<le> max_orig U_DATA_SIZE"
  shows "\<exists>st'. srv_packet (wrap_send e) st = Some st' \<and> rx_ok U_DATA_SIZE cd (insert (fst e) seen) st'"
proof -
  have k: "fst e \<le> nchunks U_DATA_SIZE (length cd)"
    using e full_map_keys [of U_DATA_SIZE cd] unfolding cli_map_full by (metis atLeastAtMost_iff image_eqI)
  obtain bs where bs: "set_bit (recvbit st) (fst e) = Some bs" using udp.rx_ok_bit [OF ok k small] by blast
  show ?thesis
  proof (rule udp.full_map_cases [OF e [unfolded cli_map_full] small, of "replicate (U_DATA_SIZE - length (snd e)) 0"], goal_cases)
    case 1
    then have "srv_packet (wrap_send e) st = Some (st\<lparr>recvbit := bs, orig_size := length cd\<rparr>)"
      using bs by (simp add: srv_packet_def wrap_send_def)
    then show ?case using udp.rx_ok_size [OF ok] bs 1(1) by simp
  next
    case (2 k)
    then have "srv_packet (wrap_send e) st = Some (if um_find (data_map st) k = None
        then st\<lparr>recvbit := bs, data_map := um_emplace k (frag U_DATA_SIZE cd k) (data_map st),
          recv_size := (recv_size st + U_DATA_SIZE) mod 2 ^ 32\<rparr>
        else st\<lparr>recvbit := bs\<rparr>)"
      using bs by (simp add: srv_packet_def wrap_send_def Let_def)
    then show ?case using udp.rx_ok_chunk [OF ok bs _ _ small] 2(1,2,3) by auto
  qed
qed

text \<open>A datagram of the client's.\<close>

definition from_client :: "bytes \<Rightarrow> bytes \<Rightarrow> bool" where
  "from_client cd dg \<longleftrightarrow> dg \<in> (\<lambda>e. hdr_bytes (wrap_send e)) ` set (cli_data_map cd)"

lemma full_map_len: "e \<in> set (full_map U_DATA_SIZE cd) \<Longrightarrow> length (snd e) \<le> U_DATA_SIZE"
  by (auto simp: full_map_def chunk_def U_DATA_SIZE_value)

lemma from_client_recv:
  assumes "from_client cd dg" and small: "length cd \<le> max_orig U_DATA_SIZE"
  obtains e where "e \<in> set (cli_data_map cd)" and "recv_sender_data dg = wrap_send e"
proof -
  obtain e where e: "e \<in> set (cli_data_map cd)" and dg: "dg = hdr_bytes (wrap_send e)"
    using assms(1) by (auto simp: from_client_def)
  have "fst e \<le> nchunks U_DATA_SIZE (length cd)"
    using e full_map_keys [of U_DATA_SIZE cd] unfolding cli_map_full by (metis atLeastAtMost_iff image_eqI)
  then have "data_seq (wrap_send e) < 2 ^ 32" using udp.nchunks_max [OF small] udp.D_small(2) by (simp add: wrap_send_def)
  moreover have "length (hdata (wrap_send e)) = U_DATA_SIZE"
    using full_map_len [of e cd] e by (simp add: wrap_send_def cli_map_full)
  ultimately have "recv_sender_data (take (4 + U_DATA_SIZE) dg) = wrap_send e"
    unfolding dg by (subst recv_cut) simp_all
  moreover have "take (4 + U_DATA_SIZE) dg = dg"
    using \<open>length (hdata (wrap_send e)) = U_DATA_SIZE\<close> by (simp add: dg hdr_bytes_def)
  ultimately show ?thesis using that e by simp
qed

text \<open>
  What happens beyond that size: the client asks for a bit behind the end of its bit set in the first
  turn of its main loop.
\<close>

lemma udp_oversize:
  assumes "max_orig U_DATA_SIZE < length cd"
  shows "cli_send (replicate U_DATA_SIZE 0) (cli_data_map cd) = None"
proof -
  have "8 * U_DATA_SIZE - 1 < nchunks U_DATA_SIZE (length cd)"
    using assms udp.nchunks_le [of "length cd" "8 * U_DATA_SIZE - 1"] by (simp add: max_orig_def)
  then have "8 * U_DATA_SIZE \<in> full_keys cd" by (simp add: U_DATA_SIZE_value)
  then obtain e where "e \<in> set (cli_data_map cd)" "fst e = 8 * U_DATA_SIZE"
    unfolding full_map_keys [symmetric] cli_map_full by auto
  then have "\<not> list_all (\<lambda>e. fst e < 8 * length (replicate U_DATA_SIZE (0 :: 8 word))) (cli_data_map cd)"
    by (force simp: list_all_iff)
  then show ?thesis by (simp only: cli_send_def if_False)
qed

section \<open>The loop and its end\<close>

definition client_seqs :: "bytes list \<Rightarrow> nat set" where
  "client_seqs dgs = (\<lambda>dg. data_seq (recv_sender_data dg)) ` set dgs"

lemma srv_loop_ok:
  assumes "rx_ok U_DATA_SIZE cd seen st" and "\<forall>d\<in>set dgs. from_client cd (snd d)" and small: "length cd \<le> max_orig U_DATA_SIZE"
  shows "\<exists>st' out seen'. srv_loop dgs st s = Some (st', out) \<and> rx_ok U_DATA_SIZE cd seen' st' \<and>
    seen \<subseteq> seen' \<and> seen' \<subseteq> seen \<union> client_seqs (map snd dgs) \<and> (rx_more st' \<longrightarrow> seen' = seen \<union> client_seqs (map snd dgs)) \<and>
    (\<forall>h\<in>set out. data_seq h = 0 \<and> (\<forall>j < 8 * U_DATA_SIZE. get_bit (hdata h) j \<longrightarrow> j \<in> seen'))"
  using assms(1,2)
proof (induction dgs arbitrary: st seen s)
  case Nil
  then show ?case by (auto simp: client_seqs_def)
next
  case (Cons d dgs)
  obtain now dg where d: "d = (now, dg)" by (cases d)
  show ?case
  proof (cases "rx_more st")
    case False
    then show ?thesis using Cons.prems by (auto simp: d)
  next
    case True
    obtain e where e: "e \<in> set (cli_data_map cd)" "recv_sender_data dg = wrap_send e"
      using from_client_recv [OF _ small] Cons.prems(2) d by auto
    obtain st1 where st1: "srv_packet (wrap_send e) st = Some st1" "rx_ok U_DATA_SIZE cd (insert (fst e) seen) st1"
      using srv_ok_step [OF Cons.prems(1) e(1) small] by blast
    obtain s1 out1 where ack: "srv_ack now st1 s = (s1, out1)" by (metis surj_pair)
    have seqs: "client_seqs (map snd (d # dgs)) = insert (fst e) (client_seqs (map snd dgs))"
      by (simp add: client_seqs_def d e(2)) (simp add: wrap_send_def)
    obtain st2 out2 seen2 where IH: "srv_loop dgs st1 s1 = Some (st2, out2)" "rx_ok U_DATA_SIZE cd seen2 st2"
      "insert (fst e) seen \<subseteq> seen2" "seen2 \<subseteq> insert (fst e) seen \<union> client_seqs (map snd dgs)"
      "rx_more st2 \<longrightarrow> seen2 = insert (fst e) seen \<union> client_seqs (map snd dgs)"
      "\<forall>h\<in>set out2. data_seq h = 0 \<and> (\<forall>j < 8 * U_DATA_SIZE. get_bit (hdata h) j \<longrightarrow> j \<in> seen2)"
      using Cons.IH [OF st1(2), of s1] Cons.prems(2) by auto
    have "srv_loop (d # dgs) st s = Some (st2, out1 @ out2)"
      using True st1(1) ack IH(1) by (simp add: d e(2))
    moreover have "\<forall>h\<in>set out1. data_seq h = 0 \<and> (\<forall>j < 8 * U_DATA_SIZE. get_bit (hdata h) j \<longrightarrow> j \<in> seen2)"
      using ack st1(2) IH(3) by (auto simp: srv_ack_def do_reponse_def Let_def rx_ok_def split: prod.splits if_splits)
    ultimately show ?thesis using IH seqs by (intro exI [of _ st2] exI [of _ "out1 @ out2"] exI [of _ seen2]) auto
  qed
qed

text \<open>
  The server's loop, on any sequence of the client's datagrams at any times: it never leaves its
  arrays, it ends exactly when the size and every chunk have arrived, and no acknowledgement it
  sends claims a chunk that has not arrived.
\<close>

theorem udp_server_loop:
  assumes "\<forall>d\<in>set dgs. from_client cd (snd d)" and "length cd \<le> max_orig U_DATA_SIZE"
  shows "\<exists>st out. srv_loop dgs srv_init s = Some (st, out) \<and>
    (\<not> rx_more st \<longleftrightarrow> {0..nchunks U_DATA_SIZE (length cd)} \<subseteq> client_seqs (map snd dgs)) \<and>
    (\<forall>h\<in>set out. \<forall>j < 8 * U_DATA_SIZE. get_bit (hdata h) j \<longrightarrow> j \<in> client_seqs (map snd dgs))"
proof -
  obtain st out seen where st: "srv_loop dgs srv_init s = Some (st, out)" "rx_ok U_DATA_SIZE cd seen st"
    "seen \<subseteq> client_seqs (map snd dgs)" "rx_more st \<longrightarrow> seen = client_seqs (map snd dgs)"
    "\<forall>h\<in>set out. data_seq h = 0 \<and> (\<forall>j < 8 * U_DATA_SIZE. get_bit (hdata h) j \<longrightarrow> j \<in> seen)"
    using srv_loop_ok [OF srv_ok_init assms, of s] by auto
  have "\<not> rx_more st \<longleftrightarrow> {0..nchunks U_DATA_SIZE (length cd)} \<subseteq> client_seqs (map snd dgs)"
    using udp.rx_ok_more [OF st(2) assms(2)] st(3,4) by blast
  then show ?thesis using st by blast
qed

text \<open>What the library of the compression promises: frames announce their size, and decompress.\<close>

definition zstd_ok :: "(bytes \<Rightarrow> bytes) \<Rightarrow> (bytes \<Rightarrow> nat) \<Rightarrow> (nat \<Rightarrow> bytes \<Rightarrow> bytes) \<Rightarrow> bool" where
  "zstd_ok zcomp zsize zdec \<longleftrightarrow>
     (\<forall>x. zcomp x \<noteq> [] \<and> zsize (zcomp x) = length x \<and> zdec (length x) (zcomp x) = x)"

lemma comp_alloc_nchunks:
  assumes "0 < n" and "n \<le> max_orig U_DATA_SIZE"
  shows "comp_alloc n = nchunks U_DATA_SIZE n * U_DATA_SIZE"
proof -
  obtain m where m: "n = Suc m" using assms(1) by (cases n) auto
  have "m < 2 ^ 32" using assms(2) udp.D_small(1) m by linarith
  then have "(n + 2 ^ 32 - 1) mod 2 ^ 32 = m" by (simp add: m)
  moreover have "n + U_DATA_SIZE - 1 = m + U_DATA_SIZE" by (simp add: m)
  moreover have "(m + U_DATA_SIZE) div U_DATA_SIZE = m div U_DATA_SIZE + 1"
    using div_add_self2 [of U_DATA_SIZE m] udp.D_pos by simp
  ultimately show ?thesis unfolding comp_alloc_def nchunks_def by simp
qed

lemma save_complete:
  assumes z: "zstd_ok zcomp zsize zdec" and files: "list_all file_ok files"
    and small: "length (zcomp (pack_files files)) \<le> max_orig U_DATA_SIZE"
    and ok: "rx_ok U_DATA_SIZE (zcomp (pack_files files)) (full_keys (zcomp (pack_files files))) st"
  shows "save_to_file zsize zdec st = Some files"
proof -
  define cd where "cd = zcomp (pack_files files)"
  have cd: "zsize cd = length (pack_files files)" "zdec (length (pack_files files)) cd = pack_files files" "cd \<noteq> []"
    using z by (simp_all add: zstd_ok_def cd_def)
  obtain buf where buf: "copy_frags (sort_key fst (data_map st)) (replicate (nchunks U_DATA_SIZE (length cd) * U_DATA_SIZE) None) = Some (map Some buf)"
    "length buf = nchunks U_DATA_SIZE (length cd) * U_DATA_SIZE" "take (length cd) buf = cd"
    using udp.copy_complete(1) [OF ok] by (auto simp: cd_def)
  have "orig_size st = length cd" using ok by (simp add: rx_ok_def cd_def)
  moreover have "comp_alloc (length cd) = nchunks U_DATA_SIZE (length cd) * U_DATA_SIZE"
    using cd(3) small by (intro comp_alloc_nchunks) (simp_all add: cd_def)
  moreover have "length cd \<le> length buf" using udp.nchunks_le [of "length cd" "nchunks U_DATA_SIZE (length cd)"] by (simp add: buf(2))
  moreover have "None \<notin> set (take (length cd) (map Some buf))" by (auto dest: in_set_takeD)
  moreover have "map the (take (length cd) (map Some buf)) = cd" using buf(3) by (simp add: take_map comp_def)
  ultimately show ?thesis using buf(1) unpack_pack [OF files] by (simp add: save_to_file_def cd)
qed

text \<open>
  C23. The transfer as a whole: when every packet that the client prepares from the files has arrived,
  in whatever order and however often, the server gets exactly these files out of its chunks, provided
  the compressed files have at most \<open>max_orig\<close> bytes (10,912,624), so that every key fits in the bit
  set. (The server's array holds whole chunks, so the size need not be a multiple of theirs.)
\<close>

theorem udp_transfer_files:
  assumes "zstd_ok zcomp zsize zdec" and "list_all file_ok files"
    and "length (zcomp (pack_files files)) \<le> max_orig U_DATA_SIZE"
    and "\<forall>d\<in>set dgs. from_client (zcomp (pack_files files)) (snd d)"
    and "(\<lambda>e. hdr_bytes (wrap_send e)) ` set (cli_prepare zcomp files) \<subseteq> snd ` set dgs"
  shows "\<exists>st out. srv_loop dgs srv_init s = Some (st, out) \<and> \<not> rx_more st \<and> save_to_file zsize zdec st = Some files"
proof -
  let ?cd = "zcomp (pack_files files)"
  obtain st out seen where st: "srv_loop dgs srv_init s = Some (st, out)" "rx_ok U_DATA_SIZE ?cd seen st"
    "seen \<subseteq> client_seqs (map snd dgs)" "rx_more st \<longrightarrow> seen = client_seqs (map snd dgs)"
    using srv_loop_ok [OF srv_ok_init assms(4,3), of s] by auto
  have "k \<in> client_seqs (map snd dgs)" if "k \<in> full_keys ?cd" for k
  proof -
    have "k \<in> fst ` set (cli_data_map ?cd)" using that unfolding full_map_keys [symmetric] cli_map_full .
    then obtain e where e: "e \<in> set (cli_data_map ?cd)" "fst e = k" by (metis imageE)
    then have "hdr_bytes (wrap_send e) \<in> snd ` set dgs" using assms(5) by (auto simp: cli_prepare_def Let_def)
    moreover have "data_seq (recv_sender_data (hdr_bytes (wrap_send e))) = k"
    proof -
      have "k < 2 ^ 32" using that udp.nchunks_max [OF assms(3)] udp.D_small(2) by simp
      moreover have "length (hdata (wrap_send e)) = U_DATA_SIZE"
        using full_map_len [of e ?cd] e by (simp add: wrap_send_def cli_map_full)
      ultimately have "recv_sender_data (take (4 + U_DATA_SIZE) (hdr_bytes (wrap_send e))) = wrap_send e"
        using e(2) by (subst recv_cut) (simp_all add: wrap_send_def)
      then show ?thesis using \<open>length (hdata (wrap_send e)) = U_DATA_SIZE\<close> e(2) by (simp add: hdr_bytes_def wrap_send_def)
    qed
    ultimately show ?thesis by (force simp: client_seqs_def)
  qed
  then have "\<not> rx_more st" using udp.rx_ok_more [OF st(2) assms(3)] st(4) by blast
  then have "seen = full_keys ?cd" using udp.rx_ok_more [OF st(2) assms(3)] st(2) by (auto simp: rx_ok_def)
  then show ?thesis using save_complete [OF assms(1,2,3)] st(1,2) \<open>\<not> rx_more st\<close> by blast
qed

end
