(* ===== verification/UdpNetwork.thy ===== *)
theory UdpNetwork
  imports UdpCorrect Rounds
begin

text \<open>
  Client and server of the UDP transfer together. A round is one turn of the client's main loop: it
  sends what is not acknowledged, datagrams arrive at the server, the client reads responses, and
  erases what they acknowledge. The network chooses which datagrams arrive and when (any of those sent
  so far, in any order and number) and which responses are read (any of those the server has sent so
  far, so that late ones come after newer ones). When the server answers is up to its timer.
\<close>

section \<open>The system\<close>

text \<open>
  The server over datagrams with their times: the loop with its acknowledgements, which come when
  the timer \<open>s\<close> (\<^verbatim>\<open>last_send\<close> and \<^verbatim>\<open>keep\<close>) says so, and once it is done (and the files are saved)
  the final acknowledgement for every datagram.
\<close>

fun srv_run :: "(bytes \<Rightarrow> nat) \<Rightarrow> (nat \<Rightarrow> bytes \<Rightarrow> bytes) \<Rightarrow> (nat \<times> bytes) list \<Rightarrow> Rx \<Rightarrow> nat \<times> bool \<Rightarrow>
    (Rx \<times> (nat \<times> bool) \<times> hdr list) option" where
  "srv_run zsize zdec [] st s = Some (st, s, [])"
| "srv_run zsize zdec ((now, dg) # dgs) st s =
     (if rx_more st
      then case srv_packet (recv_sender_data dg) st of None \<Rightarrow> None
           | Some st1 \<Rightarrow> let (s1, out) = srv_ack now st1 s
                         in map_option (\<lambda>(st2, s2, out2). (st2, s2, out @ out2)) (srv_run zsize zdec dgs st1 s1)
      else case save_to_file zsize zdec st of None \<Rightarrow> None
           | Some files \<Rightarrow> map_option (\<lambda>(st2, s2, out2). (st2, s2, srv_fin st @ out2)) (srv_run zsize zdec dgs st s))"

record Net =
  cmap :: "(nat \<times> bytes) list"  \<comment> \<open>the client's \<^verbatim>\<open>data_map\<close>\<close>
  cres :: hdr  \<comment> \<open>the client's \<^verbatim>\<open>s_res\<close>\<close>
  exited :: bool
  srv :: Rx
  timer :: "nat \<times> bool"  \<comment> \<open>the server's \<^verbatim>\<open>last_send\<close> and \<^verbatim>\<open>keep\<close>\<close>
  hist :: "hdr list"  \<comment> \<open>the responses the server has sent\<close>

definition net_init :: "bytes \<Rightarrow> nat \<Rightarrow> Net" where
  "net_init cd t0 = \<lparr>cmap = cli_data_map cd, cres = \<lparr>data_seq = 0, hdata = replicate U_DATA_SIZE 0\<rparr>, exited = False,
     srv = srv_init, timer = (t0, False), hist = []\<rparr>"

definition net_over :: "Net \<Rightarrow> bool" where
  "net_over n \<longleftrightarrow> exited n \<or> cmap n = []"

text \<open>One turn: the datagrams that arrive at the server, and the responses the client reads.\<close>

definition net_round :: "(bytes \<Rightarrow> nat) \<Rightarrow> (nat \<Rightarrow> bytes \<Rightarrow> bytes) \<Rightarrow> (nat \<times> bytes) list \<times> hdr list \<Rightarrow> Net \<Rightarrow> Net option" where
  "net_round zsize zdec i n =
     (case cli_send (hdata (cres n)) (cmap n) of None \<Rightarrow> None
      | Some _ \<Rightarrow>
        case srv_run zsize zdec (fst i) (srv n) (timer n) of None \<Rightarrow> None
        | Some (st, s, out) \<Rightarrow>
          let (res, ex) = read_resps (snd i) (cres n)
          in Some (n\<lparr>cmap := (if ex then cmap n else cli_erase (hdata res) (cmap n)), cres := res, exited := ex,
                     srv := st, timer := s, hist := hist n @ out\<rparr>))"

text \<open>What the network may do: deliver what the client has sent, and read out what the server has.\<close>

definition net_may :: "(bytes \<Rightarrow> nat) \<Rightarrow> (nat \<Rightarrow> bytes \<Rightarrow> bytes) \<Rightarrow> bytes \<Rightarrow> (nat \<times> bytes) list \<times> hdr list \<Rightarrow> Net \<Rightarrow> bool" where
  "net_may zsize zdec cd i n \<longleftrightarrow> (\<forall>d\<in>set (fst i). from_client cd (snd d)) \<and>
     (case srv_run zsize zdec (fst i) (srv n) (timer n) of None \<Rightarrow> True
      | Some (st, s, out) \<Rightarrow> set (snd i) \<subseteq> set (hist n) \<union> set out)"

text \<open>
  A round that gets something through: a packet that is still outstanding arrives, and at it or after
  it a datagram more than \<open>SEND_TIME\<close> after the server's last acknowledgement, or when the server is
  done; and if the server has sent responses in this round, the client reads the last of them last.
\<close>

definition outstanding :: "Net \<Rightarrow> bytes set" where
  "outstanding n = (\<lambda>e. hdr_bytes (wrap_send e)) ` set (cmap n)"

definition ack_turn :: "(bytes \<Rightarrow> nat) \<Rightarrow> (nat \<Rightarrow> bytes \<Rightarrow> bytes) \<Rightarrow> (nat \<times> bytes) list \<Rightarrow> Net \<Rightarrow> bool" where
  "ack_turn zsize zdec dgs n \<longleftrightarrow> (\<exists>a now dg b st1 s1 out1. dgs = a @ (now, dg) # b \<and>
     srv_run zsize zdec a (srv n) (timer n) = Some (st1, s1, out1) \<and> (rx_more st1 \<longrightarrow> now - fst s1 > SEND_TIME) \<and>
     outstanding n \<inter> snd ` set (a @ [(now, dg)]) \<noteq> {})"

definition productive :: "(bytes \<Rightarrow> nat) \<Rightarrow> (nat \<Rightarrow> bytes \<Rightarrow> bytes) \<Rightarrow> (nat \<times> bytes) list \<times> hdr list \<Rightarrow> Net \<Rightarrow> bool" where
  "productive zsize zdec i n \<longleftrightarrow> ack_turn zsize zdec (fst i) n \<and>
     (case srv_run zsize zdec (fst i) (srv n) (timer n) of None \<Rightarrow> False
      | Some (st, s, out) \<Rightarrow> out = [] \<or> snd i \<noteq> [] \<and> last (snd i) = last out)"

text \<open>A run, the schedules the network may choose, and how many of their rounds are productive.\<close>

definition net_run :: "(bytes \<Rightarrow> nat) \<Rightarrow> (nat \<Rightarrow> bytes \<Rightarrow> bytes) \<Rightarrow> ((nat \<times> bytes) list \<times> hdr list) list \<Rightarrow> Net \<Rightarrow> Net option" where
  "net_run zsize zdec = rounds (net_round zsize zdec) net_over"

definition net_allowed :: "(bytes \<Rightarrow> nat) \<Rightarrow> (nat \<Rightarrow> bytes \<Rightarrow> bytes) \<Rightarrow> bytes \<Rightarrow> ((nat \<times> bytes) list \<times> hdr list) list \<Rightarrow> Net \<Rightarrow> bool" where
  "net_allowed zsize zdec cd = allowed_rounds (net_round zsize zdec) net_over (net_may zsize zdec cd)"

definition net_productive :: "(bytes \<Rightarrow> nat) \<Rightarrow> (nat \<Rightarrow> bytes \<Rightarrow> bytes) \<Rightarrow> ((nat \<times> bytes) list \<times> hdr list) list \<Rightarrow> Net \<Rightarrow> nat" where
  "net_productive zsize zdec = productive_rounds (net_round zsize zdec) net_over (productive zsize zdec)"

section \<open>The server\<close>

text \<open>A response that is truthful once \<open>seen\<close> has arrived.\<close>

definition true_reply :: "bytes \<Rightarrow> nat set \<Rightarrow> hdr \<Rightarrow> bool" where
  "true_reply cd seen h \<longleftrightarrow> length (hdata h) = U_DATA_SIZE \<and>
     (\<forall>j < 8 * U_DATA_SIZE. get_bit (hdata h) j \<longrightarrow> j \<in> seen) \<and> (data_seq h = UINT32_MAX \<longrightarrow> full_keys cd \<subseteq> seen)"

lemma true_reply_mono: "true_reply cd seen h \<Longrightarrow> seen \<subseteq> seen' \<Longrightarrow> true_reply cd seen' h"
  by (auto simp: true_reply_def)

text \<open>What has arrived can be saved.\<close>

definition savable :: "(bytes \<Rightarrow> nat) \<Rightarrow> (nat \<Rightarrow> bytes \<Rightarrow> bytes) \<Rightarrow> bytes \<Rightarrow> bool" where
  "savable zsize zdec cd \<longleftrightarrow> length cd \<le> max_orig U_DATA_SIZE \<and>
     (\<forall>st. rx_ok U_DATA_SIZE cd (full_keys cd) st \<longrightarrow> save_to_file zsize zdec st \<noteq> None)"

lemma srv_run_append:
  "srv_run zsize zdec (a @ b) st s = (case srv_run zsize zdec a st s of None \<Rightarrow> None
     | Some (st1, s1, out1) \<Rightarrow> map_option (\<lambda>(st2, s2, out2). (st2, s2, out1 @ out2)) (srv_run zsize zdec b st1 s1))"
proof (induction zsize zdec a st s rule: srv_run.induct)
  case (1 zsize zdec st s)
  then show ?case by (cases "srv_run zsize zdec b st s") auto
qed (auto simp: Let_def map_option_case split: option.splits prod.splits)

lemma bits_of_ok: "rx_ok U_DATA_SIZE cd seen st \<Longrightarrow> length cd \<le> max_orig U_DATA_SIZE \<Longrightarrow>
    length (recvbit st) = U_DATA_SIZE \<and> (\<forall>j\<in>seen. get_bit (recvbit st) j) \<and>
    (\<forall>j < 8 * U_DATA_SIZE. get_bit (recvbit st) j \<longrightarrow> j \<in> seen)"
  using udp.nchunks_max [of "length cd"] by (force simp: rx_ok_def)

lemma ack_ok:
  assumes "rx_ok U_DATA_SIZE cd seen st" and "length cd \<le> max_orig U_DATA_SIZE" and "srv_ack now st s = (s1, out)"
  shows "\<forall>h\<in>set out. true_reply cd seen h \<and> (\<forall>j\<in>seen. get_bit (hdata h) j)" and "now - fst s > SEND_TIME \<Longrightarrow> out \<noteq> []"
  using bits_of_ok [OF assms(1,2)] assms(3)
  by (auto simp: srv_ack_def do_reponse_def Let_def true_reply_def UINT32_MAX_def SEND_TIME_def split: prod.splits if_splits)

lemma fin_ok:
  assumes "rx_ok U_DATA_SIZE cd seen st" and "length cd \<le> max_orig U_DATA_SIZE" and "\<not> rx_more st"
  shows "\<forall>h\<in>set (srv_fin st). true_reply cd seen h \<and> (\<forall>j\<in>seen. get_bit (hdata h) j)" and "srv_fin st \<noteq> []"
    and "seen = full_keys cd"
proof -
  show "seen = full_keys cd" using udp.rx_ok_more [OF assms(1,2)] assms(1,3) by (auto simp: rx_ok_def)
  then show "\<forall>h\<in>set (srv_fin st). true_reply cd seen h \<and> (\<forall>j\<in>seen. get_bit (hdata h) j)"
    using bits_of_ok [OF assms(1,2)] by (auto simp: srv_fin_def do_reponse_def true_reply_def)
  show "srv_fin st \<noteq> []" by (simp add: srv_fin_def do_reponse_def)
qed

text \<open>One datagram: what it does, and that it is answered when the timer says so.\<close>

lemma srv_run_step:
  assumes ok: "rx_ok U_DATA_SIZE cd seen st" and dg: "from_client cd dg" and z: "savable zsize zdec cd"
  obtains st1 s1 out1 where "rx_ok U_DATA_SIZE cd (seen \<union> client_seqs [dg]) st1"
    and "\<forall>h\<in>set out1. true_reply cd (seen \<union> client_seqs [dg]) h \<and> (\<forall>j\<in>seen \<union> client_seqs [dg]. get_bit (hdata h) j)"
    and "(rx_more st \<longrightarrow> now - fst s > SEND_TIME) \<longrightarrow> out1 \<noteq> []"
    and "\<And>dgs. srv_run zsize zdec ((now, dg) # dgs) st s =
      map_option (\<lambda>(st2, s2, out2). (st2, s2, out1 @ out2)) (srv_run zsize zdec dgs st1 s1)"
proof -
  have small: "length cd \<le> max_orig U_DATA_SIZE" using z by (simp add: savable_def)
  obtain e where e: "e \<in> set (cli_data_map cd)" "recv_sender_data dg = wrap_send e" using from_client_recv [OF dg small] .
  then have seqs: "client_seqs [dg] = {fst e}" by (simp add: client_seqs_def wrap_send_def)
  show ?thesis
  proof (cases "rx_more st")
    case True
    obtain st1 where st1: "srv_packet (wrap_send e) st = Some st1" "rx_ok U_DATA_SIZE cd (seen \<union> client_seqs [dg]) st1"
      using srv_ok_step [OF ok e(1) small] by (auto simp: seqs)
    obtain s1 out1 where ack: "srv_ack now st1 s = (s1, out1)" by fastforce
    show ?thesis
      by (rule that [OF st1(2) ack_ok(1) [OF st1(2) small ack]]) (use ack_ok(2) [OF st1(2) small ack] True st1(1) ack e(2) in auto)
  next
    case False
    note fin = fin_ok [OF ok small False]
    have "fst e \<in> full_keys cd" using e(1) unfolding cli_map_full full_map_keys [symmetric] by simp
    then have "fst e \<in> seen" using fin(3) by simp
    then have same: "seen \<union> client_seqs [dg] = seen" by (auto simp: seqs)
    obtain files where "save_to_file zsize zdec st = Some files" using z ok fin(3) by (auto simp: savable_def)
    then show ?thesis using that [unfolded same, OF ok fin(1)] fin(2) False by auto
  qed
qed

lemma srv_run_ok:
  assumes "rx_ok U_DATA_SIZE cd seen st" and "\<forall>d\<in>set dgs. from_client cd (snd d)" and z: "savable zsize zdec cd"
  shows "\<exists>st' s' out. srv_run zsize zdec dgs st s = Some (st', s', out) \<and>
    rx_ok U_DATA_SIZE cd (seen \<union> client_seqs (map snd dgs)) st' \<and>
    (\<forall>h\<in>set out. true_reply cd (seen \<union> client_seqs (map snd dgs)) h \<and> (\<forall>j\<in>seen. get_bit (hdata h) j))"
  using assms(1,2)
proof (induction dgs arbitrary: st seen s)
  case Nil
  then show ?case by (simp add: client_seqs_def)
next
  case (Cons d dgs)
  obtain now dg where d: "d = (now, dg)" by (cases d)
  have "from_client cd dg" using Cons.prems(2) by (simp add: d)
  then obtain st1 s1 out1 where step: "rx_ok U_DATA_SIZE cd (seen \<union> client_seqs [dg]) st1"
    "\<forall>h\<in>set out1. true_reply cd (seen \<union> client_seqs [dg]) h \<and> (\<forall>j\<in>seen \<union> client_seqs [dg]. get_bit (hdata h) j)"
    "srv_run zsize zdec ((now, dg) # dgs) st s = map_option (\<lambda>(st2, s2, out2). (st2, s2, out1 @ out2)) (srv_run zsize zdec dgs st1 s1)"
    using srv_run_step [OF Cons.prems(1) _ z] by metis
  have seqs: "seen \<union> client_seqs (map snd (d # dgs)) = seen \<union> client_seqs [dg] \<union> client_seqs (map snd dgs)"
    by (auto simp: client_seqs_def d)
  obtain st2 s2 out2 where IH: "srv_run zsize zdec dgs st1 s1 = Some (st2, s2, out2)"
    "rx_ok U_DATA_SIZE cd (seen \<union> client_seqs (map snd (d # dgs))) st2"
    "\<forall>h\<in>set out2. true_reply cd (seen \<union> client_seqs (map snd (d # dgs))) h \<and> (\<forall>j\<in>seen \<union> client_seqs [dg]. get_bit (hdata h) j)"
    using Cons.IH [OF step(1), of s1] Cons.prems(2) unfolding seqs by auto
  have "\<forall>h\<in>set (out1 @ out2). true_reply cd (seen \<union> client_seqs (map snd (d # dgs))) h \<and> (\<forall>j\<in>seen. get_bit (hdata h) j)"
    using step(2) IH(3) true_reply_mono [of cd "seen \<union> client_seqs [dg]" _ "seen \<union> client_seqs (map snd (d # dgs))"] seqs by auto
  then show ?case using step(3) IH by (auto simp: d)
qed

text \<open>When an answer is due at or after the arrival of a packet, one is sent, and the last one tells of it.\<close>

lemma timely_reply:
  assumes ok: "rx_ok U_DATA_SIZE cd seen st" and dgs: "\<forall>d\<in>set (a @ (now, dg) # b). from_client cd (snd d)"
    and z: "savable zsize zdec cd" and a: "srv_run zsize zdec a st s = Some (st1, s1, out1)"
    and due: "rx_more st1 \<longrightarrow> now - fst s1 > SEND_TIME" and k: "k \<in> client_seqs (map snd (a @ [(now, dg)]))"
  shows "\<exists>st' s' out. srv_run zsize zdec (a @ (now, dg) # b) st s = Some (st', s', out) \<and> out \<noteq> [] \<and> get_bit (hdata (last out)) k"
proof -
  have ok1: "rx_ok U_DATA_SIZE cd (seen \<union> client_seqs (map snd a)) st1"
    using srv_run_ok [OF ok, of a zsize zdec s] dgs z a by auto
  have dg: "from_client cd dg" using dgs by simp
  obtain st2 s2 out2 where step: "rx_ok U_DATA_SIZE cd (seen \<union> client_seqs (map snd a) \<union> client_seqs [dg]) st2"
    "\<forall>h\<in>set out2. true_reply cd (seen \<union> client_seqs (map snd a) \<union> client_seqs [dg]) h \<and>
       (\<forall>j\<in>seen \<union> client_seqs (map snd a) \<union> client_seqs [dg]. get_bit (hdata h) j)"
    "(rx_more st1 \<longrightarrow> now - fst s1 > SEND_TIME) \<longrightarrow> out2 \<noteq> []"
    "srv_run zsize zdec ((now, dg) # b) st1 s1 = map_option (\<lambda>(st2, s2, out3). (st2, s2, out2 @ out3)) (srv_run zsize zdec b st2 s2)"
    by (rule srv_run_step [OF ok1 dg z, of now s1], rule that, assumption, assumption, assumption, simp only:)
  obtain st3 s3 out3 where rest: "srv_run zsize zdec b st2 s2 = Some (st3, s3, out3)"
    "\<forall>h\<in>set out3. \<forall>j\<in>seen \<union> client_seqs (map snd a) \<union> client_seqs [dg]. get_bit (hdata h) j"
    using srv_run_ok [OF step(1), of b zsize zdec s2] dgs z by auto
  have "k \<in> seen \<union> client_seqs (map snd a) \<union> client_seqs [dg]" using k by (auto simp: client_seqs_def)
  then have "\<forall>h\<in>set (out2 @ out3). get_bit (hdata h) k" using step(2) rest(2) by auto
  moreover have "out2 @ out3 \<noteq> []" using step(3) due by simp
  ultimately have "get_bit (hdata (last (out1 @ out2 @ out3))) k" using last_in_set [of "out2 @ out3"] by simp
  then show ?thesis using step(3,4) due rest(1) by (simp add: srv_run_append a del: srv_run.simps)
qed

section \<open>The invariant\<close>

definition net_inv :: "bytes \<Rightarrow> nat set \<Rightarrow> Net \<Rightarrow> bool" where
  "net_inv cd seen n \<longleftrightarrow> rx_ok U_DATA_SIZE cd seen (srv n) \<and> true_reply cd seen (cres n) \<and>
     (\<forall>h\<in>set (hist n). true_reply cd seen h) \<and> set (cmap n) \<subseteq> set (cli_data_map cd) \<and>
     full_keys cd - fst ` set (cmap n) \<subseteq> seen \<and> (exited n \<longrightarrow> full_keys cd \<subseteq> seen)"

lemma net_inv_init: "net_inv cd {} (net_init cd t0)"
proof -
  have "\<not> get_bit (replicate U_DATA_SIZE 0) j" if "j < 8 * U_DATA_SIZE" for j
    using that by (simp add: get_bit_def less_mult_imp_div_less mult.commute)
  then show ?thesis
    using srv_ok_init [of cd] by (simp add: net_inv_def net_init_def true_reply_def cli_map_full full_map_keys UINT32_MAX_def)
qed

lemma read_resps_cases:
  assumes "read_resps rs s = (r, ex)"
  shows "r \<in> insert s (set rs)" and "ex \<Longrightarrow> r \<in> set rs \<and> data_seq r = UINT32_MAX" and "\<not> ex \<Longrightarrow> rs \<noteq> [] \<Longrightarrow> r = last rs"
  using assms by (induction rs arbitrary: s) (auto split: if_splits)

lemma cli_map_seq: "e \<in> set (cli_data_map cd) \<Longrightarrow> length cd \<le> max_orig U_DATA_SIZE \<Longrightarrow> fst e < 8 * U_DATA_SIZE"
proof -
  assume "e \<in> set (cli_data_map cd)" and small: "length cd \<le> max_orig U_DATA_SIZE"
  then have "fst e \<in> full_keys cd" unfolding cli_map_full full_map_keys [symmetric] by simp
  then show ?thesis using udp.nchunks_max [OF small] by simp
qed

lemma wire_seq:
  assumes "e \<in> set (cli_data_map cd)" and "length cd \<le> max_orig U_DATA_SIZE"
  shows "data_seq (recv_sender_data (hdr_bytes (wrap_send e))) = fst e"
proof -
  have "fst e < 2 ^ 32" using cli_map_seq [OF assms] udp.D_small(2) by linarith
  moreover have len: "length (hdata (wrap_send e)) = U_DATA_SIZE"
    using full_map_len [of e cd] assms(1) by (simp add: wrap_send_def cli_map_full)
  ultimately have "recv_sender_data (take (4 + U_DATA_SIZE) (hdr_bytes (wrap_send e))) = wrap_send e"
    by (subst recv_cut) (simp_all add: wrap_send_def)
  then show ?thesis using len by (simp add: hdr_bytes_def wrap_send_def)
qed

lemma net_round_ok:
  assumes inv: "net_inv cd seen n" and may: "net_may zsize zdec cd (dgs, rs) n" and z: "savable zsize zdec cd"
  shows "\<exists>n' seen'. net_round zsize zdec (dgs, rs) n = Some n' \<and> net_inv cd seen' n' \<and>
    length (cmap n') \<le> length (cmap n) \<and> (productive zsize zdec (dgs, rs) n \<longrightarrow> exited n' \<or> length (cmap n') < length (cmap n))"
proof -
  define seen' where "seen' = seen \<union> client_seqs (map snd dgs)"
  have small: "length cd \<le> max_orig U_DATA_SIZE" using z by (simp add: savable_def)
  have sub: "seen \<subseteq> seen'" by (simp add: seen'_def)
  have dgs: "\<forall>d\<in>set dgs. from_client cd (snd d)" using may by (simp add: net_may_def)
  have ok: "rx_ok U_DATA_SIZE cd seen (srv n)" and cm: "set (cmap n) \<subseteq> set (cli_data_map cd)"
    using inv by (simp_all add: net_inv_def)
  obtain st s out where run: "srv_run zsize zdec dgs (srv n) (timer n) = Some (st, s, out)" "rx_ok U_DATA_SIZE cd seen' st"
    "\<forall>h\<in>set out. true_reply cd seen' h"
    using srv_run_ok [OF ok dgs z, of "timer n"] unfolding seen'_def by blast
  obtain res ex where rr: "read_resps rs (cres n) = (res, ex)" by fastforce
  have keys: "fst e < 8 * U_DATA_SIZE" if "e \<in> set (cmap n)" for e using cli_map_seq [OF _ small] that cm by blast
  have "length (hdata (cres n)) = U_DATA_SIZE" using inv by (simp add: net_inv_def true_reply_def)
  then have send: "cli_send (hdata (cres n)) (cmap n) \<noteq> None"
    using keys by (simp add: cli_send_def list_all_iff)
  define n' where "n' = n\<lparr>cmap := (if ex then cmap n else cli_erase (hdata res) (cmap n)), cres := res, exited := ex,
      srv := st, timer := s, hist := hist n @ out\<rparr>"
  have round: "net_round zsize zdec (dgs, rs) n = Some n'" using send by (auto simp: net_round_def run(1) rr n'_def)
  have "\<forall>h\<in>insert (cres n) (set (hist n @ out)). true_reply cd seen' h"
    using inv run(3) true_reply_mono [OF _ sub] by (auto simp: net_inv_def)
  moreover have "set rs \<subseteq> set (hist n @ out)" using may run(1) by (simp add: net_may_def)
  ultimately have res: "true_reply cd seen' res" and hist: "\<forall>h\<in>set (hist n @ out). true_reply cd seen' h"
    using read_resps_cases(1) [OF rr] by blast+
  have "ex \<longrightarrow> full_keys cd \<subseteq> seen'" using read_resps_cases(2) [OF rr] res by (auto simp: true_reply_def)
  moreover have "full_keys cd - fst ` set (cmap n') \<subseteq> seen'"
  proof
    fix k
    assume k: "k \<in> full_keys cd - fst ` set (cmap n')"
    show "k \<in> seen'"
    proof (cases "k \<in> fst ` set (cmap n)")
      case True
      then have "get_bit (hdata res) k" and "k < 8 * U_DATA_SIZE"
        using k keys by (auto simp: n'_def cli_erase_def split: if_splits)
      then show ?thesis using res by (auto simp: true_reply_def)
    next
      case False
      then show ?thesis using k inv sub by (auto simp: net_inv_def)
    qed
  qed
  moreover have "set (cmap n') \<subseteq> set (cmap n)" by (auto simp: n'_def cli_erase_def)
  ultimately have "net_inv cd seen' n'" using run(2) res hist cm by (auto simp: net_inv_def n'_def)
  moreover have "length (cmap n') \<le> length (cmap n)" by (simp add: n'_def cli_erase_def)
  moreover have "exited n' \<or> length (cmap n') < length (cmap n)" if prod: "productive zsize zdec (dgs, rs) n"
  proof (cases ex)
    case False
    have "ack_turn zsize zdec dgs n" and got: "out = [] \<or> rs \<noteq> [] \<and> last rs = last out"
      using prod by (simp_all add: productive_def run(1))
    then obtain a now dg b st1 s1 out1 where split: "dgs = a @ (now, dg) # b"
        "srv_run zsize zdec a (srv n) (timer n) = Some (st1, s1, out1)" "rx_more st1 \<longrightarrow> now - fst s1 > SEND_TIME"
        and meet: "outstanding n \<inter> snd ` set (a @ [(now, dg)]) \<noteq> {}"
      unfolding ack_turn_def by blast
    obtain e where e: "e \<in> set (cmap n)" "hdr_bytes (wrap_send e) \<in> set (map snd (a @ [(now, dg)]))"
      using meet by (auto simp: outstanding_def)
    have "data_seq (recv_sender_data (hdr_bytes (wrap_send e))) = fst e" using e(1) cm wire_seq [OF _ small] by blast
    then have "fst e \<in> client_seqs (map snd (a @ [(now, dg)]))" using e(2) unfolding client_seqs_def by (metis image_eqI)
    then have "out \<noteq> []" "get_bit (hdata (last out)) (fst e)"
      using timely_reply [OF ok dgs [unfolded split(1)] z split(2,3)] run(1) unfolding split(1) by auto
    moreover have "res = last out" using read_resps_cases(3) [OF rr False] got calculation(1) by auto
    ultimately have "length (cli_erase (hdata res) (cmap n)) < length (cmap n)"
      unfolding cli_erase_def using keys [OF e(1)] by (intro length_filter_less [OF e(1)]) (simp add: mult.commute)
    then show ?thesis using False by (simp add: n'_def)
  qed (simp add: n'_def)
  ultimately show ?thesis using round by blast
qed

section \<open>Safety and liveness\<close>

definition net_good :: "(bytes \<Rightarrow> nat) \<Rightarrow> (nat \<Rightarrow> bytes \<Rightarrow> bytes) \<Rightarrow> bytes \<Rightarrow> Net \<Rightarrow> bool" where
  "net_good zsize zdec cd n \<longleftrightarrow> savable zsize zdec cd \<and> (\<exists>seen. net_inv cd seen n)"

interpretation udp_net: progress "net_round zsize zdec" net_over "net_may zsize zdec cd" "productive zsize zdec" "net_good zsize zdec cd"
  "\<lambda>n. length (cmap n)" for zsize zdec cd
proof unfold_locales
  fix n i
  assume good: "net_good zsize zdec cd n" and may: "net_may zsize zdec cd i n"
  obtain dgs rs where i: "i = (dgs, rs)" by fastforce
  obtain seen where "net_inv cd seen n" and z: "savable zsize zdec cd" using good by (auto simp: net_good_def)
  from net_round_ok [OF this(1) may [unfolded i] z]
  obtain n' seen' where n': "net_round zsize zdec i n = Some n'" "net_inv cd seen' n'" "length (cmap n') \<le> length (cmap n)"
    "productive zsize zdec i n \<longrightarrow> exited n' \<or> length (cmap n') < length (cmap n)" unfolding i by blast
  then have "net_over n' \<or> length (cmap n') + of_bool (productive zsize zdec i n) \<le> length (cmap n)"
    by (cases "productive zsize zdec i n") (auto simp: net_over_def)
  then show "\<exists>n'. net_round zsize zdec i n = Some n' \<and> net_good zsize zdec cd n' \<and>
      (net_over n' \<or> length (cmap n') + of_bool (productive zsize zdec i n) \<le> length (cmap n))"
    using n'(1,2) z by (auto simp: net_good_def)
qed (simp add: net_over_def)

lemma net_run_ok:
  assumes "net_allowed zsize zdec cd sched (net_init cd t0)" and "savable zsize zdec cd"
  shows "\<exists>n seen. net_run zsize zdec sched (net_init cd t0) = Some n \<and> net_inv cd seen n \<and>
    (length (cmap (net_init cd t0)) \<le> net_productive zsize zdec sched (net_init cd t0) \<longrightarrow> net_over n)"
proof -
  have "net_good zsize zdec cd (net_init cd t0)" using assms(2) net_inv_init by (auto simp: net_good_def)
  then show ?thesis using udp_net.rounds_ok assms(1) unfolding net_run_def net_allowed_def net_productive_def net_good_def by blast
qed

lemma net_over_complete:
  assumes "net_inv cd seen n" and "net_over n" and "length cd \<le> max_orig U_DATA_SIZE"
  shows "seen = full_keys cd" and "\<not> rx_more (srv n)"
proof -
  have "full_keys cd \<subseteq> seen" using assms(1,2) by (auto simp: net_inv_def net_over_def)
  moreover have ok: "rx_ok U_DATA_SIZE cd seen (srv n)" using assms(1) by (simp add: net_inv_def)
  ultimately show "seen = full_keys cd" by (auto simp: rx_ok_def)
  show "\<not> rx_more (srv n)" using udp.rx_ok_more [OF ok assms(3)] \<open>full_keys cd \<subseteq> seen\<close> by simp
qed

lemma zstd_savable:
  assumes "zstd_ok zcomp zsize zdec" and "list_all file_ok files"
    and "length (zcomp (pack_files files)) \<le> max_orig U_DATA_SIZE"
  shows "savable zsize zdec (zcomp (pack_files files))"
  using save_complete [OF assms] assms(3) by (simp add: savable_def)

text \<open>
  Safety of the protocol: whatever the network loses, repeats, delays and reorders in either
  direction, no array is left, and the client stops only when the server has received everything.
\<close>

theorem udp_client_stops_safely:
  assumes "zstd_ok zcomp zsize zdec" and "list_all file_ok files"
    and "length (zcomp (pack_files files)) \<le> max_orig U_DATA_SIZE"
    and "net_allowed zsize zdec (zcomp (pack_files files)) sched (net_init (zcomp (pack_files files)) t0)"
  shows "\<exists>n. net_run zsize zdec sched (net_init (zcomp (pack_files files)) t0) = Some n \<and> (net_over n \<longrightarrow> \<not> rx_more (srv n))"
  using net_run_ok [OF assms(4) zstd_savable [OF assms(1-3)]] net_over_complete(2) [OF _ _ assms(3)] by blast

text \<open>
  C22. Liveness of the protocol, for compressed data of at most \<open>max_orig\<close> bytes (10,912,624): after as
  many productive rounds as there are packets, the client has stopped, and the server saves exactly
  the client's files. A round is productive by what the network does in it: a missing packet arrives,
  at it or after it something arrives more than 500 ms after the server's last acknowledgement (or
  after it is done), and the last of the responses the server sends, if it does, gets through.
\<close>

theorem udp_transfer_live:
  assumes "zstd_ok zcomp zsize zdec" and "list_all file_ok files"
    and "length (zcomp (pack_files files)) \<le> max_orig U_DATA_SIZE"
    and "net_allowed zsize zdec (zcomp (pack_files files)) sched (net_init (zcomp (pack_files files)) t0)"
    and "nchunks U_DATA_SIZE (length (zcomp (pack_files files))) + 1
      \<le> net_productive zsize zdec sched (net_init (zcomp (pack_files files)) t0)"
  shows "\<exists>n. net_run zsize zdec sched (net_init (zcomp (pack_files files)) t0) = Some n \<and> net_over n \<and>
    save_to_file zsize zdec (srv n) = Some files"
proof -
  let ?cd = "zcomp (pack_files files)"
  have "length (cmap (net_init ?cd t0)) = nchunks U_DATA_SIZE (length ?cd) + 1"
    by (simp add: net_init_def cli_map_full full_map_def)
  then obtain n seen where n: "net_run zsize zdec sched (net_init ?cd t0) = Some n" "net_inv ?cd seen n" "net_over n"
    using net_run_ok [OF assms(4) zstd_savable [OF assms(1-3)]] assms(5) by auto
  then have "rx_ok U_DATA_SIZE ?cd (full_keys ?cd) (srv n)"
    using net_over_complete(1) [OF n(2,3) assms(3)] by (simp add: net_inv_def)
  then show ?thesis using n(1,3) save_complete [OF assms(1,2,3)] by blast
qed

end
