(* ===== verification/UdpRuns.thy ===== *)
theory UdpRuns
  imports UdpNetwork
begin

text \<open>
  Runs of the UDP transfer on concrete data, which show that the hypotheses of its theorems can hold:
  a file of three bytes, a compression that puts one byte in front, a channel that delivers the
  packets backwards and twice, and a network that gets one packet through in each of two rounds.
\<close>

section \<open>The data\<close>

definition demo_zcomp :: "bytes \<Rightarrow> bytes" where
  "demo_zcomp x = 1 # x"

definition demo_zsize :: "bytes \<Rightarrow> nat" where
  "demo_zsize c = length c - 1"

definition demo_zdec :: "nat \<Rightarrow> bytes \<Rightarrow> bytes" where
  "demo_zdec n c = take n (drop 1 c)"

definition demo_files :: "(nat \<times> bytes) list" where
  "demo_files = [(7, [1, 2, 3])]"

definition demo_cd :: bytes where
  "demo_cd = demo_zcomp (pack_files demo_files)"

lemma demo_zstd: "zstd_ok demo_zcomp demo_zsize demo_zdec"
  by (simp add: zstd_ok_def demo_zcomp_def demo_zsize_def demo_zdec_def)

lemma demo_ok: "list_all file_ok demo_files" and demo_len: "length demo_cd = 12"
  by (simp_all add: demo_files_def file_ok_def demo_cd_def demo_zcomp_def pack_files_def init_bytes_def)

lemma demo_small: "length demo_cd \<le> max_orig U_DATA_SIZE"
  by (simp add: demo_len max_orig_def U_DATA_SIZE_value)

lemma demo_map: "cli_data_map demo_cd = [(0, le64 12 @ replicate 8 0), (1, demo_cd)]"
proof -
  have "nchunks U_DATA_SIZE 12 = 1" by (simp add: nchunks_def U_DATA_SIZE_value)
  then show ?thesis
    by (simp add: cli_map_full full_map_def demo_len chunk_def) (simp add: U_DATA_SIZE_value demo_len)
qed

section \<open>A channel to the server\<close>

definition demo_dgs :: "(nat \<times> bytes) list" where
  "demo_dgs = (let d = map (\<lambda>e. hdr_bytes (wrap_send e)) (cli_data_map demo_cd) in zip [0..<4] (rev d @ d))"

lemma demo_dgs: "snd ` set demo_dgs = (\<lambda>e. hdr_bytes (wrap_send e)) ` set (cli_data_map demo_cd)"
  by (simp add: demo_dgs_def demo_map Let_def upt_rec insert_commute)

lemma demo_from: "\<forall>d\<in>set demo_dgs. from_client demo_cd (snd d)"
  using demo_dgs by (auto simp: from_client_def)

lemma recv_wire_witness: "recv_sender_data (take (4 + 2) (hdr_bytes \<lparr>data_seq = 5, hdata = replicate U_DATA_SIZE 9\<rparr>))
    = \<lparr>data_seq = 5, hdata = take 2 (replicate U_DATA_SIZE 9) @ replicate (U_DATA_SIZE - 2) 0\<rparr>"
  using recv_wire [of "\<lparr>data_seq = 5, hdata = replicate U_DATA_SIZE 9\<rparr>" 2] by (simp add: U_DATA_SIZE_value)

lemma udp_server_loop_witness:
  "\<exists>st out. srv_loop demo_dgs srv_init (0, False) = Some (st, out)"
  using udp_server_loop [OF demo_from demo_small, of "(0, False)"] by blast

lemma udp_transfer_files_witness:
  "\<exists>st out. srv_loop demo_dgs srv_init (0, False) = Some (st, out) \<and> \<not> rx_more st \<and>
    save_to_file demo_zsize demo_zdec st = Some demo_files"
  using udp_transfer_files [OF demo_zstd demo_ok demo_small [unfolded demo_cd_def] demo_from [unfolded demo_cd_def], of "(0, False)"]
    demo_dgs by (simp add: cli_prepare_def demo_cd_def Let_def)

section \<open>Two rounds\<close>

definition demo_dg1 :: bytes where
  "demo_dg1 = hdr_bytes (wrap_send (0, le64 12 @ replicate 8 0))"

definition demo_dg2 :: bytes where
  "demo_dg2 = hdr_bytes (wrap_send (1, demo_cd))"

definition demo_bits :: bytes where
  "demo_bits = 1 # replicate (U_DATA_SIZE - 1) 0"

definition demo_st1 :: Rx where
  "demo_st1 = srv_init\<lparr>recvbit := demo_bits, orig_size := 12\<rparr>"

definition demo_st2 :: Rx where
  "demo_st2 = demo_st1\<lparr>recvbit := 3 # replicate (U_DATA_SIZE - 1) 0,
     data_map := [(1, demo_cd @ replicate (U_DATA_SIZE - 12) 0)], recv_size := U_DATA_SIZE\<rparr>"

definition demo_reply :: "Rx \<Rightarrow> hdr" where
  "demo_reply st = \<lparr>data_seq = 0, hdata = recvbit st\<rparr>"

lemma demo_bits_0: "replicate U_DATA_SIZE (0 :: 8 word) = 0 # replicate (U_DATA_SIZE - 1) 0"
  by (metis U_DATA_SIZE_value Suc_diff_1 replicate_Suc zero_less_numeral)

lemma demo_recv: "recv_sender_data demo_dg1 = wrap_send (0, le64 12 @ replicate 8 0)" "recv_sender_data demo_dg2 = wrap_send (1, demo_cd)"
proof -
  have *: "recv_sender_data (hdr_bytes h) = h" if "data_seq h < 2 ^ 32" "length (hdata h) = U_DATA_SIZE" for h
  proof -
    have "recv_sender_data (take (4 + U_DATA_SIZE) (hdr_bytes h)) = h" using that by (subst recv_cut) simp_all
    then show ?thesis using that by (simp add: hdr_bytes_def)
  qed
  show "recv_sender_data demo_dg1 = wrap_send (0, le64 12 @ replicate 8 0)" "recv_sender_data demo_dg2 = wrap_send (1, demo_cd)"
    unfolding demo_dg1_def demo_dg2_def by (rule *; simp add: wrap_send_def demo_len U_DATA_SIZE_value)+
qed

text \<open>The acknowledgement comes when more than 500 ms have passed, whatever the interval is by then.\<close>

lemma demo_ack:
  assumes "now - t > SEND_TIME"
  shows "\<exists>keep'. srv_ack now st (t, keep) = ((now, keep'), replicate 3 (demo_reply st))"
  using assms by (simp add: srv_ack_def do_reponse_def demo_reply_def SEND_TIME_def Let_def)

lemma demo_run1: "\<exists>keep. srv_run zsize zdec [(501, demo_dg1)] srv_init (0, False) =
    Some (demo_st1, (501, keep), replicate 3 (demo_reply demo_st1))"
proof -
  have "set_bit (recvbit srv_init) 0 = Some demo_bits"
    by (simp add: set_bit_def srv_init_def demo_bits_0 demo_bits_def)
  then have "srv_packet (wrap_send (0, le64 12 @ replicate 8 0)) srv_init = Some demo_st1"
    by (simp add: srv_packet_def wrap_send_def demo_st1_def le_val_le64)
  moreover have "rx_more srv_init" by (simp add: rx_more_def srv_init_def)
  moreover obtain keep where "srv_ack 501 demo_st1 (0, False) = ((501, keep), replicate 3 (demo_reply demo_st1))"
    using demo_ack [of 501 0 demo_st1 False] by (auto simp: SEND_TIME_def)
  ultimately show ?thesis by (simp add: demo_recv)
qed

lemma demo_run2: "\<exists>keep'. srv_run zsize zdec [(1002, demo_dg2)] demo_st1 (501, keep) =
    Some (demo_st2, (1002, keep'), replicate 3 (demo_reply demo_st2))"
proof -
  have "set_bit (recvbit demo_st1) 1 = Some (3 # replicate (U_DATA_SIZE - 1) 0)"
    by (simp add: set_bit_def demo_st1_def demo_bits_def)
  then have "srv_packet (wrap_send (1, demo_cd)) demo_st1 = Some demo_st2"
    by (simp add: srv_packet_def wrap_send_def demo_st2_def demo_st1_def srv_init_def um_emplace_def demo_len)
      (simp add: U_DATA_SIZE_value)
  moreover have "rx_more demo_st1" by (simp add: rx_more_def srv_init_def demo_st1_def)
  moreover obtain keep' where "srv_ack 1002 demo_st2 (501, keep) = ((1002, keep'), replicate 3 (demo_reply demo_st2))"
    using demo_ack [of 1002 501 demo_st2 keep] by (auto simp: SEND_TIME_def)
  ultimately show ?thesis by (simp add: demo_recv)
qed

definition demo_n1 :: "bool \<Rightarrow> Net" where
  "demo_n1 keep = \<lparr>cmap = [(1, demo_cd)], cres = demo_reply demo_st1, exited = False, srv = demo_st1, timer = (501, keep),
     hist = replicate 3 (demo_reply demo_st1)\<rparr>"

definition demo_i1 :: "(nat \<times> bytes) list \<times> hdr list" where
  "demo_i1 = ([(501, demo_dg1)], [demo_reply demo_st1])"

definition demo_i2 :: "(nat \<times> bytes) list \<times> hdr list" where
  "demo_i2 = ([(1002, demo_dg2)], [demo_reply demo_st2])"

definition demo_sched :: "((nat \<times> bytes) list \<times> hdr list) list" where
  "demo_sched = [demo_i1, demo_i2]"

lemma demo_round1: "\<exists>keep. net_round zsize zdec demo_i1 (net_init demo_cd 0) = Some (demo_n1 keep)"
proof -
  obtain keep where run: "srv_run zsize zdec [(501, demo_dg1)] srv_init (0, False) =
      Some (demo_st1, (501, keep), replicate 3 (demo_reply demo_st1))" using demo_run1 by blast
  have "cli_send (replicate U_DATA_SIZE 0) (cli_data_map demo_cd) \<noteq> None"
    by (simp add: cli_send_def demo_map U_DATA_SIZE_value)
  moreover have "get_bit demo_bits 0" "\<not> get_bit demo_bits 1" by (simp_all add: get_bit_def demo_bits_def)
  ultimately have "net_round zsize zdec demo_i1 (net_init demo_cd 0) = Some (demo_n1 keep)"
    by (auto simp: net_round_def net_init_def demo_i1_def run demo_n1_def demo_map cli_erase_def demo_reply_def demo_st1_def UINT32_MAX_def
        U_DATA_SIZE_value simp del: srv_run.simps)
  then show ?thesis by blast
qed

lemma demo_allowed: "net_allowed zsize zdec demo_cd demo_sched (net_init demo_cd 0)"
  and demo_productive: "net_productive zsize zdec demo_sched (net_init demo_cd 0) = 2"
proof -
  obtain keep where round: "net_round zsize zdec demo_i1 (net_init demo_cd 0) = Some (demo_n1 keep)" using demo_round1 by blast
  have over: "\<not> net_over (net_init demo_cd 0)" "\<not> net_over (demo_n1 keep)"
    by (simp_all add: net_over_def net_init_def demo_map demo_n1_def)
  have srv: "srv (net_init demo_cd 0) = srv_init" "srv (demo_n1 keep) = demo_st1" "timer (net_init demo_cd 0) = (0, False)"
    "timer (demo_n1 keep) = (501, keep)"
    by (simp_all add: net_init_def demo_n1_def)
  obtain k1 where run1: "srv_run zsize zdec [(501, demo_dg1)] srv_init (0, False) =
      Some (demo_st1, (501, k1), replicate 3 (demo_reply demo_st1))" using demo_run1 by blast
  obtain k2 where run2: "srv_run zsize zdec [(1002, demo_dg2)] demo_st1 (501, keep) =
      Some (demo_st2, (1002, k2), replicate 3 (demo_reply demo_st2))" using demo_run2 by blast
  have from_cli: "from_client demo_cd demo_dg1" "from_client demo_cd demo_dg2"
    by (simp_all add: from_client_def demo_map demo_dg1_def demo_dg2_def)
  then have may: "net_may zsize zdec demo_cd demo_i1 (net_init demo_cd 0)" "net_may zsize zdec demo_cd demo_i2 (demo_n1 keep)"
    by (simp_all add: net_may_def demo_i1_def demo_i2_def srv run1 run2 del: srv_run.simps)
  have "ack_turn zsize zdec [(501, demo_dg1)] (net_init demo_cd 0)"
    unfolding ack_turn_def srv
    by (intro exI [of _ "[]"] exI [of _ 501] exI [of _ demo_dg1])
      (simp add: SEND_TIME_def outstanding_def net_init_def demo_map demo_dg1_def)
  moreover have "ack_turn zsize zdec [(1002, demo_dg2)] (demo_n1 keep)"
    unfolding ack_turn_def srv
    by (intro exI [of _ "[]"] exI [of _ 1002] exI [of _ demo_dg2])
      (simp add: SEND_TIME_def outstanding_def demo_n1_def demo_dg2_def)
  ultimately have prod: "productive zsize zdec demo_i1 (net_init demo_cd 0)" "productive zsize zdec demo_i2 (demo_n1 keep)"
    by (simp_all add: productive_def demo_i1_def demo_i2_def srv run1 run2 del: srv_run.simps)
  show "net_allowed zsize zdec demo_cd demo_sched (net_init demo_cd 0)"
    using may over by (simp add: net_allowed_def demo_sched_def round split: option.split)
  show "net_productive zsize zdec demo_sched (net_init demo_cd 0) = 2"
    using prod over by (simp add: net_productive_def demo_sched_def round split: option.split)
qed

lemma udp_client_stops_safely_witness:
  "\<exists>n. net_run demo_zsize demo_zdec demo_sched (net_init demo_cd 0) = Some n \<and> (net_over n \<longrightarrow> \<not> rx_more (srv n))"
  using udp_client_stops_safely [OF demo_zstd demo_ok demo_small [unfolded demo_cd_def] demo_allowed [unfolded demo_cd_def]]
  by (simp add: demo_cd_def)

lemma udp_transfer_live_witness:
  "\<exists>n. net_run demo_zsize demo_zdec demo_sched (net_init demo_cd 0) = Some n \<and> net_over n \<and>
    save_to_file demo_zsize demo_zdec (srv n) = Some demo_files"
proof -
  have "nchunks U_DATA_SIZE (length demo_cd) + 1 \<le> net_productive demo_zsize demo_zdec demo_sched (net_init demo_cd 0)"
    by (simp add: demo_productive demo_len nchunks_def U_DATA_SIZE_value)
  then show ?thesis
    using udp_transfer_live [OF demo_zstd demo_ok demo_small [unfolded demo_cd_def] demo_allowed [unfolded demo_cd_def]]
    by (simp add: demo_cd_def)
qed

end
