(* ===== verification/Pako.thy ===== *)
theory Pako
  imports ByteData
begin

text \<open>
  The two unpackers of lab 2 (\<^verbatim>\<open>Lab/2/PAKO-File-Unpacker\<close>): \<^verbatim>\<open>unpacker.c\<close>, which seeks and reads, and
  \<^verbatim>\<open>unpacker-struct.c\<close>, which reads the archive into memory and follows pointers. An archive is the
  list of its bytes; the result is the list of the entries, each with its name and what is written,
  or \<open>None\<close> for an entry whose checksum fails. Access outside the memory is \<open>None\<close> as a whole. They
  are shown to agree on well-formed archives.
\<close>

unbundle bit_operations_syntax

type_synonym entry = "bytes \<times> bytes option"

section \<open>\<^verbatim>\<open>unpacker.c\<close>\<close>

definition MAX_SIZE :: nat where
  "MAX_SIZE = 1024"

text \<open>A \<^verbatim>\<open>uint32_t\<close> passed as \<^verbatim>\<open>int\<close>.\<close>

definition to_int :: "nat \<Rightarrow> int" where
  "to_int v = (let u = v mod 2 ^ 32 in if u < 2 ^ 31 then int u else int u - 2 ^ 32)"

text \<open>\<^verbatim>\<open>readstr\<close>: the string, padded by \<^verbatim>\<open>0x20\<close> zeros, and the new position in the file.\<close>

definition readstr :: "bytes \<Rightarrow> nat \<Rightarrow> int \<Rightarrow> nat \<Rightarrow> bytes \<times> nat" where
  "readstr fd pos offset n =
     (let p = (if offset \<ge> 0 then nat offset else pos);
          d = take n (drop p fd)
      in (d @ replicate (n + 0x20 - length d) 0, p + length d))"

definition be_val :: "bytes \<Rightarrow> nat" where
  "be_val bs = foldl (\<lambda>r b. r * 0x100 + unat b) 0 bs"

definition readint :: "bytes \<Rightarrow> nat \<Rightarrow> int \<Rightarrow> nat \<Rightarrow> bool \<Rightarrow> nat \<times> nat" where
  "readint fd pos offset n little =
     (let (ary, pos') = readstr fd pos offset n
      in (if little then le_val (take 8 ary) else be_val (take n ary), pos'))"

text \<open>The XOR of the words of eight bytes.\<close>

function xor_loop :: "bytes \<Rightarrow> nat \<Rightarrow> nat \<Rightarrow> 64 word \<Rightarrow> 64 word" where
  "xor_loop cont fsize j x =
     (if j * 8 < fsize then xor_loop cont fsize (j + 1) (x XOR word_of_nat (le_val (take 8 (drop (j * 8) cont)))) else x)"
  by pat_completeness auto
termination by (relation "measure (\<lambda>(cont, fsize, j, x). fsize - j * 8)") auto

declare xor_loop.simps [simp del]

definition unpack_entry :: "bytes \<Rightarrow> nat \<Rightarrow> nat \<Rightarrow> nat \<Rightarrow> entry option" where
  "unpack_entry fd str_sec cont_sec i =
     (let pos0 = 0x10 + i * 0x14;
          (fn_off, pos1) = readint fd pos0 (-1) 4 True;
          (fsize, pos2) = readint fd pos1 (-1) 4 False;
          (cont_off, pos3) = readint fd pos2 (-1) 4 True;
          (cksum, pos4) = readint fd pos3 (-1) 8 False;
          (file, pos5) = readstr fd pos4 (to_int (str_sec + fn_off)) MAX_SIZE
      in if fsize + 0x20 \<ge> 2 ^ 31 then None
         else let (cont, _) = readstr fd pos5 (to_int (cont_sec + cont_off)) fsize;
                  name = takeWhile (\<lambda>c. c \<noteq> 0) file
              in Some (name, if xor_loop cont fsize 0 0 = word_of_nat cksum then Some (take fsize cont) else None))"

fun those_upto :: "(nat \<Rightarrow> 'a option) \<Rightarrow> nat list \<Rightarrow> 'a list option" where
  "those_upto f [] = Some []"
| "those_upto f (i # is) = (case f i of None \<Rightarrow> None | Some e \<Rightarrow> map_option ((#) e) (those_upto f is))"

definition unpacker :: "bytes \<Rightarrow> entry list option" where
  "unpacker fd =
     (let (str_sec, pos1) = readint fd 4 (-1) 4 True;
          (cont_sec, pos2) = readint fd pos1 (-1) 4 True;
          (nfiles, pos3) = readint fd pos2 (-1) 4 True
      in those_upto (unpack_entry fd str_sec cont_sec) [0..<nfiles])"

section \<open>\<^verbatim>\<open>unpacker-struct.c\<close>\<close>

definition MAGIC :: nat where
  "MAGIC = 0x4F4B4150"

text \<open>The file in memory, aligned to eight bytes; a part of it, when it lies inside.\<close>

definition read_file :: "bytes \<Rightarrow> bytes" where
  "read_file fd = fd @ replicate (((length fd - 1) div 8 + 1) * 8 - length fd) 0"

definition field :: "bytes \<Rightarrow> nat \<Rightarrow> nat \<Rightarrow> bytes option" where
  "field mem p n = (if p + n \<le> length mem then Some (take n (drop p mem)) else None)"

record File_Meta =
  off_file :: int
  filesize :: nat
  off_data :: int
  mchecksum :: nat  \<comment> \<open>the member \<^verbatim>\<open>checksum\<close>\<close>

text \<open>\<^verbatim>\<open>memcpy\<close> into the structure and the two changes of byte order.\<close>

definition read_meta :: "bytes \<Rightarrow> nat \<Rightarrow> File_Meta option" where
  "read_meta mem i = map_option (\<lambda>b.
     \<lparr>off_file = to_int (le_val (take 4 b)), filesize = be_val (take 4 (drop 4 b)),
      off_data = to_int (le_val (take 4 (drop 8 b))), mchecksum = be_val (take 8 (drop 12 b))\<rparr>) (field mem (16 + i * 20) 20)"

text \<open>\<^verbatim>\<open>check_checksum\<close>: whole words first, then the bytes that are left, each into its byte of the sum.\<close>

function ck_words :: "bytes \<Rightarrow> nat \<Rightarrow> nat \<Rightarrow> 64 word \<Rightarrow> nat \<times> 64 word" where
  "ck_words cont fsize j x =
     (if j + 8 \<le> fsize then ck_words cont fsize (j + 8) (x XOR word_of_nat (le_val (take 8 (drop j cont)))) else (j, x))"
  by pat_completeness auto
termination by (relation "measure (\<lambda>(cont, fsize, j, x). fsize - j)") auto

function ck_bytes :: "bytes \<Rightarrow> nat \<Rightarrow> nat \<Rightarrow> 64 word \<Rightarrow> 64 word" where
  "ck_bytes cont fsize j x =
     (if j + 1 \<le> fsize
      then ck_bytes cont fsize (j + 1) (x XOR push_bit (8 * (j mod 8)) (ucast (cont ! (j div 8 * 8 + j mod 8))))
      else x)"
  by pat_completeness auto
termination by (relation "measure (\<lambda>(cont, fsize, j, x). fsize - j)") auto

declare ck_words.simps [simp del] ck_bytes.simps [simp del]

definition check_checksum :: "bytes \<Rightarrow> nat \<Rightarrow> nat \<Rightarrow> bool" where
  "check_checksum cont fsize cksum \<longleftrightarrow> (case ck_words cont fsize 0 0 of (j, x) \<Rightarrow> ck_bytes cont fsize j x = word_of_nat cksum)"

text \<open>The string at a pointer: undefined when the pointer or the end of the string is outside.\<close>

definition cstring_at :: "bytes \<Rightarrow> int \<Rightarrow> bytes option" where
  "cstring_at mem p = (if 0 \<le> p \<and> 0 \<in> set (drop (nat p) mem) then Some (takeWhile (\<lambda>c. c \<noteq> 0) (drop (nat p) mem)) else None)"

definition read_entry :: "bytes \<Rightarrow> int \<Rightarrow> int \<Rightarrow> nat \<Rightarrow> entry option" where
  "read_entry mem off_str off_dat i = do {
     m \<leftarrow> read_meta mem i;
     name \<leftarrow> cstring_at mem (off_str + off_file m);
     cont \<leftarrow> (if 0 \<le> off_dat + off_data m then field mem (nat (off_dat + off_data m)) (filesize m) else None);
     Some (name, if check_checksum cont (filesize m) (mchecksum m) then Some cont else None) }"

text \<open>
  The lines that are printed are not part of the entries. The width of the sizes in them is the only
  step of the printing that can be undefined: it converts \<^verbatim>\<open>log10\<close> of the largest size to an integer,
  and when all files are empty that is infinite.
\<close>

definition size_width :: "nat list \<Rightarrow> nat option" where
  "size_width sizes = (let mx = foldl max 0 sizes in if mx = 0 then None else Some (length (show_nat mx)))"

lemma size_width_undefined: "size_width sizes = None \<longleftrightarrow> (\<forall>n\<in>set sizes. n = 0)"
proof -
  have "foldl max m sizes = 0 \<longleftrightarrow> m = 0 \<and> (\<forall>n\<in>set sizes. n = 0)" for m :: nat
    by (induction sizes arbitrary: m) auto
  then show ?thesis by (simp add: size_width_def Let_def)
qed

text \<open>\<^verbatim>\<open>main\<close>; \<open>Some None\<close> is the exit for a wrong magic number.\<close>

definition unpacker_struct :: "bytes \<Rightarrow> entry list option option" where
  "unpacker_struct fd =
     (let mem = read_file fd
      in case field mem 0 16 of None \<Rightarrow> None
         | Some h \<Rightarrow>
             if le_val (take 4 h) \<noteq> MAGIC then Some None
             else map_option Some (those_upto
                    (read_entry mem (to_int (le_val (take 4 (drop 4 h)))) (to_int (le_val (take 4 (drop 8 h)))))
                    [0..<le_val (take 4 (drop 12 h))]))"

section \<open>Well-formed archives\<close>

text \<open>The fields of an entry, and the conditions: inside the file, names of at most 1023 bytes.\<close>

definition fld :: "bytes \<Rightarrow> nat \<Rightarrow> nat \<Rightarrow> bytes" where
  "fld fd p n = take n (drop p fd)"

definition entry_ok :: "bytes \<Rightarrow> nat \<Rightarrow> nat \<Rightarrow> nat \<Rightarrow> bool" where
  "entry_ok fd str_sec cont_sec i \<longleftrightarrow>
     (let b = 16 + i * 20; n = str_sec + le_val (fld fd b 4); c = cont_sec + le_val (fld fd (b + 8) 4);
          s = be_val (fld fd (b + 4) 4)
      in b + 20 \<le> length fd \<and> n < 2 ^ 31 \<and> c < 2 ^ 31 \<and> 0 \<in> set (fld fd n MAX_SIZE) \<and>
         c + s \<le> length fd \<and> s + 0x20 < 2 ^ 31)"

definition pak_ok :: "bytes \<Rightarrow> bool" where
  "pak_ok fd \<longleftrightarrow> 16 \<le> length fd \<and> le_val (fld fd 0 4) = MAGIC \<and>
     list_all (entry_ok fd (le_val (fld fd 4 4)) (le_val (fld fd 8 4))) [0..<le_val (fld fd 12 4)]"

section \<open>Checksums\<close>

definition lew :: "bytes \<Rightarrow> 64 word" where
  "lew bs = word_of_nat (le_val bs)"

function xsum :: "bytes \<Rightarrow> 64 word" where
  "xsum bs = (if bs = [] then 0 else lew (take 8 bs) XOR xsum (drop 8 bs))"
  by pat_completeness auto
termination by (relation "measure length") auto

declare xsum.simps [simp del]

lemma xsum_Nil [simp]: "xsum [] = 0"
  by (subst xsum.simps) simp

lemma le_val_Cons: "le_val (b # bs) = unat b + 256 * le_val bs"
  by (simp add: le_val_def)

lemma le_val_replicate: "le_val [] = 0" "le_val (replicate n 0) = 0"
  by (induction n) (simp_all add: le_val_def)

lemma le_val_zeros: "le_val (bs @ replicate n 0) = le_val bs"
  by (induction bs) (simp_all add: le_val_Cons le_val_replicate)

lemma take_append_zeros: "\<exists>n'. take k (bs @ replicate n 0) = take k bs @ replicate n' 0"
  by (intro exI [of _ "min (k - length bs) n"]) (simp add: min.commute)

lemma xor_loop_sum:
  assumes "length c = fsize"
  shows "xor_loop (c @ replicate z 0) fsize j x = x XOR xsum (drop (j * 8) c)"
proof (induction "fsize - j * 8" arbitrary: j x rule: less_induct)
  case less
  show ?case
  proof (cases "j * 8 < fsize")
    case True
    obtain z' where z': "drop (j * 8) (c @ replicate z 0) = drop (j * 8) c @ replicate z 0"
      using True assms by simp
    obtain n' where "take 8 (drop (j * 8) c @ replicate z 0) = take 8 (drop (j * 8) c) @ replicate n' 0"
      using take_append_zeros by blast
    then have w: "word_of_nat (le_val (take 8 (drop (j * 8) (c @ replicate z 0)))) = lew (take 8 (drop (j * 8) c))"
      by (simp add: z' lew_def le_val_zeros)
    have "xor_loop (c @ replicate z 0) fsize (j + 1) (x XOR lew (take 8 (drop (j * 8) c)))
        = (x XOR lew (take 8 (drop (j * 8) c))) XOR xsum (drop ((j + 1) * 8) c)"
      using True by (intro less) simp
    moreover have "xsum (drop (j * 8) c) = lew (take 8 (drop (j * 8) c)) XOR xsum (drop ((j + 1) * 8) c)"
      using True assms by (subst xsum.simps) (simp add: add.commute)
    ultimately show ?thesis using True by (subst xor_loop.simps) (simp add: w xor.assoc del: take_append drop_append)
  next
    case False
    then show ?thesis using assms by (subst xor_loop.simps) simp
  qed
qed

lemma lew_Cons:
  assumes "length bs < 8"
  shows "lew (b # bs) = ucast b XOR push_bit 8 (lew bs)"
proof -
  have "lew (b # bs) = ucast b + push_bit 8 (lew bs)"
    by (simp add: lew_def le_val_Cons push_bit_eq_mult)
  also have "\<dots> = ucast b XOR push_bit 8 (lew bs)"
  proof (rule disjunctive_add_eq_xor)
    show "ucast b AND push_bit 8 (lew bs) = 0"
      by (rule bit_word_eqI) (auto simp: bit_simps dest: bit_imp_le_length)
  qed
  finally show ?thesis .
qed

lemma ck_bytes_tail:
  assumes "length c = n" and "n \<le> k div 8 * 8 + 8"
  shows "ck_bytes c n k x = x XOR push_bit (8 * (k mod 8)) (lew (drop k c))"
  using assms
proof (induction "n - k" arbitrary: k x)
  case 0
  then show ?case by (subst ck_bytes.simps) (simp add: lew_def le_val_def)
next
  case (Suc d)
  then have k: "k < n" by simp
  have tail: "drop k c = c ! k # drop (k + 1) c" using k Suc.prems(1) by (simp add: Cons_nth_drop_Suc)
  have "n - k \<le> 8" using Suc.prems(2) by (metis add.commute diff_le_mono2 div_mult_mod_eq le_add1 le_diff_conv le_trans mult.commute)
  then have lc: "lew (drop k c) = ucast (c ! k) XOR push_bit 8 (lew (drop (k + 1) c))"
    unfolding tail using Suc.prems(1) k by (intro lew_Cons) auto
  have step: "ck_bytes c n k x = ck_bytes c n (k + 1) (x XOR push_bit (8 * (k mod 8)) (ucast (c ! k)))"
    using k by (subst ck_bytes.simps) simp
  show ?case
  proof (cases "k mod 8 = 7")
    case True
    then have "n = k + 1" using k Suc.prems(2) div_mult_mod_eq [of k 8] by linarith
    then have "drop (k + 1) c = []" using Suc.prems(1) by simp
    then have "lew (drop (k + 1) c) = 0" by (simp add: lew_def le_val_def)
    moreover have "ck_bytes c n (k + 1) y = y" for y using \<open>n = k + 1\<close> by (subst ck_bytes.simps) simp
    ultimately show ?thesis by (simp add: step lc)
  next
    case False
    then have m: "(k + 1) mod 8 = k mod 8 + 1" "(k + 1) div 8 = k div 8" by presburger+
    have "ck_bytes c n (k + 1) (x XOR push_bit (8 * (k mod 8)) (ucast (c ! k)))
        = (x XOR push_bit (8 * (k mod 8)) (ucast (c ! k))) XOR push_bit (8 * ((k + 1) mod 8)) (lew (drop (k + 1) c))"
      using Suc.hyps(2) Suc.prems m by (intro Suc.hyps(1)) simp_all
    then show ?thesis using m by (simp add: step lc xor.assoc push_bit_xor ac_simps)
  qed
qed

lemma ck_sum:
  assumes "length c = n" and "j mod 8 = 0"
  shows "(case ck_words c n j x of (j', x') \<Rightarrow> ck_bytes c n j' x') = x XOR xsum (drop j c)"
  using assms
proof (induction "n - j" arbitrary: j x rule: less_induct)
  case less
  show ?case
  proof (cases "j + 8 \<le> n")
    case True
    have "xsum (drop j c) = lew (take 8 (drop j c)) XOR xsum (drop (j + 8) c)"
      using True less.prems by (subst xsum.simps) (auto simp: add.commute)
    moreover have "(case ck_words c n (j + 8) (x XOR lew (take 8 (drop j c))) of (j', x') \<Rightarrow> ck_bytes c n j' x')
        = (x XOR lew (take 8 (drop j c))) XOR xsum (drop (j + 8) c)"
      using True less.prems by (intro less) auto
    ultimately show ?thesis using True by (subst ck_words.simps) (simp add: lew_def xor.assoc)
  next
    case False
    then have "ck_words c n j x = (j, x)" by (subst ck_words.simps) simp
    moreover have "ck_bytes c n j x = x XOR push_bit (8 * (j mod 8)) (lew (drop j c))"
      using False less.prems by (intro ck_bytes_tail) (auto dest: mod_0_imp_dvd)
    moreover have "xsum (drop j c) = lew (drop j c)"
      using False less.prems by (subst xsum.simps) (auto simp: lew_def le_val_def)
    ultimately show ?thesis using less.prems by simp
  qed
qed

section \<open>Fields\<close>

lemma length_fld [simp]: "p + n \<le> length fd \<Longrightarrow> length (fld fd p n) = n"
  by (simp add: fld_def)

lemma readstr_inside:
  assumes "p + n \<le> length fd"
  shows "readstr fd p (-1) n = (fld fd p n @ replicate 0x20 0, p + n)"
    and "readstr fd q (int p) n = (fld fd p n @ replicate 0x20 0, p + n)"
  using assms by (simp_all add: readstr_def fld_def)

lemma readint_inside:
  assumes "p + n \<le> length fd" and "n \<le> 8"
  shows "readint fd p (-1) n True = (le_val (fld fd p n), p + n)"
    and "readint fd p (-1) n False = (be_val (fld fd p n), p + n)"
proof -
  have "take 8 (fld fd p n @ replicate 0x20 0) = fld fd p n @ replicate (8 - n) 0"
    using assms by (simp add: min_def)
  then show "readint fd p (-1) n True = (le_val (fld fd p n), p + n)"
    using assms by (simp add: readint_def readstr_inside le_val_zeros del: take_append)
  show "readint fd p (-1) n False = (be_val (fld fd p n), p + n)"
    using assms by (simp add: readint_def readstr_inside)
qed

lemma field_fld: "p + n \<le> length fd \<Longrightarrow> field (fd @ z) p n = Some (fld fd p n)"
  by (simp add: field_def fld_def)

lemma fld_fld: "q + m \<le> n \<Longrightarrow> fld (fld fd p n) q m = fld fd (p + q) m"
  by (simp add: fld_def drop_take min_def add.commute)

lemma takeWhile_found: "0 \<in> set xs \<Longrightarrow> takeWhile (\<lambda>c. c \<noteq> 0) (xs @ ys) = takeWhile (\<lambda>c. c \<noteq> (0 :: 8 word)) xs"
  by (induction xs) auto

lemma name_prefix:
  assumes "0 \<in> set (fld fd p n)"
  shows "takeWhile (\<lambda>c. c \<noteq> 0) (drop p fd @ z) = takeWhile (\<lambda>c. c \<noteq> 0) (fld fd p n)"
proof -
  have "drop p fd @ z = fld fd p n @ (drop n (drop p fd) @ z)"
    by (simp only: fld_def append.assoc [symmetric] append_take_drop_id)
  then show ?thesis using takeWhile_found [OF assms] by simp
qed

lemma to_int_small: "v < 2 ^ 31 \<Longrightarrow> to_int v = int v"
  by (simp add: to_int_def Let_def)

lemma entry_eq:
  assumes "entry_ok fd str_sec cont_sec i"
  shows "unpack_entry fd str_sec cont_sec i = read_entry (fd @ z) (to_int str_sec) (to_int cont_sec) i"
proof -
  define b where "b = 16 + i * 20"
  define n where "n = str_sec + le_val (fld fd b 4)"
  define c where "c = cont_sec + le_val (fld fd (b + 8) 4)"
  define sz where "sz = be_val (fld fd (b + 4) 4)"
  define ck where "ck = be_val (fld fd (b + 12) 8)"
  have ok: "b + 20 \<le> length fd" "n < 2 ^ 31" "c < 2 ^ 31" "0 \<in> set (fld fd n MAX_SIZE)" "c + sz \<le> length fd" "sz + 0x20 < 2 ^ 31"
    using assms unfolding entry_ok_def Let_def b_def n_def c_def sz_def by blast+
  define cont where "cont = fld fd c sz"
  have len: "length cont = sz" using ok(5) by (simp add: cont_def)
  obtain z1 p1 where name: "readstr fd (b + 20) (int n) MAX_SIZE = (fld fd n MAX_SIZE @ z1, p1)"
    by (simp add: readstr_def fld_def)
  have L: "unpack_entry fd str_sec cont_sec i = Some (takeWhile (\<lambda>x. x \<noteq> 0) (fld fd n MAX_SIZE),
      if xsum cont = word_of_nat ck then Some cont else None)"
  proof -
    have "readint fd (0x10 + i * 0x14) (-1) 4 True = (le_val (fld fd b 4), b + 4)"
      using readint_inside(1) [of b 4 fd] ok(1) by (simp add: b_def)
    moreover have "readint fd (b + 4) (-1) 4 False = (sz, b + 8)" "readint fd (b + 8) (-1) 4 True = (le_val (fld fd (b + 8) 4), b + 12)"
      "readint fd (b + 12) (-1) 8 False = (ck, b + 20)"
      using readint_inside [of "b + 4" 4 fd] readint_inside [of "b + 8" 4 fd] readint_inside [of "b + 12" 8 fd] ok(1)
      by (simp_all add: sz_def ck_def)
    moreover have "readstr fd p1 (int c) sz = (cont @ replicate 0x20 0, c + sz)"
      using readstr_inside(2) [OF ok(5)] by (simp add: cont_def)
    moreover have "xor_loop (cont @ replicate 0x20 0) sz 0 0 = xsum cont" using xor_loop_sum [OF len, of 32 0 0] by simp
    ultimately show ?thesis
      using ok name takeWhile_found [OF ok(4), of z1] len
      by (simp add: unpack_entry_def Let_def n_def [symmetric] c_def [symmetric] to_int_small)
  qed
  have small: "str_sec < 2 ^ 31" "cont_sec < 2 ^ 31" "le_val (fld fd b 4) < 2 ^ 31" "le_val (fld fd (b + 8) 4) < 2 ^ 31"
    using ok(2,3) by (simp_all add: n_def c_def)
  have meta: "read_meta (fd @ z) i = Some \<lparr>off_file = int (le_val (fld fd b 4)), filesize = sz,
      off_data = int (le_val (fld fd (b + 8) 4)), mchecksum = ck\<rparr>"
  proof -
    have f: "field (fd @ z) (16 + i * 20) 20 = Some (fld fd b 20)" using field_fld [of b 20 fd z] ok(1) by (simp add: b_def)
    have "take 4 (fld fd b 20) = fld fd b 4" "take 4 (drop 4 (fld fd b 20)) = fld fd (b + 4) 4"
      "take 4 (drop 8 (fld fd b 20)) = fld fd (b + 8) 4" "take 8 (drop 12 (fld fd b 20)) = fld fd (b + 12) 8"
      using fld_fld [of 0 4 20 fd b] fld_fld [of 4 4 20 fd b] fld_fld [of 8 4 20 fd b] fld_fld [of 12 8 20 fd b]
      by (simp_all add: fld_def)
    then show ?thesis using small by (simp add: read_meta_def f sz_def ck_def to_int_small)
  qed
  have sums: "to_int str_sec + int (le_val (fld fd b 4)) = int n" "to_int cont_sec + int (le_val (fld fd (b + 8) 4)) = int c"
    using small by (simp_all add: to_int_small n_def c_def)
  have "0 \<in> set (drop n fd)" using ok(4) by (auto simp: fld_def dest: in_set_takeD)
  then have "cstring_at (fd @ z) (int n) = Some (takeWhile (\<lambda>x. x \<noteq> 0) (fld fd n MAX_SIZE))"
    using name_prefix [OF ok(4)] by (cases "n \<le> length fd") (simp_all add: cstring_at_def)
  moreover have "field (fd @ z) c sz = Some cont" using field_fld [OF ok(5)] by (simp add: cont_def)
  moreover have "check_checksum cont sz ck \<longleftrightarrow> xsum cont = word_of_nat ck"
    using ck_sum [OF len, of 0 0] by (simp add: check_checksum_def split: prod.splits)
  ultimately show ?thesis unfolding L by (simp add: read_entry_def meta sums)
qed

lemma those_upto_cong: "list_all (\<lambda>i. f i = g i) is \<Longrightarrow> those_upto f is = those_upto g is"
  by (induction "is") (auto split: option.splits)

text \<open>
  C26. The two unpackers agree on well-formed archives: the same entries in the same order, with the
  same verdict on every checksum and the same bytes to be written, although one sums up padded words
  of a string it has read at a position and the other whole words and then single bytes behind a
  pointer. (What they print about the entries is left out; for archives in which all files are empty
  the second is undefined there, \<open>size_width_undefined\<close>, and an archive without files makes it declare
  an array of no elements.)
\<close>

theorem unpackers_agree:
  assumes "pak_ok fd"
  shows "unpacker_struct fd = map_option Some (unpacker fd)"
proof -
  have len: "16 \<le> length fd" and magic: "le_val (fld fd 0 4) = MAGIC"
    and entries: "list_all (entry_ok fd (le_val (fld fd 4 4)) (le_val (fld fd 8 4))) [0..<le_val (fld fd 12 4)]"
    using assms by (simp_all add: pak_ok_def)
  obtain z where mem: "read_file fd = fd @ z" by (simp add: read_file_def)
  have "take 4 (fld fd 0 16) = fld fd 0 4" "take 4 (drop 4 (fld fd 0 16)) = fld fd 4 4"
      "take 4 (drop 8 (fld fd 0 16)) = fld fd 8 4" "take 4 (drop 12 (fld fd 0 16)) = fld fd 12 4"
    using fld_fld [of 0 4 16 fd 0] fld_fld [of 4 4 16 fd 0] fld_fld [of 8 4 16 fd 0] fld_fld [of 12 4 16 fd 0]
    by (simp_all add: fld_def)
  moreover have "field (read_file fd) 0 16 = Some (fld fd 0 16)" using field_fld [of 0 16 fd z] len by (simp add: mem)
  moreover have "those_upto (unpack_entry fd (le_val (fld fd 4 4)) (le_val (fld fd 8 4))) [0..<le_val (fld fd 12 4)]
      = those_upto (read_entry (read_file fd) (to_int (le_val (fld fd 4 4))) (to_int (le_val (fld fd 8 4)))) [0..<le_val (fld fd 12 4)]"
    using entries by (intro those_upto_cong) (simp add: list_all_iff entry_eq mem)
  moreover have "readint fd 4 (-1) 4 True = (le_val (fld fd 4 4), 8)" "readint fd 8 (-1) 4 True = (le_val (fld fd 8 4), 12)"
    "readint fd 12 (-1) 4 True = (le_val (fld fd 12 4), 16)"
    using readint_inside(1) [of 4 4 fd] readint_inside(1) [of 8 4 fd] readint_inside(1) [of 12 4 fd] len by simp_all
  ultimately show ?thesis using magic by (simp add: unpacker_struct_def unpacker_def Let_def)
qed

section \<open>A concrete archive\<close>

definition demo_pak :: bytes where
  "demo_pak = [0x50, 0x41, 0x4B, 0x4F, 36, 0, 0, 0, 38, 0, 0, 0, 1, 0, 0, 0,
     0, 0, 0, 0, 0, 0, 0, 9, 0, 0, 0, 0, 8, 7, 6, 5, 4, 3, 2, 8,
     97, 0, 1, 2, 3, 4, 5, 6, 7, 8, 9]"

lemma demo_pak_ok: "pak_ok demo_pak"
  by (simp add: pak_ok_def demo_pak_def fld_def le_val_def be_val_def MAGIC_def entry_ok_def MAX_SIZE_def Let_def)

lemma demo_unpacked: "unpacker demo_pak = Some [([97], Some [1, 2, 3, 4, 5, 6, 7, 8, 9])]"
  by (simp add: unpacker_def unpack_entry_def readint_def readstr_def demo_pak_def le_val_Cons le_val_replicate be_val_def to_int_def
      MAX_SIZE_def xor_loop.simps Let_def)

lemma unpackers_agree_witness: "unpacker_struct demo_pak = Some (Some [([97], Some [1, 2, 3, 4, 5, 6, 7, 8, 9])])"
  using unpackers_agree [OF demo_pak_ok] by (simp add: demo_unpacked)

end
