(* ===== verification/Oracle.thy ===== *)
theory Oracle
  imports ByteData
begin

text \<open>
  The oracles of lab 7 (\<^verbatim>\<open>Lab/7/Play with the Oracles/oracle.c\<close>, and \<^verbatim>\<open>oraclep1.c\<close>, which differs in
  one line): two oracles with a stage, a key and a pointer to a secret, and the generator of secrets
  with its static buffer and its static seed. The random numbers of the C library are parameters:
  \<open>rand\<close> gives a number and the next state of the generator, \<open>srand\<close> the state for a seed. What a
  user types, and the bytes of the stack behind a message, are inputs of a step; a null pointer that
  is followed is \<open>None\<close>.
\<close>

unbundle bit_operations_syntax

section \<open>State\<close>

text \<open>A pointer to the static buffer, or to a copy of its own.\<close>

datatype sptr = Static | Copy string

record oracle_t =
  ostage :: nat
  okey :: "32 word"
  osecret :: "sptr option"

record 'r Osys =
  oracles :: "oracle_t list"
  oseed :: int
  omagic :: "32 word"
  obuf :: string
  orng :: 'r

datatype answer = Hello | Bad_message | Good_job | No_no_no | Show string int | Invalid_input

definition maxstage :: nat where
  "maxstage = 4"

section \<open>Secrets\<close>

function hex_str :: "nat \<Rightarrow> string" where
  "hex_str v = (let d = char_of (if v mod 16 < 10 then 48 + v mod 16 else 87 + v mod 16)
     in if v < 16 then [d] else hex_str (v div 16) @ [d])"
  by pat_completeness auto
termination by (relation "measure id") auto

declare hex_str.simps [simp del]

text \<open>\<^verbatim>\<open>snprintf(buf, 10, "%x", rand())\<close> four times, one behind the other.\<close>

definition four_hex :: "('r \<Rightarrow> nat \<times> 'r) \<Rightarrow> 'r \<Rightarrow> string \<times> 'r" where
  "four_hex rand r =
     (let (a, r1) = rand r; (b, r2) = rand r1; (c, r3) = rand r2; (d, r4) = rand r3
      in (take 9 (hex_str a) @ take 9 (hex_str b) @ take 9 (hex_str c) @ take 9 (hex_str d), r4))"

definition gen_secret :: "('r \<Rightarrow> nat \<times> 'r) \<Rightarrow> (int \<Rightarrow> 'r) \<Rightarrow> 32 word \<Rightarrow> 32 word \<Rightarrow> 'r Osys \<Rightarrow> 'r Osys" where
  "gen_secret rand srand k1 k2 st =
     (let st1 = (if oseed st < 0
                 then let s = uint ((omagic st XOR k1 XOR k2) AND 0x7fffffff)
                      in st\<lparr>oseed := s, orng := srand s\<rparr>
                 else st);
          (buf, r) = four_hex rand (orng st1)
      in st1\<lparr>obuf := buf, orng := r\<rparr>)"

text \<open>\<^verbatim>\<open>msg2key\<close> on the memory that begins with the message: the XOR of its words.\<close>

definition msg2key :: "bytes \<Rightarrow> nat \<Rightarrow> int" where
  "msg2key mem len =
     (let n = len div 4 + (if len mod 4 \<noteq> 0 then 1 else 0)
      in if n = 0 then -1
         else uint (foldl (\<lambda>key i. key XOR word_of_nat (le_val (take 4 (drop (4 * i) mem)))) (0 :: 32 word) [0..<n] AND 0x7fffffff))"

section \<open>The tasks\<close>

definition upd_oracle :: "nat \<Rightarrow> (oracle_t \<Rightarrow> oracle_t) \<Rightarrow> 'r Osys \<Rightarrow> 'r Osys" where
  "upd_oracle i f st = st\<lparr>oracles := (oracles st)[i := f (oracles st ! i)]\<rparr>"

definition next_stage :: "oracle_t \<Rightarrow> oracle_t" where
  "next_stage o1 = o1\<lparr>ostage := (ostage o1 + 1) mod maxstage\<rparr>"

text \<open>\<open>dup\<close> is whether the secret is copied, as \<^verbatim>\<open>oraclep1.c\<close> does. The memory \<open>mem\<close> is the buffer after
  \<^verbatim>\<open>fgets\<close>, and \<open>len\<close> the length of the string in it.\<close>

definition oracle_init :: "bool \<Rightarrow> ('r \<Rightarrow> nat \<times> 'r) \<Rightarrow> (int \<Rightarrow> 'r) \<Rightarrow> 32 word \<Rightarrow> nat \<Rightarrow> bytes \<Rightarrow> nat \<Rightarrow> 'r Osys \<Rightarrow> 'r Osys \<times> answer" where
  "oracle_init dup rand srand pid i mem len st =
     (let userkey = msg2key mem len
      in if userkey < 0 then (st, Bad_message)
         else let (v, r) = rand (orng st);
                  key = word_of_nat v XOR pid;
                  st1 = gen_secret rand srand key (word_of_int userkey) (upd_oracle i (\<lambda>x. x\<lparr>okey := key\<rparr>) (st\<lparr>orng := r\<rparr>));
                  secret = (if dup then Copy (obuf st1) else Static)
              in (upd_oracle i (\<lambda>x. next_stage (x\<lparr>osecret := Some secret\<rparr>)) st1, Hello))"

definition ptr_val :: "'r Osys \<Rightarrow> sptr option \<Rightarrow> string option" where
  "ptr_val st p = (case p of None \<Rightarrow> None | Some Static \<Rightarrow> Some (obuf st) | Some (Copy s) \<Rightarrow> Some s)"

text \<open>The first token of \<^verbatim>\<open>strtok_r\<close>.\<close>

definition token1 :: "string \<Rightarrow> string option" where
  "token1 line = (let delim = (\<lambda>c. c \<in> set [CHR '' '', CHR 0x09, CHR 0x0A, CHR 0x0D]);
       t = takeWhile (\<lambda>c. \<not> delim c) (dropWhile delim line)
     in if t = [] then None else Some t)"

definition oracle_guess :: "nat \<Rightarrow> string \<Rightarrow> 'r Osys \<Rightarrow> ('r Osys \<times> answer) option" where
  "oracle_guess i line st = do {
     guess \<leftarrow> token1 line;
     secret \<leftarrow> ptr_val st (osecret (oracles st ! i));
     Some (if guess = secret then (upd_oracle i (\<lambda>x. x\<lparr>ostage := 0\<rparr>) st, Good_job)
           else (upd_oracle i next_stage st, No_no_no)) }"

definition oracle_show :: "nat \<Rightarrow> 'r Osys \<Rightarrow> ('r Osys \<times> answer) option" where
  "oracle_show i st = do {
     secret \<leftarrow> ptr_val st (osecret (oracles st ! i));
     Some ((upd_oracle i next_stage st)\<lparr>oseed := -1\<rparr>, Show secret (oseed st)) }"

section \<open>The main loop\<close>

text \<open>What is typed: the line of the menu, and what the task reads.\<close>

record input =
  choice :: char
  line :: string
  junk :: bytes  \<comment> \<open>the buffer behind the string\<close>

definition string_mem :: "string \<Rightarrow> bytes \<Rightarrow> bytes" where
  "string_mem s j = map (\<lambda>c. word_of_nat (of_char c)) s @ 0 # j"

text \<open>The table of the stages: talk, guess, guess, show.\<close>

definition run_stage :: "bool \<Rightarrow> ('r \<Rightarrow> nat \<times> 'r) \<Rightarrow> (int \<Rightarrow> 'r) \<Rightarrow> 32 word \<Rightarrow> nat \<Rightarrow> input \<Rightarrow> 'r Osys \<Rightarrow> ('r Osys \<times> answer) option" where
  "run_stage dup rand srand pid i inp st =
     (let s = ostage (oracles st ! i)
      in if s = 0 then Some (oracle_init dup rand srand pid i (string_mem (line inp) (junk inp)) (length (line inp)) st)
         else if s = 1 \<or> s = 2 then oracle_guess i (line inp) st
         else if s = 3 then oracle_show i st
         else None)"

definition main_step :: "bool \<Rightarrow> ('r \<Rightarrow> nat \<times> 'r) \<Rightarrow> (int \<Rightarrow> 'r) \<Rightarrow> 32 word \<Rightarrow> input \<Rightarrow> 'r Osys \<Rightarrow> ('r Osys \<times> answer) option" where
  "main_step dup rand srand pid inp st =
     (if choice inp = CHR ''1'' then run_stage dup rand srand pid 0 inp st
      else if choice inp = CHR ''2'' then run_stage dup rand srand pid 1 inp st
      else Some (st, Invalid_input))"

fun main_loop :: "bool \<Rightarrow> ('r \<Rightarrow> nat \<times> 'r) \<Rightarrow> (int \<Rightarrow> 'r) \<Rightarrow> 32 word \<Rightarrow> input list \<Rightarrow> 'r Osys \<Rightarrow> ('r Osys \<times> answer list) option" where
  "main_loop dup rand srand pid [] st = Some (st, [])"
| "main_loop dup rand srand pid (inp # inps) st =
     (if choice inp = CHR ''q'' then Some (st, [])
      else do {
        (st1, a) \<leftarrow> main_step dup rand srand pid inp st;
        (st2, as) \<leftarrow> main_loop dup rand srand pid inps st1;
        Some (st2, a # as) })"

definition osys_init :: "32 word \<Rightarrow> 'r \<Rightarrow> 'r Osys" where
  "osys_init mg r = \<lparr>oracles = replicate 2 \<lparr>ostage = 0, okey = 0, osecret = None\<rparr>, oseed = -1, omagic = mg, obuf = [], orng = r\<rparr>"

text \<open>\<^verbatim>\<open>oraclep1.c\<close> is the same program but for the copy of the secret.\<close>

definition oraclep1_init :: "('r \<Rightarrow> nat \<times> 'r) \<Rightarrow> (int \<Rightarrow> 'r) \<Rightarrow> 32 word \<Rightarrow> nat \<Rightarrow> bytes \<Rightarrow> nat \<Rightarrow> 'r Osys \<Rightarrow> 'r Osys \<times> answer" where
  "oraclep1_init rand srand pid i mem len st = oracle_init True rand srand pid i mem len st"

definition oraclep1_loop :: "('r \<Rightarrow> nat \<times> 'r) \<Rightarrow> (int \<Rightarrow> 'r) \<Rightarrow> 32 word \<Rightarrow> input list \<Rightarrow> 'r Osys \<Rightarrow> ('r Osys \<times> answer list) option" where
  "oraclep1_loop rand srand pid inps st = main_loop True rand srand pid inps st"

section \<open>The states that are reached\<close>

definition orc_ok :: "'r Osys \<Rightarrow> bool" where
  "orc_ok st \<longleftrightarrow> length (oracles st) = 2 \<and>
     list_all (\<lambda>x. ostage x < maxstage \<and> (ostage x \<noteq> 0 \<longrightarrow> osecret x \<noteq> None)) (oracles st)"

lemma orc_ok_nth: "orc_ok st \<Longrightarrow> i < 2 \<Longrightarrow>
    ostage (oracles st ! i) < maxstage \<and> (ostage (oracles st ! i) \<noteq> 0 \<longrightarrow> osecret (oracles st ! i) \<noteq> None)"
  by (simp add: orc_ok_def list_all_length)

lemma orc_ok_upd:
  assumes "orc_ok st" and "ostage (f (oracles st ! i)) < maxstage"
    and "ostage (f (oracles st ! i)) \<noteq> 0 \<longrightarrow> osecret (f (oracles st ! i)) \<noteq> None"
  shows "orc_ok (upd_oracle i f st)"
proof -
  have "\<forall>x\<in>insert (f (oracles st ! i)) (set (oracles st)). ostage x < maxstage \<and> (ostage x \<noteq> 0 \<longrightarrow> osecret x \<noteq> None)"
    using assms by (simp add: orc_ok_def list_all_iff)
  then have "\<forall>x\<in>set ((oracles st)[i := f (oracles st ! i)]). ostage x < maxstage \<and> (ostage x \<noteq> 0 \<longrightarrow> osecret x \<noteq> None)"
    using set_update_subset_insert by fast
  then show ?thesis using assms(1) by (simp add: orc_ok_def upd_oracle_def list_all_iff)
qed

lemma orc_ok_init: "orc_ok (osys_init mg r)"
  by (simp add: orc_ok_def osys_init_def maxstage_def numeral_2_eq_2)

lemma gen_secret_oracles: "oracles (gen_secret rand srand k1 k2 st) = oracles st"
  by (simp add: gen_secret_def Let_def split: prod.split)

lemma orc_ok_cong: "oracles st' = oracles st \<Longrightarrow> orc_ok st \<Longrightarrow> orc_ok st'"
  by (simp add: orc_ok_def)

lemma orc_ok_talk:
  assumes ok: "orc_ok st" and "i < 2"
  shows "orc_ok (fst (oracle_init dup rand srand pid i mem len st))"
proof (cases "msg2key mem len < 0")
  case False
  obtain v r where vr: "rand (orng st) = (v, r)" by fastforce
  define st0 where "st0 = upd_oracle i (\<lambda>x. x\<lparr>okey := word_of_nat v XOR pid\<rparr>) (st\<lparr>orng := r\<rparr>)"
  have "orc_ok (st\<lparr>orng := r\<rparr>)" using ok by (simp add: orc_ok_def)
  then have "orc_ok st0" unfolding st0_def
    using orc_ok_nth [OF ok assms(2)] by (intro orc_ok_upd) simp_all
  then have "orc_ok (gen_secret rand srand (word_of_nat v XOR pid) (word_of_int (msg2key mem len)) st0)"
    by (rule orc_ok_cong [OF gen_secret_oracles])
  then show ?thesis using False
    by (simp add: oracle_init_def vr Let_def st0_def [symmetric] next_stage_def maxstage_def orc_ok_upd)
qed (use ok in \<open>simp add: oracle_init_def\<close>)

lemma orc_ok_stage:
  assumes ok: "orc_ok st" and i: "i < 2" and line: "token1 (line inp) \<noteq> None"
  shows "\<exists>st' a. run_stage dup rand srand pid i inp st = Some (st', a) \<and> orc_ok st'"
proof -
  note s = orc_ok_nth [OF ok i]
  have "ostage (oracles st ! i) \<in> {0, 1, 2, 3}" using s by (auto simp: maxstage_def)
  moreover have "ptr_val st (osecret (oracles st ! i)) \<noteq> None" if "ostage (oracles st ! i) \<noteq> 0"
    using s that by (auto simp: ptr_val_def split: option.splits sptr.splits)
  moreover have "orc_ok (upd_oracle i (\<lambda>x. x\<lparr>ostage := 0\<rparr>) st)"
    by (rule orc_ok_upd [OF ok]) (simp_all add: maxstage_def)
  moreover have "orc_ok (upd_oracle i next_stage st)" if "ostage (oracles st ! i) \<noteq> 0"
    using s that by (intro orc_ok_upd [OF ok]) (simp_all add: maxstage_def next_stage_def)
  moreover have "orc_ok ((upd_oracle i next_stage st)\<lparr>oseed := -1\<rparr>)" if "ostage (oracles st ! i) \<noteq> 0"
    using calculation(4) [OF that] by (simp add: orc_ok_def)
  ultimately show ?thesis
    using line orc_ok_talk [OF ok i] unfolding run_stage_def oracle_guess_def oracle_show_def
    by (auto simp: Let_def) (metis fst_conv surj_pair)
qed

lemma main_loop_ok:
  assumes "orc_ok st" and "\<forall>inp\<in>set inps. token1 (line inp) \<noteq> None"
  shows "\<exists>st' as. main_loop dup rand srand pid inps st = Some (st', as) \<and> orc_ok st'"
  using assms
proof (induction inps arbitrary: st)
  case (Cons inp inps)
  have "\<exists>st1 a. main_step dup rand srand pid inp st = Some (st1, a) \<and> orc_ok st1"
    using orc_ok_stage [OF Cons.prems(1), of _ inp] Cons.prems by (simp add: main_step_def)
  then show ?case using Cons.IH Cons.prems by fastforce
qed auto

section \<open>Strings\<close>

definition is_hex :: "char \<Rightarrow> bool" where
  "is_hex c \<longleftrightarrow> (let n = of_char c :: nat in (48 \<le> n \<and> n < 58) \<or> (97 \<le> n \<and> n < 103))"

lemma hex_str_hex: "list_all is_hex (hex_str v) \<and> hex_str v \<noteq> []"
proof (induction v rule: hex_str.induct)
  case (1 v)
  define d where "d = (char_of (if v mod 16 < 10 then 48 + v mod 16 else 87 + v mod 16) :: char)"
  have "v mod 16 < 16" by simp
  then have "is_hex d" by (auto simp: d_def is_hex_def Let_def)
  moreover have "hex_str v = (if v < 16 then [d] else hex_str (v div 16) @ [d])"
    unfolding d_def by (subst hex_str.simps) (simp add: Let_def)
  ultimately show ?case using 1 by simp
qed

lemma list_all_take: "list_all P xs \<Longrightarrow> list_all P (take n xs)"
  by (auto simp: list_all_iff dest: in_set_takeD)

lemma four_hex_hex:
  assumes "four_hex rand r = (s, r')"
  shows "list_all is_hex s" and "s \<noteq> []"
proof -
  have "list_all is_hex (take 9 (hex_str v))" and "take 9 (hex_str v) \<noteq> []" for v
    using hex_str_hex [of v] by (simp_all add: list_all_take)
  then show "list_all is_hex s" and "s \<noteq> []"
    using assms by (auto simp: four_hex_def Let_def split: prod.splits)
qed

definition is_delim :: "char \<Rightarrow> bool" where
  "is_delim c \<longleftrightarrow> c \<in> set [CHR '' '', CHR 0x09, CHR 0x0A, CHR 0x0D]"

lemma token1_eq: "token1 l = (let t = takeWhile (\<lambda>c. \<not> is_delim c) (dropWhile is_delim l) in if t = [] then None else Some t)"
  unfolding token1_def is_delim_def Let_def ..

lemma token1_word:
  assumes "list_all is_hex s" and "s \<noteq> []"
  shows "token1 s = Some s"
proof -
  have "is_hex c \<Longrightarrow> \<not> is_delim c" for c by (auto simp: is_hex_def is_delim_def)
  then have d: "\<forall>c\<in>set s. \<not> is_delim c" using assms(1) by (auto simp: list_all_iff)
  then have "dropWhile is_delim s = s" using assms(2) by (cases s) auto
  moreover have "takeWhile (\<lambda>c. \<not> is_delim c) s = s" using d by (simp add: takeWhile_eq_all_conv)
  ultimately show ?thesis using assms(2) by (simp only: token1_eq Let_def if_False)
qed

section \<open>Two conversations\<close>

text \<open>Talk to both oracles, guess wrong twice with the first and have it show its secret.\<close>

definition typed :: "char \<Rightarrow> string \<Rightarrow> input" where
  "typed c s = \<lparr>choice = c, line = s, junk = replicate 8 0\<rparr>"

definition provoke :: "input list" where
  "provoke = [typed CHR ''1'' ''hello'', typed CHR ''2'' ''hello'', typed CHR ''1'' ''x'', typed CHR ''1'' ''x'', typed CHR ''1'' ''x'']"

lemma token_x: "token1 ''x'' = Some ''x''"
  by (simp add: token1_def)

lemma msg_hello: "msg2key (string_mem ''hello'' (replicate 8 0)) (Suc (Suc (Suc (Suc (Suc 0))))) \<ge> 0"
  by (simp add: msg2key_def Let_def)

lemma talk_effect:
  assumes "msg2key mem len \<ge> 0" and "i < length (oracles st)"
  obtains key seed where "0 \<le> seed" and
    "oracle_init dup rand srand pid i mem len st =
      (let s = (if oseed st < 0 then seed else oseed st);
           (b, r) = four_hex rand (if oseed st < 0 then srand seed else snd (rand (orng st)))
       in (st\<lparr>oracles := (oracles st)[i := (oracles st ! i)\<lparr>okey := key,
             osecret := Some (if dup then Copy b else Static), ostage := (ostage (oracles st ! i) + 1) mod maxstage\<rparr>], oseed := s, obuf := b, orng := r\<rparr>, Hello))"
proof -
  obtain v r where vr: "rand (orng st) = (v, r)" by fastforce
  define key where "key = word_of_nat v XOR pid"
  define seed where "seed = uint ((omagic st XOR key XOR word_of_int (msg2key mem len)) AND 0x7fffffff)"
  obtain b r' where b: "four_hex rand (if oseed st < 0 then srand seed else r) = (b, r')" by fastforce
  have "gen_secret rand srand key (word_of_int (msg2key mem len)) (upd_oracle i (\<lambda>x. x\<lparr>okey := key\<rparr>) (st\<lparr>orng := r\<rparr>))
      = st\<lparr>oracles := (oracles st)[i := (oracles st ! i)\<lparr>okey := key\<rparr>], oseed := (if oseed st < 0 then seed else oseed st),
          obuf := b, orng := r'\<rparr>"
    using b by (cases "oseed st < 0") (simp_all add: gen_secret_def upd_oracle_def Let_def seed_def)
  then have "oracle_init dup rand srand pid i mem len st =
      (let s = (if oseed st < 0 then seed else oseed st);
           (b, r) = four_hex rand (if oseed st < 0 then srand seed else snd (rand (orng st)))
       in (st\<lparr>oracles := (oracles st)[i := (oracles st ! i)\<lparr>okey := key,
             osecret := Some (if dup then Copy b else Static), ostage := (ostage (oracles st ! i) + 1) mod maxstage\<rparr>], oseed := s, obuf := b, orng := r\<rparr>, Hello))"
    using assms b by (cases "oseed st < 0") (simp_all add: oracle_init_def vr key_def [symmetric] Let_def upd_oracle_def next_stage_def)
  then show ?thesis using that [of seed key] by (simp add: seed_def)
qed

lemma wrong_guess:
  assumes "ptr_val st (osecret (oracles st ! i)) = Some s" and "list_all is_hex s"
  shows "oracle_guess i ''x'' st = Some (upd_oracle i next_stage st, No_no_no)"
proof -
  have "\<not> is_hex CHR ''x''" by (simp add: is_hex_def)
  then have "''x'' \<noteq> s" using assms(2) by auto
  then show ?thesis using assms(1) by (simp add: oracle_guess_def token_x)
qed

lemma provoked:
  "\<exists>st b1 r1 b2 r2 s seed. main_loop dup rand srand pid provoke (osys_init mg r)
      = Some (st, [Hello, Hello, No_no_no, No_no_no, Show s seed]) \<and>
    four_hex rand (srand seed) = (b1, r1) \<and> four_hex rand (snd (rand r1)) = (b2, r2) \<and>
    s = (if dup then b1 else b2) \<and> ostage (oracles st ! 1) = 1 \<and> ptr_val st (osecret (oracles st ! 1)) = Some b2"
proof -
  let ?st0 = "osys_init mg r" and ?m = "string_mem ''hello'' (replicate 8 0)" and ?n = "Suc (Suc (Suc (Suc (Suc 0))))"
  have init: "oracles ?st0 = [\<lparr>ostage = 0, okey = 0, osecret = None\<rparr>, \<lparr>ostage = 0, okey = 0, osecret = None\<rparr>]" "oseed ?st0 = -1"
    by (simp_all add: osys_init_def numeral_2_eq_2)
  obtain k1 seed where t0: "0 \<le> seed" and e1: "oracle_init dup rand srand pid 0 ?m ?n ?st0 =
      (let s = (if oseed ?st0 < 0 then seed else oseed ?st0);
           (b, r) = four_hex rand (if oseed ?st0 < 0 then srand seed else snd (rand (orng ?st0)))
       in (?st0\<lparr>oracles := (oracles ?st0)[0 := (oracles ?st0 ! 0)\<lparr>okey := k1,
             osecret := Some (if dup then Copy b else Static), ostage := (ostage (oracles ?st0 ! 0) + 1) mod maxstage\<rparr>],
             oseed := s, obuf := b, orng := r\<rparr>, Hello))"
    by (rule talk_effect [OF msg_hello, of 0 ?st0 dup rand srand pid]) (simp_all add: init)
  obtain b1 r1 where b1: "four_hex rand (srand seed) = (b1, r1)" by fastforce
  define st1 where "st1 = ?st0\<lparr>oracles := [\<lparr>ostage = 1, okey = k1, osecret = Some (if dup then Copy b1 else Static)\<rparr>,
        \<lparr>ostage = 0, okey = 0, osecret = None\<rparr>], oseed := seed, obuf := b1, orng := r1\<rparr>"
  have t1: "oracle_init dup rand srand pid 0 ?m ?n ?st0 = (st1, Hello)"
    unfolding e1 by (simp add: init b1 st1_def maxstage_def)
  obtain k2 sd where e2: "oracle_init dup rand srand pid 1 ?m ?n st1 =
      (let s = (if oseed st1 < 0 then sd else oseed st1);
           (b, r) = four_hex rand (if oseed st1 < 0 then srand sd else snd (rand (orng st1)))
       in (st1\<lparr>oracles := (oracles st1)[1 := (oracles st1 ! 1)\<lparr>okey := k2,
             osecret := Some (if dup then Copy b else Static), ostage := (ostage (oracles st1 ! 1) + 1) mod maxstage\<rparr>],
             oseed := s, obuf := b, orng := r\<rparr>, Hello))"
    by (rule talk_effect [OF msg_hello, of 1 st1 dup rand srand pid]) (simp_all add: st1_def)
  obtain b2 r2 where b2: "four_hex rand (snd (rand r1)) = (b2, r2)" by fastforce
  define st2 where "st2 = st1\<lparr>oracles := [\<lparr>ostage = 1, okey = k1, osecret = Some (if dup then Copy b1 else Static)\<rparr>,
        \<lparr>ostage = 1, okey = k2, osecret = Some (if dup then Copy b2 else Static)\<rparr>], obuf := b2, orng := r2\<rparr>"
  have t2: "oracle_init dup rand srand pid 1 ?m ?n st1 = (st2, Hello)"
    unfolding e2 using t0 by (simp add: b2 st2_def st1_def maxstage_def)
  define st3 where "st3 = upd_oracle 0 next_stage st2"
  define st4 where "st4 = upd_oracle 0 next_stage st3"
  define st5 where "st5 = (upd_oracle 0 next_stage st4)\<lparr>oseed := -1\<rparr>"
  define s where "s = (if dup then b1 else b2)"
  have hex: "list_all is_hex s" using four_hex_hex(1) [OF b1] four_hex_hex(1) [OF b2] by (simp add: s_def)
  note st = st5_def st4_def st3_def st2_def st1_def upd_oracle_def next_stage_def maxstage_def
  have d: "ptr_val st2 (osecret (oracles st2 ! 0)) = Some s" "ptr_val st3 (osecret (oracles st3 ! 0)) = Some s"
    "ptr_val st4 (osecret (oracles st4 ! 0)) = Some s"
    by (simp_all add: st ptr_val_def s_def)
  have stages: "ostage (oracles ?st0 ! 0) = 0" "ostage (oracles st1 ! 1) = 0" "ostage (oracles st2 ! 0) = 1"
    "ostage (oracles st3 ! 0) = 2" "ostage (oracles st4 ! 0) = 3"
    by (simp_all add: st init)
  have "main_loop dup rand srand pid provoke ?st0 = Some (st5, [Hello, Hello, No_no_no, No_no_no, Show s (oseed st4)])"
    using t1 t2 wrong_guess [OF d(1) hex] wrong_guess [OF d(2) hex] stages d(3)
    by (simp add: provoke_def typed_def main_step_def run_stage_def st3_def [symmetric] st4_def [symmetric] st5_def [symmetric]
        oracle_show_def)
  moreover have "oseed st4 = seed" by (simp add: st)
  moreover have "ostage (oracles st5 ! 1) = 1" "ptr_val st5 (osecret (oracles st5 ! 1)) = Some b2"
    by (simp_all add: st ptr_val_def)
  ultimately show ?thesis using b1 b2 s_def by metis
qed

lemma good_guess:
  assumes "ostage (oracles st ! 1) = 1" and "ptr_val st (osecret (oracles st ! 1)) = Some b" and "list_all is_hex b" and "b \<noteq> []"
  shows "\<exists>st'. main_step dup rand srand pid (typed CHR ''2'' b) st = Some (st', Good_job)"
  using assms token1_word [OF assms(3,4)] by (simp add: main_step_def run_stage_def typed_def oracle_guess_def)

text \<open>
  C27. The first version gives its secret away: with the secret in one static buffer, the secret that
  the first oracle shows is by then the one of the second, and guessing it wins, for every generator
  of random numbers and every start.
\<close>

theorem oracle_leak:
  "\<exists>st s seed. main_loop False rand srand pid provoke (osys_init mg r)
      = Some (st, [Hello, Hello, No_no_no, No_no_no, Show s seed]) \<and>
    (\<exists>st'. main_step False rand srand pid (typed CHR ''2'' s) st = Some (st', Good_job))"
proof -
  obtain st b1 r1 b2 r2 seed where p: "main_loop False rand srand pid provoke (osys_init mg r)
      = Some (st, [Hello, Hello, No_no_no, No_no_no, Show b2 seed])" "four_hex rand (snd (rand r1)) = (b2, r2)"
      "ostage (oracles st ! 1) = 1" "ptr_val st (osecret (oracles st ! 1)) = Some b2"
    using provoked [of False rand srand pid mg r] by auto
  then show ?thesis using good_guess [OF p(3,4) four_hex_hex [OF p(2)]] by blast
qed

text \<open>
  The second version copies the secrets, but it shows the seed: the secret of the second oracle is
  the output of the generator from that seed, after the four numbers of the first secret and the one
  number of a key, and guessing it wins.
\<close>

theorem oraclep1_predictable:
  "\<exists>st s seed. oraclep1_loop rand srand pid provoke (osys_init mg r)
      = Some (st, [Hello, Hello, No_no_no, No_no_no, Show s seed]) \<and>
    (\<exists>st'. oraclep1_loop rand srand pid
       [typed CHR ''2'' (fst (four_hex rand (snd (rand (snd (four_hex rand (srand seed)))))))] st = Some (st', [Good_job]))"
proof -
  obtain st b1 r1 b2 r2 s seed where p: "main_loop True rand srand pid provoke (osys_init mg r)
      = Some (st, [Hello, Hello, No_no_no, No_no_no, Show s seed])" "four_hex rand (srand seed) = (b1, r1)"
      "four_hex rand (snd (rand r1)) = (b2, r2)"
      "ostage (oracles st ! 1) = 1" "ptr_val st (osecret (oracles st ! 1)) = Some b2"
    using provoked [of True rand srand pid mg r] by auto
  have "oraclep1_loop rand srand pid [typed CHR ''2'' b2] st = Some (fst (the (main_step True rand srand pid (typed CHR ''2'' b2) st)), [Good_job])"
    using good_guess [OF p(4,5) four_hex_hex [OF p(3)], of True rand srand pid]
    by (auto simp: oraclep1_loop_def) (simp add: typed_def)
  then show ?thesis using p(1,2,3) by (auto simp: oraclep1_loop_def)
qed

text \<open>
  No null pointer is followed and no stage is left: with a word on every line that is read, every
  conversation goes through, in both versions, and an oracle that is past its first stage has a secret.
\<close>

theorem oracle_total:
  assumes "\<forall>inp\<in>set inps. token1 (line inp) \<noteq> None"
  shows "\<exists>st as. main_loop dup rand srand pid inps (osys_init mg r) = Some (st, as) \<and>
    (\<forall>x\<in>set (oracles st). ostage x < maxstage \<and> (ostage x = 0 \<or> osecret x \<noteq> None))"
proof -
  obtain st as where "main_loop dup rand srand pid inps (osys_init mg r) = Some (st, as)" "orc_ok st"
    using main_loop_ok [OF orc_ok_init [of mg r] assms, of dup rand srand pid] by (elim exE conjE) (rule that)
  then show ?thesis by (auto simp: orc_ok_def list_all_iff)
qed

lemma oracle_total_witness:
  "\<exists>st as. main_loop True (\<lambda>r :: nat. (r mod 10, r + 1)) nat 0 provoke (osys_init 5 0) = Some (st, as)"
proof -
  have words: "\<forall>inp\<in>set provoke. token1 (line inp) \<noteq> None"
    by (simp add: provoke_def typed_def token1_def)
  show ?thesis
    using oracle_total [OF words, of True "\<lambda>r. (r mod 10, r + 1)" nat 0 5 0]
    by (elim exE conjE) (intro exI, assumption)
qed

end
