(* ===== verification/Base64.thy ===== *)
theory Base64
  imports Prelude "HOL-Library.Word"
begin

text \<open>
  Base64 as the labs use it (\<^verbatim>\<open>Lab/7/Web Crawler/base64.c\<close>, and the same file under \<^verbatim>\<open>Lab/PoW\<close>): the
  encoder and the decoder as the loops over the input that they are, with the pending bits \<^verbatim>\<open>ch\<close>, and
  the decoder once more on a memory in which input and output overlap, which is how it is called.
  They are shown to be the usual encodings by groups of three and four. An output length that is
  left unset is \<open>None\<close>.
\<close>

unbundle bit_operations_syntax

section \<open>The program\<close>

definition b64_t :: "8 word list" where
  "b64_t = map (\<lambda>c. word_of_nat (of_char c)) ''ABCDEFGHIJKLMNOPQRSTUVWXYZabcdefghijklmnopqrstuvwxyz0123456789+/''"

text \<open>The loop of \<^verbatim>\<open>b64encode\<close>: what is written, and \<^verbatim>\<open>ch\<close> and \<^verbatim>\<open>pad\<close> at the end.\<close>

fun enc_loop :: "nat \<Rightarrow> 8 word list \<Rightarrow> 8 word list \<Rightarrow> 8 word \<Rightarrow> nat \<Rightarrow> 8 word list \<times> 8 word \<times> nat" where
  "enc_loop i [] out ch pad = (out, ch, pad)"
| "enc_loop i (x # xs) out ch pad =
     (if i mod 3 = 0 then
        enc_loop (i + 1) xs (out @ [b64_t ! unat (drop_bit 2 x)]) (push_bit 4 (x AND 3)) 2
      else if i mod 3 = 1 then
        enc_loop (i + 1) xs (out @ [b64_t ! unat (ch OR drop_bit 4 x)]) (push_bit 2 (x AND 0xf)) 1
      else
        enc_loop (i + 1) xs (out @ [b64_t ! unat (ch OR drop_bit 6 x), b64_t ! unat (x AND 0x3f)]) ch 0)"

definition b64encode :: "8 word list \<Rightarrow> 8 word list \<times> nat option" where
  "b64encode xs =
     (if length xs = 0 then ([], None)
      else let (out, ch, pad) = enc_loop 0 xs [] 0 0;
               out1 = (if pad > 0 then out @ [b64_t ! unat ch] else out);
               out2 = out1 @ replicate pad 0x3d
           in (out2, Some (length out2)))"

definition b64decode_code :: "8 word \<Rightarrow> int" where
  "b64decode_code c =
     (let ch = uint c in
      if ch \<ge> 97 \<and> ch \<le> 122 then 26 + ch - 97
      else if ch \<ge> 65 \<and> ch \<le> 90 then ch - 65
      else if ch \<ge> 48 \<and> ch \<le> 57 then 52 + ch - 48
      else if ch = 43 then 62
      else if ch = 47 then 63
      else -1)"

text \<open>One character: what is written, and \<^verbatim>\<open>ch\<close> and \<^verbatim>\<open>flush\<close> afterwards.\<close>

definition dec_step :: "int \<Rightarrow> nat \<Rightarrow> 8 word \<Rightarrow> 8 word list \<times> 8 word \<times> bool" where
  "dec_step code coff ch =
     (if coff mod 4 = 0 then ([], word_of_int (push_bit 2 code), True)
      else if coff mod 4 = 1 then ([ch OR word_of_int (drop_bit 4 code)], word_of_int (push_bit 4 (code AND 0xf)), False)
      else if coff mod 4 = 2 then ([ch OR word_of_int (drop_bit 2 code)], word_of_int (push_bit 6 (code AND 0x3)), False)
      else ([ch OR word_of_int code], 0, False))"

fun dec_loop :: "8 word list \<Rightarrow> nat \<Rightarrow> 8 word \<Rightarrow> bool \<Rightarrow> 8 word list \<Rightarrow> 8 word list \<times> 8 word \<times> bool" where
  "dec_loop [] coff ch flush out = (out, ch, flush)"
| "dec_loop (x # xs) coff ch flush out =
     (if x = 0x3d then (out, ch, flush)
      else let code = b64decode_code x
           in if code < 0 then dec_loop xs coff ch flush out
              else let (w, ch', flush') = dec_step code coff ch in dec_loop xs (coff + 1) ch' flush' (out @ w))"

definition b64decode :: "8 word list \<Rightarrow> 8 word list \<times> nat option" where
  "b64decode xs =
     (if length xs = 0 then ([], None)
      else let (out, ch, flush) = dec_loop xs 0 0 True [];
               out1 = (if flush then out @ [ch] else out)
           in (out1, Some (length out1)))"

text \<open>
  The same call with \<^verbatim>\<open>in\<close> and \<^verbatim>\<open>output\<close> the same address \<open>a\<close> of a memory: every character is read
  after the writes before it. The result is the memory, with the terminator written, and the length.
\<close>

definition store :: "8 word list \<Rightarrow> nat \<Rightarrow> 8 word list \<Rightarrow> 8 word list option" where
  "store mem a w = (if a + length w \<le> length mem then Some (take a mem @ w @ drop (a + length w) mem) else None)"

function dec_mem :: "nat \<Rightarrow> nat \<Rightarrow> nat \<Rightarrow> 8 word list \<Rightarrow> nat \<Rightarrow> nat \<Rightarrow> 8 word \<Rightarrow> bool \<Rightarrow>
    (8 word list \<times> nat \<times> 8 word \<times> bool) option" where
  "dec_mem a n i mem p coff ch flush =
     (if i < n then
        if a + i \<ge> length mem then None
        else let x = mem ! (a + i)
             in if x = 0x3d then Some (mem, p, ch, flush)
                else let code = b64decode_code x
                     in if code < 0 then dec_mem a n (i + 1) mem p coff ch flush
                        else let (w, ch', flush') = dec_step code coff ch
                             in case store mem (a + p) w of None \<Rightarrow> None
                                | Some mem' \<Rightarrow> dec_mem a n (i + 1) mem' (p + length w) (coff + 1) ch' flush'
      else Some (mem, p, ch, flush))"
  by pat_completeness auto
termination by (relation "measure (\<lambda>(a, n, i, mem, p, coff, ch, flush). n - i)") auto

declare dec_mem.simps [simp del]

definition b64decode_inplace :: "nat \<Rightarrow> nat \<Rightarrow> 8 word list \<Rightarrow> (8 word list \<times> nat option) option" where
  "b64decode_inplace a n mem =
     (if n = 0 then map_option (\<lambda>m. (m, None)) (store mem a [0])
      else case dec_mem a n 0 mem 0 0 0 True of None \<Rightarrow> None
           | Some (mem1, p, ch, flush) \<Rightarrow>
               let w = (if flush then [ch] else [])
               in map_option (\<lambda>m. (m, Some (p + length w))) (store mem1 (a + p) (w @ [0])))"

section \<open>Groups of three bytes and of four codes\<close>

fun enc_ref :: "8 word list \<Rightarrow> 8 word list" where
  "enc_ref [] = []"
| "enc_ref [x] = [drop_bit 2 x, push_bit 4 (x AND 3)]"
| "enc_ref [x, y] = [drop_bit 2 x, push_bit 4 (x AND 3) OR drop_bit 4 y, push_bit 2 (y AND 0xf)]"
| "enc_ref (x # y # z # r) =
     [drop_bit 2 x, push_bit 4 (x AND 3) OR drop_bit 4 y, push_bit 2 (y AND 0xf) OR drop_bit 6 z, z AND 0x3f] @ enc_ref r"

definition enc_pad :: "nat \<Rightarrow> nat" where
  "enc_pad n = (2 * n) mod 3"

fun dec_ref :: "8 word list \<Rightarrow> 8 word list" where
  "dec_ref (a # b # c # d # r) =
     [push_bit 2 a OR drop_bit 4 b, push_bit 4 (b AND 0xf) OR drop_bit 2 c, push_bit 6 (c AND 3) OR d] @ dec_ref r"
| "dec_ref [a, b, c] = [push_bit 2 a OR drop_bit 4 b, push_bit 4 (b AND 0xf) OR drop_bit 2 c]"
| "dec_ref [a, b] = [push_bit 2 a OR drop_bit 4 b]"
| "dec_ref [a] = [push_bit 2 a]"
| "dec_ref [] = []"

section \<open>The encoder\<close>

definition enc_finish :: "8 word list \<times> 8 word \<times> nat \<Rightarrow> 8 word list \<times> nat" where
  "enc_finish r = (case r of (out, ch, pad) \<Rightarrow> (if pad > 0 then out @ [b64_t ! unat ch] else out, pad))"

lemma enc_loop_ref:
  "i mod 3 = 0 \<Longrightarrow>
    enc_finish (enc_loop i xs out ch 0) = (out @ map (\<lambda>s. b64_t ! unat s) (enc_ref xs), enc_pad (length xs))"
proof (induction xs arbitrary: i out ch rule: enc_ref.induct)
  case (4 x y z r)
  have m: "(i + 1) mod 3 = 1" "(i + 1 + 1) mod 3 = 2" "(i + 1 + 1 + 1) mod 3 = 0"
    using 4(2) by presburger+
  have "enc_pad (length (x # y # z # r)) = enc_pad (length r)"
    by (simp add: enc_pad_def) presburger
  then show ?case using 4(1) [OF m(3)] 4(2) m by simp
next
  case (3 x y)
  have m: "(i + 1) mod 3 = 1" using 3 by presburger
  then show ?case using 3 by (simp add: enc_pad_def enc_finish_def)
qed (simp_all add: enc_pad_def enc_finish_def)

lemma b64encode_ref:
  assumes "xs \<noteq> []"
  shows "b64encode xs = (let out = map (\<lambda>s. b64_t ! unat s) (enc_ref xs) @ replicate (enc_pad (length xs)) 0x3d in (out, Some (length out)))"
proof -
  have "b64encode xs = (let (out, pad) = enc_finish (enc_loop 0 xs [] 0 0); out2 = out @ replicate pad 0x3d in (out2, Some (length out2)))"
    using assms by (simp add: b64encode_def enc_finish_def Let_def split: prod.splits)
  then show ?thesis by (simp add: enc_loop_ref)
qed

lemma length_enc_ref: "length (enc_ref xs) = (4 * length xs + 2) div 3"
  by (induction xs rule: enc_ref.induct) simp_all

lemma length_b64encode:
  "xs \<noteq> [] \<Longrightarrow> length (fst (b64encode xs)) = (4 * length xs + 2) div 3 + enc_pad (length xs)"
  by (simp add: b64encode_ref Let_def length_enc_ref)

section \<open>The decoder\<close>

definition is_code :: "int \<Rightarrow> bool" where
  "is_code c \<longleftrightarrow> 0 \<le> c \<and> c < 64"

lemma sextets:
  fixes x :: "8 word"
  shows "take_bit 6 (drop_bit 2 x) = drop_bit 2 x" and "take_bit 6 (drop_bit 4 x) = drop_bit 4 x"
    and "take_bit 6 (drop_bit 6 x) = drop_bit 6 x" and "take_bit 6 (push_bit 4 (x AND 3)) = push_bit 4 (x AND 3)"
    and "take_bit 6 (push_bit 2 (x AND 0xf)) = push_bit 2 (x AND 0xf)" and "take_bit 6 (x AND 0x3f) = x AND 0x3f"
proof -
  have m: "(3 :: 8 word) = mask 2" "(0xf :: 8 word) = mask 4" "(0x3f :: 8 word) = mask 6"
    by (simp_all add: mask_eq_exp_minus_1)
  have lt: "bit x k \<Longrightarrow> k < 8" for k using bit_imp_le_length [of x k] by simp
  show "take_bit 6 (drop_bit 2 x) = drop_bit 2 x" and "take_bit 6 (drop_bit 4 x) = drop_bit 4 x"
    and "take_bit 6 (drop_bit 6 x) = drop_bit 6 x"
    by (rule bit_word_eqI; use lt in \<open>force simp: bit_simps\<close>)+
  show "take_bit 6 (push_bit 4 (x AND 3)) = push_bit 4 (x AND 3)"
    and "take_bit 6 (push_bit 2 (x AND 0xf)) = push_bit 2 (x AND 0xf)" and "take_bit 6 (x AND 0x3f) = x AND 0x3f"
    unfolding m by (rule bit_word_eqI; auto simp: bit_simps)+
qed

lemma enc_ref_less: "s \<in> set (enc_ref xs) \<Longrightarrow> unat s < 64"
proof -
  have top: "s \<in> set (enc_ref xs) \<Longrightarrow> take_bit 6 s = s" for s
    by (induction xs rule: enc_ref.induct)
      (auto simp only: enc_ref.simps list.set append.simps take_bit_or sextets insert_iff empty_iff)
  assume "s \<in> set (enc_ref xs)"
  then have "unat s = take_bit 6 (unat s)" using top by (metis unsigned_take_bit_eq)
  then show ?thesis using take_bit_nat_less_exp [of 6 "unat s"] by simp
qed

lemma b64decode_code_range: "b64decode_code x < 64"
  by (auto simp: b64decode_code_def Let_def)

lemma b64_t_codes: "map b64decode_code b64_t = map int [0..<64]" and b64_t_pad: "0x3d \<notin> set b64_t"
  by (simp_all add: b64_t_def b64decode_code_def upt_rec)

lemma b64_t_code: "k < 64 \<Longrightarrow> b64decode_code (b64_t ! k) = int k \<and> b64_t ! k \<noteq> 0x3d"
proof -
  have len: "length b64_t = 64" by (simp add: b64_t_def)
  assume "k < 64"
  moreover have "map b64decode_code b64_t ! k = map int [0..<64] ! k" by (simp only: b64_t_codes)
  moreover have "b64_t ! k \<in> set b64_t" using \<open>k < 64\<close> len by simp
  ultimately show ?thesis using len b64_t_pad by (metis add_0 length_map length_upt diff_zero nth_map nth_upt)
qed

lemma word_push: "word_of_int (push_bit n c) = push_bit n (word_of_int c :: 8 word)"
  by (rule bit_word_eqI) (auto simp: bit_simps)

lemma word_and: "word_of_int (c AND m) = (word_of_int c :: 8 word) AND word_of_int m"
  by (rule bit_word_eqI) (auto simp: bit_simps)

lemma word_drop:
  assumes "is_code c"
  shows "word_of_int (drop_bit n c) = drop_bit n (word_of_int c :: 8 word)"
proof -
  have "take_bit 8 c = c" using assms by (simp add: is_code_def take_bit_eq_mod)
  then have "bit c k \<Longrightarrow> k < 8" for k by (metis bit_take_bit_iff)
  then show ?thesis by (intro bit_word_eqI) (auto simp: bit_simps)
qed

fun dec_codes :: "int list \<Rightarrow> nat \<Rightarrow> 8 word \<Rightarrow> bool \<Rightarrow> 8 word list \<Rightarrow> 8 word list \<times> 8 word \<times> bool" where
  "dec_codes [] coff ch flush out = (out, ch, flush)"
| "dec_codes (c # cs) coff ch flush out =
     (let (w, ch', flush') = dec_step c coff ch in dec_codes cs (coff + 1) ch' flush' (out @ w))"

definition codes :: "8 word list \<Rightarrow> int list" where
  "codes ys = filter (\<lambda>c. 0 \<le> c) (map b64decode_code (takeWhile (\<lambda>y. y \<noteq> 0x3d) ys))"

lemma dec_loop_codes: "dec_loop ys coff ch flush out = dec_codes (codes ys) coff ch flush out"
  by (induction ys coff ch flush out rule: dec_loop.induct) (auto simp: codes_def Let_def split: prod.splits)

definition dec_finish :: "8 word list \<times> 8 word \<times> bool \<Rightarrow> 8 word list" where
  "dec_finish r = (case r of (out, ch, flush) \<Rightarrow> if flush then out @ [ch] else out)"

fun chop4 :: "'a list \<Rightarrow> unit" where
  "chop4 (a # b # c # d # r) = chop4 r"
| "chop4 xs = ()"

lemma dec_step_code:
  assumes "is_code c"
  shows "dec_step c coff ch = (let w = word_of_int c :: 8 word in
     if coff mod 4 = 0 then ([], push_bit 2 w, True)
     else if coff mod 4 = 1 then ([ch OR drop_bit 4 w], push_bit 4 (w AND 0xf), False)
     else if coff mod 4 = 2 then ([ch OR drop_bit 2 w], push_bit 6 (w AND 3), False)
     else ([ch OR w], 0, False))"
  using assms by (simp only: dec_step_def word_push word_and word_drop Let_def) simp

lemma dec_codes_ref:
  assumes "\<forall>c\<in>set cs. is_code c" and "coff mod 4 = 0"
  shows "dec_finish (dec_codes cs coff 0 fl out) =
    (if cs = [] \<and> fl then out @ [0] else out @ dec_ref (map word_of_int cs))"
  using assms
proof (induction cs arbitrary: coff fl out rule: chop4.induct [case_names quad nil one two three])
  case (quad a b c d r)
  have m: "Suc coff mod 4 = 1" "Suc (Suc coff) mod 4 = 2" "Suc (Suc (Suc coff)) mod 4 = 3"
      "Suc (Suc (Suc (Suc coff))) mod 4 = 0"
    using quad(3) by presburger+
  then show ?case using quad by (simp add: dec_step_code Let_def)
next
  case one then show ?case by (simp add: dec_finish_def dec_step_code Let_def)
next
  case (two a b)
  then have "Suc coff mod 4 = 1" by presburger
  then show ?case using two by (simp add: dec_finish_def dec_step_code Let_def)
next
  case (three a b c)
  then have "Suc coff mod 4 = 1" "Suc (Suc coff) mod 4 = 2" by presburger+
  then show ?case using three by (simp add: dec_finish_def dec_step_code Let_def)
qed (simp add: dec_finish_def)

lemma byte_eqI:
  assumes "\<forall>n\<in>{0, 1, 2, 3, 4, 5, 6, 7}. bit v n \<longleftrightarrow> bit (w :: 8 word) n"
  shows "v = w"
proof (rule bit_word_eqI)
  fix n
  assume "n < LENGTH(8)"
  then have "n \<in> {0, 1, 2, 3, 4, 5, 6, 7}" by (simp; linarith)
  then show "bit v n \<longleftrightarrow> bit w n" using assms by blast
qed

lemma masks: "(3 :: 8 word) = mask 2" "(0xf :: 8 word) = mask 4" "(0x3f :: 8 word) = mask 6"
  by (simp_all add: mask_eq_exp_minus_1)

lemma join:
  fixes x y z :: "8 word"
  shows "push_bit 2 (drop_bit 2 x) OR drop_bit 4 (push_bit 4 (x AND 3) OR drop_bit 4 y) = x"
    and "push_bit 4 ((push_bit 4 (x AND 3) OR drop_bit 4 y) AND 0xf) OR drop_bit 2 (push_bit 2 (y AND 0xf) OR drop_bit 6 z) = y"
    and "push_bit 6 ((push_bit 2 (y AND 0xf) OR drop_bit 6 z) AND 3) OR (z AND 0x3f) = z"
    and "push_bit 2 (drop_bit 2 x) OR drop_bit 4 (push_bit 4 (x AND 3)) = x"
    and "push_bit 4 ((push_bit 4 (x AND 3) OR drop_bit 4 y) AND 0xf) OR drop_bit 2 (push_bit 2 (y AND 0xf)) = y"
proof -
  have lt: "\<not> bit w n" if "8 \<le> n" for w :: "8 word" and n using bit_imp_le_length [of w n] that by auto
  note bits = bit_simps lt masks numeral_2_eq_2 [symmetric] numeral_3_eq_3 [symmetric]
  show "push_bit 2 (drop_bit 2 x) OR drop_bit 4 (push_bit 4 (x AND 3) OR drop_bit 4 y) = x"
    by (rule byte_eqI) (simp add: bits)
  show "push_bit 4 ((push_bit 4 (x AND 3) OR drop_bit 4 y) AND 0xf) OR drop_bit 2 (push_bit 2 (y AND 0xf) OR drop_bit 6 z) = y"
    by (rule byte_eqI) (simp add: bits)
  show "push_bit 6 ((push_bit 2 (y AND 0xf) OR drop_bit 6 z) AND 3) OR (z AND 0x3f) = z"
    by (rule byte_eqI) (simp add: bits)
  show "push_bit 2 (drop_bit 2 x) OR drop_bit 4 (push_bit 4 (x AND 3)) = x"
    by (rule byte_eqI) (simp add: bits)
  show "push_bit 4 ((push_bit 4 (x AND 3) OR drop_bit 4 y) AND 0xf) OR drop_bit 2 (push_bit 2 (y AND 0xf)) = y"
    by (rule byte_eqI) (simp add: bits)
qed

lemma dec_enc_ref: "dec_ref (enc_ref xs) = xs"
proof (induction xs rule: enc_ref.induct)
  case (4 x y z r)
  then show ?case by (simp only: enc_ref.simps append.simps dec_ref.simps join)
qed (simp_all only: enc_ref.simps dec_ref.simps join)

lemma codes_filter: "codes (filter (\<lambda>y. 0 \<le> b64decode_code y \<or> y = 0x3d) ys) = codes ys"
  by (induction ys) (auto simp: codes_def)

lemma codes_enc: "codes (map (\<lambda>s. b64_t ! unat s) (enc_ref xs) @ replicate n 0x3d) = map uint (enc_ref xs)"
proof -
  have "codes (map (\<lambda>s. b64_t ! unat s) ss @ replicate n 0x3d) = map uint ss"
    if "\<forall>s\<in>set ss. unat s < 64" for ss :: "8 word list"
    using that
  proof (induction ss)
    case Nil
    then show ?case by (cases n) (simp_all add: codes_def)
  next
    case (Cons s ss)
    then have "b64decode_code (b64_t ! unat s) = uint s" "b64_t ! unat s \<noteq> 0x3d"
      using b64_t_code [of "unat s"] by simp_all
    then show ?case using Cons by (simp add: codes_def)
  qed
  then show ?thesis using enc_ref_less by blast
qed

lemma b64decode_ref:
  assumes "ys \<noteq> []"
  shows "b64decode ys = (let out = (if codes ys = [] then [0] else dec_ref (map word_of_int (codes ys))) in (out, Some (length out)))"
proof -
  have "\<forall>c\<in>set (codes ys). is_code c" using b64decode_code_range by (auto simp: codes_def is_code_def)
  then have "dec_finish (dec_loop ys 0 0 True []) = (if codes ys = [] then [0] else dec_ref (map word_of_int (codes ys)))"
    by (simp add: dec_loop_codes dec_codes_ref)
  moreover have "b64decode ys = (let out = dec_finish (dec_loop ys 0 0 True []) in (out, Some (length out)))"
    using assms by (simp add: b64decode_def dec_finish_def Let_def split: prod.splits)
  ultimately show ?thesis by simp
qed


lemma decode_encode:
  assumes "xs \<noteq> []" and "filter (\<lambda>y. 0 \<le> b64decode_code y \<or> y = 0x3d) ys = fst (b64encode xs)"
  shows "b64decode ys = (xs, Some (length xs))"
proof -
  have "codes ys = codes (fst (b64encode xs))" using assms(2) codes_filter [of ys] by simp
  also have "\<dots> = map uint (enc_ref xs)" using assms(1) by (simp add: b64encode_ref Let_def codes_enc)
  finally have c: "codes ys = map uint (enc_ref xs)" .
  moreover have "enc_ref xs \<noteq> []" using assms(1) by (metis dec_enc_ref dec_ref.simps(5))
  moreover have "ys \<noteq> []" using calculation by (auto simp: codes_def)
  moreover have "map word_of_int (map uint (enc_ref xs)) = enc_ref xs" by (simp add: comp_def)
  ultimately show ?thesis by (simp add: b64decode_ref dec_enc_ref)
qed

text \<open>
  C24. Decoding gives back what was encoded, whatever characters outside the alphabet (line breaks,
  say) have got into the text, and wherever.
\<close>

theorem base64_roundtrip:
  assumes "xs \<noteq> []" and "filter (\<lambda>y. 0 \<le> b64decode_code y \<or> y = 0x3d) ys = fst (b64encode xs)"
  shows "b64decode ys = (xs, Some (length xs))"
  by (rule decode_encode [OF assms])

section \<open>Decoding in place\<close>

lemma dec_loop_out: "dec_loop ys coff ch fl out = (case dec_loop ys coff ch fl [] of (o', c, f) \<Rightarrow> (out @ o', c, f))"
proof (induction ys arbitrary: coff ch fl out)
  case (Cons y ys)
  obtain w ch' fl' where st: "dec_step (b64decode_code y) coff ch = (w, ch', fl')" by (metis prod_cases3)
  show ?case using Cons.IH [of "coff + 1" ch' fl' w] Cons.IH [of "coff + 1" ch' fl' "out @ w"] Cons.IH [of coff ch fl out]
    by (simp add: st Let_def split: prod.splits)
qed simp

lemma dec_step_len: "dec_step code coff ch = (w, ch', fl') \<Longrightarrow> length w + of_bool fl' = 1"
  by (auto simp: dec_step_def split: if_splits)

lemma dec_mem_loop:
  assumes "i \<le> n" and "p + of_bool fl \<le> max i 1" and "p \<le> i" and "a + n < length mem"
    and "dec_loop (take (n - i) (drop (a + i) mem)) coff ch fl [] = (w, ch', fl')"
  shows "dec_mem a n i mem p coff ch fl = Some (take (a + p) mem @ w @ drop (a + p + length w) mem, p + length w, ch', fl')
    \<and> p + length w \<le> n \<and> p + length w + of_bool fl' \<le> max n 1"
  using assms
proof (induction a n i mem p coff ch fl arbitrary: w rule: dec_mem.induct)
  case (1 a n i mem p coff ch fl)
  show ?case
  proof (cases "i < n")
    case False
    then show ?thesis using 1 by (subst dec_mem.simps) (auto simp: max_def)
  next
    case True
    define x where "x = mem ! (a + i)"
    have x: "take (n - i) (drop (a + i) mem) = x # take (n - (i + 1)) (drop (a + (i + 1)) mem)"
      using True 1(6) by (simp add: x_def Cons_nth_drop_Suc [symmetric] take_Cons' )
    show ?thesis
    proof (cases "x = 0x3d \<or> b64decode_code x < 0")
      case True
      then show ?thesis
        using 1(3-) \<open>i < n\<close> 1(1) [OF \<open>i < n\<close> _ x_def] x
        by (subst dec_mem.simps) (auto simp: Let_def x_def [symmetric] max_def)
    next
      case False
      obtain v ch1 fl1 where st: "dec_step (b64decode_code x) coff ch = (v, ch1, fl1)" by (metis prod_cases3)
      note v = dec_step_len [OF st]
      define mem' where "mem' = take (a + p) mem @ v @ drop (a + p + length v) mem"
      have le: "p + length v \<le> i + 1" using 1(5) v by simp
      have s: "store mem (a + p) v = Some mem'" using 1(6) le \<open>i < n\<close> by (simp add: store_def mem'_def)
      have len: "length mem' = length mem" using 1(6) le \<open>i < n\<close> by (simp add: mem'_def)
      have rest: "drop (a + (i + 1)) mem' = drop (a + (i + 1)) mem"
        using le 1(6) \<open>i < n\<close> by (simp add: mem'_def ac_simps)
      obtain w1 where w1: "dec_loop (take (n - (i + 1)) (drop (a + (i + 1)) mem)) (coff + 1) ch1 fl1 [] = (w1, ch', fl')" "w = v @ w1"
        using 1(7) False unfolding x
        by (simp add: st Let_def) (subst (asm) dec_loop_out, auto split: prod.splits)
      have "dec_mem a n (i + 1) mem' (p + length v) (coff + 1) ch1 fl1
          = Some (take (a + (p + length v)) mem' @ w1 @ drop (a + (p + length v) + length w1) mem', p + length v + length w1, ch', fl')
        \<and> p + length v + length w1 \<le> n \<and> p + length v + length w1 + of_bool fl' \<le> max n 1"
        using 1(6) False \<open>i < n\<close> 1(5) v le w1 len rest
        by (intro 1(2) [OF \<open>i < n\<close> _ x_def _ refl _ st [symmetric]]) (simp_all add: s)
      moreover have "take (a + (p + length v)) mem' = take (a + p) mem @ v"
        using 1(6) le \<open>i < n\<close> by (simp add: mem'_def)
      moreover have "drop (a + (p + length v) + length w1) mem' = drop (a + p + length w) mem"
        using 1(6) le \<open>i < n\<close> by (simp add: mem'_def w1(2) ac_simps)
      ultimately show ?thesis
        using False \<open>i < n\<close> 1(6) w1(2) by (subst dec_mem.simps) (simp add: x_def [symmetric] Let_def st s add.assoc)
    qed
  qed
qed

lemma decode_inplace:
  assumes "a + n < length mem"
  shows "b64decode_inplace a n mem = (case b64decode (take n (drop a mem)) of (out, len) \<Rightarrow>
      Some (take a mem @ out @ 0 # drop (a + length out + 1) mem, len)) \<and>
    length (fst (b64decode (take n (drop a mem)))) \<le> n"
proof (cases "n = 0")
  case True
  then show ?thesis using assms by (simp add: b64decode_inplace_def b64decode_def store_def)
next
  case False
  obtain w ch fl where l: "dec_loop (take n (drop a mem)) 0 0 True [] = (w, ch, fl)" by (metis prod_cases3)
  have "dec_mem a n 0 mem 0 0 0 True = Some (take a mem @ w @ drop (a + length w) mem, length w, ch, fl)
    \<and> length w \<le> n \<and> length w + of_bool fl \<le> max n 1"
    using dec_mem_loop [of 0 n 0 True a mem 0 0 w ch fl] assms l by simp
  moreover have "take n (drop a mem) \<noteq> []" using False assms by simp
  ultimately show ?thesis using False assms l
    by (auto simp: b64decode_inplace_def b64decode_def store_def)
qed

text \<open>
  The decoder may be called with the output over the input: on a memory in which both start at
  \<open>a\<close>, it never overwrites a character it still has to read; with the terminator it stays within
  the \<open>n + 1\<close> bytes of the string, and it computes what it computes with separate buffers.
\<close>

theorem b64decode_inplace_correct:
  assumes "a + n < length mem"
  shows "b64decode_inplace a n mem = (case b64decode (take n (drop a mem)) of (out, len) \<Rightarrow>
      Some (take a mem @ out @ 0 # drop (a + length out + 1) mem, len)) \<and>
    length (fst (b64decode (take n (drop a mem)))) \<le> n"
  by (rule decode_inplace [OF assms])

section \<open>The properties on concrete inputs\<close>

lemma base64_roundtrip_witness: "b64decode [81, 85, 10, 73, 61] = ([65, 66], Some 2)"
proof -
  have enc: "b64encode [65, 66] = ([81, 85, 73, 61], Some 4)" by (simp add: b64encode_def b64_t_def)
  have "filter (\<lambda>y. 0 \<le> b64decode_code y \<or> y = 0x3d) [81, 85, 10, 73, 61] = fst (b64encode [65, 66])"
    by (simp add: enc b64decode_code_def)
  then show ?thesis using base64_roundtrip [of "[65, 66]" "[81, 85, 10, 73, 61]"] by simp
qed

lemma b64decode_inplace_correct_witness:
  "b64decode_inplace 1 4 [7, 81, 85, 73, 61, 0] = Some ([7, 65, 66, 0, 61, 0], Some 2)"
proof -
  have "b64decode (take 4 (drop 1 [7, 81, 85, 73, 61, 0])) = ([65, 66], Some 2)"
    by (simp add: b64decode_def b64decode_code_def dec_step_def)
  then show ?thesis using b64decode_inplace_correct [of 1 4 "[7, 81, 85, 73, 61, 0]"] by simp
qed

end
