(* ===== verification/Crawler.thy ===== *)
theory Crawler
  imports Base64
begin

text \<open>
  The web checker of lab 7 (\<^verbatim>\<open>Lab/7/Web Crawler/webcrawler.cpp\<close>): the main thread queues jobs, two
  workers take them and do them. The workers share the memory behind \<^verbatim>\<open>gethostbyname2\<close>, so a job
  is modelled by the steps at which it touches shared memory: the resolver's call that writes the
  address, every test of the address, every attempt to connect. What holds a mutex is one step. The
  resolver is a parameter, and what the network answers is part of a step's label. Addresses are in
  host byte order (the masks and the values compared go through the same \<^verbatim>\<open>htonl\<close> as the address).
\<close>

unbundle bit_operations_syntax

section \<open>Jobs\<close>

type_synonym addr = "32 word"

text \<open>\<^verbatim>\<open>strtol\<close> with base 0: white space, a sign, a prefix for the base, digits.\<close>

definition is_space :: "char \<Rightarrow> bool" where
  "is_space c \<longleftrightarrow> (let n = of_char c :: nat in n = 32 \<or> (9 \<le> n \<and> n \<le> 13))"

definition digit_val :: "char \<Rightarrow> nat" where
  "digit_val c = (let n = of_char c :: nat
     in if 48 \<le> n \<and> n \<le> 57 then n - 48 else if 97 \<le> n \<and> n \<le> 122 then n - 87
        else if 65 \<le> n \<and> n \<le> 90 then n - 55 else 36)"

definition digits_val :: "nat \<Rightarrow> string \<Rightarrow> nat" where
  "digits_val base s = foldl (\<lambda>v c. v * base + digit_val c) 0 (takeWhile (\<lambda>c. digit_val c < base) s)"

definition strtol0 :: "string \<Rightarrow> int" where
  "strtol0 s =
     (let s1 = dropWhile is_space s;
          neg = (s1 \<noteq> [] \<and> hd s1 = CHR ''-'');
          s2 = (if s1 \<noteq> [] \<and> (hd s1 = CHR ''-'' \<or> hd s1 = CHR ''+'') then tl s1 else s1);
          hex = (length s2 > 2 \<and> s2 ! 0 = CHR ''0'' \<and> (s2 ! 1 = CHR ''x'' \<or> s2 ! 1 = CHR ''X'') \<and> digit_val (s2 ! 2) < 16);
          v = (if hex then digits_val 16 (drop 2 s2)
               else if s2 \<noteq> [] \<and> hd s2 = CHR ''0'' then digits_val 8 s2 else digits_val 10 s2);
          r = (if neg then - int v else int v)
      in max (- (2 ^ 63)) (min (2 ^ 63 - 1) r))"

text \<open>The split at the first slash; \<open>None\<close> is the message about the format.\<close>

definition split_server :: "string \<Rightarrow> (string \<times> string) option" where
  "split_server server =
     (let host = takeWhile (\<lambda>c. c \<noteq> CHR ''/'') server; slash = length host
      in if slash = length server \<or> slash = 0 \<or> slash + 1 = length server then None
         else Some (host, drop (slash + 1) server))"

text \<open>The tests of the address, in order.\<close>

definition forbidden :: "nat \<Rightarrow> addr \<Rightarrow> bool" where
  "forbidden k a =
     (if k = 0 then a AND 0xff000000 = 0x0a000000
      else if k = 1 then a AND 0xff000000 = 0x7f000000
      else if k = 2 then a AND 0xfff00000 = 0xac100000
      else if k = 3 then a AND 0xffff0000 = 0xc0a80000
      else a = 0)"

definition dotted :: "addr \<Rightarrow> string" where
  "dotted a = show_nat (unat (drop_bit 24 a)) @ ''.'' @ show_nat (unat (drop_bit 16 a AND 0xff)) @ ''.'' @
     show_nat (unat (drop_bit 8 a AND 0xff)) @ ''.'' @ show_nat (unat (a AND 0xff))"

text \<open>The reply, made printable.\<close>

definition printable :: "char \<Rightarrow> char" where
  "printable c = (let n = of_char c :: nat in if is_space c then CHR '' '' else if 32 \<le> n \<and> n \<le> 126 then c else CHR ''.'')"

section \<open>Workers\<close>

text \<open>Where a worker is: at \<^verbatim>\<open>wait\<close>, with a job, before a test of the address, before an attempt, gone.\<close>

datatype phase = Wait | Took string | Testing string "16 word" nat | Attempt string "16 word" nat | Gone

datatype outcome = Fails string | Replies string

datatype label = Add_job string | Work nat outcome

record Crawl =
  jobs :: "string list"
  jcount :: nat
  hostbuf :: addr  \<comment> \<open>what \<^verbatim>\<open>ent->h_addr_list[0]\<close> points to, in every worker\<close>
  wstatus :: "string list"
  phases :: "phase list"
  exitd :: bool
  conns :: "(nat \<times> addr \<times> 16 word) list"  \<comment> \<open>history: the connections attempted\<close>
  taken :: "string list"  \<comment> \<open>history: the jobs taken\<close>

definition WORKERS :: nat where
  "WORKERS = 2"

definition MAX_ATTEMPTS :: nat where
  "MAX_ATTEMPTS = 16"

definition crawl_init :: Crawl where
  "crawl_init = \<lparr>jobs = [], jcount = 0, hostbuf = 0, wstatus = replicate 2 [], phases = replicate WORKERS Wait,
     exitd = False, conns = [], taken = []\<rparr>"

definition add_job :: "string \<Rightarrow> Crawl \<Rightarrow> Crawl" where
  "add_job s st = st\<lparr>jobs := jobs st @ [s], jcount := jcount st + 1, exitd := (jcount st + 1 > MAX_ATTEMPTS)\<rparr>"

definition update_status :: "nat \<Rightarrow> string \<Rightarrow> string \<Rightarrow> Crawl \<Rightarrow> Crawl" where
  "update_status w pfx msg st = st\<lparr>wstatus := (wstatus st)[w := ''['' @ pfx @ ''] '' @ msg]\<rparr>"

definition goto_phase :: "nat \<Rightarrow> phase \<Rightarrow> Crawl \<Rightarrow> Crawl" where
  "goto_phase w ph st = st\<lparr>phases := (phases st)[w := ph]\<rparr>"

text \<open>\<^verbatim>\<open>worker\<close> at the top of its loop: it takes the first job, or waits.\<close>

definition take_job :: "nat \<Rightarrow> Crawl \<Rightarrow> Crawl" where
  "take_job w st = (case jobs st of [] \<Rightarrow> st
     | s # js \<Rightarrow> goto_phase w (if s = [] then Gone else Took s) (st\<lparr>jobs := js, taken := taken st @ [s]\<rparr>))"

text \<open>\<^verbatim>\<open>do_job\<close> up to the call of the resolver, one test of the address, and one attempt.\<close>

definition job_resolve :: "(string \<Rightarrow> addr option) \<Rightarrow> nat \<Rightarrow> string \<Rightarrow> Crawl \<Rightarrow> Crawl" where
  "job_resolve resolver w server st =
     (case split_server server of
        None \<Rightarrow> goto_phase w Wait (update_status w server ''Incorrect server/port format.'' st)
      | Some (host, port) \<Rightarrow>
          case resolver host of
            None \<Rightarrow> goto_phase w Wait (update_status w server ''Resolve failed.'' st)
          | Some a \<Rightarrow> goto_phase w (Testing server (word_of_int (strtol0 port)) 0) (st\<lparr>hostbuf := a\<rparr>))"

definition job_test :: "nat \<Rightarrow> string \<Rightarrow> 16 word \<Rightarrow> nat \<Rightarrow> Crawl \<Rightarrow> Crawl" where
  "job_test w server port k st =
     (if forbidden k (hostbuf st)
      then goto_phase w Wait (update_status w server
             (if k < 4 then ''Get from local or private address is not allowed.'' else ''Get from * is not allowed.'') st)
      else goto_phase w (if k + 1 < 5 then Testing server port (k + 1) else Attempt server port 0) st)"

definition job_attempt :: "nat \<Rightarrow> string \<Rightarrow> 16 word \<Rightarrow> nat \<Rightarrow> outcome \<Rightarrow> Crawl \<Rightarrow> Crawl" where
  "job_attempt w server port i out st =
     (let a = hostbuf st;
          st1 = update_status w server
            (''Connecting to '' @ dotted a @ '':'' @ show_nat (unat port) @ '' ... ('' @ show_nat (i + 1) @ '')'') st;
          st2 = st1\<lparr>conns := conns st1 @ [(w, a, port)]\<rparr>
      in case out of
           Fails err \<Rightarrow> goto_phase w (if i + 1 < 2 then Attempt server port (i + 1) else Wait) (update_status w server err st2)
         | Replies r \<Rightarrow> goto_phase w Wait (update_status w server (map printable r) st2))"

definition work :: "(string \<Rightarrow> addr option) \<Rightarrow> nat \<Rightarrow> outcome \<Rightarrow> Crawl \<Rightarrow> Crawl" where
  "work resolver w out st =
     (if w < WORKERS then
        case phases st ! w of
          Wait \<Rightarrow> take_job w st
        | Took s \<Rightarrow> job_resolve resolver w s st
        | Testing s p k \<Rightarrow> job_test w s p k st
        | Attempt s p i \<Rightarrow> job_attempt w s p i out st
        | Gone \<Rightarrow> st
      else st)"

definition crawl_step :: "(string \<Rightarrow> addr option) \<Rightarrow> label \<Rightarrow> Crawl \<Rightarrow> Crawl" where
  "crawl_step resolver l st = (if exitd st then st
     else case l of Add_job s \<Rightarrow> add_job s st | Work w out \<Rightarrow> work resolver w out st)"

definition crawl_run :: "(string \<Rightarrow> addr option) \<Rightarrow> label list \<Rightarrow> Crawl \<Rightarrow> Crawl" where
  "crawl_run resolver ls st = fold (crawl_step resolver) ls st"

section \<open>The main thread\<close>

definition check_queue :: "Crawl \<Rightarrow> string" where
  "check_queue st =
     (if length (jobs st) = 0 then ''** No pending jobs.'' @ [CHR 0x0A]
      else ''==== Pending Jobs ===='' @ [CHR 0x0A] @
        concat (map (\<lambda>(i, s). ''  #'' @ pad_right 3 (show_nat (i + 1)) @ '' server = '' @ s @ [CHR 0x0A]) (enumerate 0 (jobs st)))
        @ ''======================'' @ [CHR 0x0A])"

definition view_worker :: "Crawl \<Rightarrow> string" where
  "view_worker st =
     (let show = (\<lambda>s. if s = [] then ''<idle>'' else s)
      in ''==== Worker Status ===='' @ [CHR 0x0A] @ ''Worker #1: '' @ show (wstatus st ! 0) @ [CHR 0x0A] @
         ''Worker #2: '' @ show (wstatus st ! 1) @ [CHR 0x0A] @ ''======================='' @ [CHR 0x0A])"

text \<open>A choice of the menu (\<open>line\<close> is what is typed after \<open>r\<close>): the label it causes, and the output.\<close>

definition menu_choice :: "char \<Rightarrow> string \<Rightarrow> Crawl \<Rightarrow> string option \<times> string" where
  "menu_choice c l st =
     (if c = CHR ''r'' then
        (case strtok_all ('' '' @ [CHR 0x09, CHR 0x0A, CHR 0x0D]) l of
           [] \<Rightarrow> (None, ''** Bad user input!'' @ [CHR 0x0A])
         | t # _ \<Rightarrow> (Some t, ''** New request added: '' @ t @ [CHR 0x0A]))
      else if c = CHR ''c'' then (None, check_queue st)
      else if c = CHR ''v'' then (None, view_worker st)
      else (None, ''** Unknown command. Please don't hack me! Q_Q'' @ [CHR 0x0A]))"

section \<open>The queue\<close>

text \<open>The jobs added in a run, up to the exit.\<close>

definition added :: "label list \<Rightarrow> string list" where
  "added ls = concat (map (\<lambda>l. case l of Add_job s \<Rightarrow> [s] | Work w out \<Rightarrow> []) ls)"

named_theorems phase_defs

lemmas [phase_defs] = goto_phase_def update_status_def take_job_def job_resolve_def job_test_def job_attempt_def Let_def

lemma work_queue:
  "taken (work resolver w out st) @ jobs (work resolver w out st) = taken st @ jobs st"
  "jcount (work resolver w out st) = jcount st" "exitd (work resolver w out st) = exitd st"
  by (simp_all add: work_def phase_defs split: phase.split list.split option.split outcome.split prod.split)

lemma crawl_queue_run:
  "exitd (crawl_run resolver ls st) \<or> taken (crawl_run resolver ls st) @ jobs (crawl_run resolver ls st) = taken st @ jobs st @ added ls
    \<and> jcount (crawl_run resolver ls st) = jcount st + length (added ls)"
proof (induction ls arbitrary: st)
  case Nil
  then show ?case by (simp add: crawl_run_def added_def)
next
  case (Cons l ls)
  have exit: "exitd st \<Longrightarrow> exitd (crawl_run resolver ls st)" for st
    by (induction ls arbitrary: st) (simp_all add: crawl_run_def crawl_step_def)
  show ?case
    using Cons.IH [of "crawl_step resolver l st"] exit work_queue [of resolver _ _ st]
    by (cases "exitd st"; cases l) (auto simp: crawl_run_def crawl_step_def added_def add_job_def)
qed

text \<open>
  The queue: while the program runs, the jobs taken by the workers and those pending are exactly the
  jobs added, in their order, none lost and none taken twice, whichever workers take them; and at
  most \<^verbatim>\<open>MAX_ATTEMPTS\<close> have been added.
\<close>

theorem crawl_queue_fifo:
  "exitd (crawl_run resolver ls crawl_init) \<noteq>
     (taken (crawl_run resolver ls crawl_init) @ jobs (crawl_run resolver ls crawl_init) = added ls \<and> length (added ls) \<le> MAX_ATTEMPTS)"
proof -
  have count: "exitd (crawl_run resolver ls st) \<longleftrightarrow> jcount (crawl_run resolver ls st) > MAX_ATTEMPTS"
    if "exitd st \<longleftrightarrow> jcount st > MAX_ATTEMPTS" for st
    using that
  proof (induction ls arbitrary: st)
    case (Cons l ls)
    have "exitd (crawl_step resolver l st) \<longleftrightarrow> jcount (crawl_step resolver l st) > MAX_ATTEMPTS"
      using Cons.prems work_queue [of resolver _ _ st] by (cases l) (auto simp: crawl_step_def add_job_def)
    then show ?case using Cons.IH by (simp add: crawl_run_def)
  qed (simp add: crawl_run_def)
  have le: "jcount (crawl_run resolver ls st) \<le> jcount st + length (added ls)" for st
  proof (induction ls arbitrary: st)
    case (Cons l ls)
    have "jcount (crawl_step resolver l st) \<le> jcount st + length (added [l])"
      using work_queue(2) [of resolver _ _ st] by (cases l) (auto simp: crawl_step_def add_job_def added_def)
    then show ?case using Cons.IH [of "crawl_step resolver l st"] by (simp add: crawl_run_def added_def)
  qed (simp add: crawl_run_def)
  have "exitd (crawl_run resolver ls crawl_init) \<longleftrightarrow> jcount (crawl_run resolver ls crawl_init) > MAX_ATTEMPTS"
    by (rule count) (simp add: crawl_init_def)
  then show ?thesis using le [of crawl_init] crawl_queue_run [of resolver ls crawl_init] by (auto simp: crawl_init_def)
qed

section \<open>One worker\<close>

definition allowed :: "addr \<Rightarrow> bool" where
  "allowed a \<longleftrightarrow> list_all (\<lambda>k. \<not> forbidden k a) [0..<5]"

text \<open>
  What the tests are for, on numbers and without the masks of the code: the address is zero, or in
  \<^verbatim>\<open>10.0.0.0/8\<close>, \<^verbatim>\<open>127.0.0.0/8\<close>, \<^verbatim>\<open>172.16.0.0/12\<close> or \<^verbatim>\<open>192.168.0.0/16\<close>.
\<close>

definition reserved :: "addr \<Rightarrow> bool" where
  "reserved a \<longleftrightarrow>
     (let n = unat a; x = n div 2 ^ 24; y = n div 2 ^ 16 mod 256
      in n = 0 \<or> x = 10 \<or> x = 127 \<or> (x = 172 \<and> y \<in> {16..<32}) \<or> (x = 192 \<and> y = 168))"

lemma masked_eq:
  fixes a m v :: "32 word"
  assumes m: "m = NOT (mask k)" and v: "unat v = c * 2 ^ k"
  shows "a AND m = v \<longleftrightarrow> unat a div 2 ^ k = c"
proof -
  have "a AND m = push_bit k (drop_bit k a)"
    by (simp add: m bit_eq_iff bit_simps) (auto simp: bit_imp_le_length)
  moreover have "unat (push_bit k (drop_bit k a)) = unat a div 2 ^ k * 2 ^ k"
  proof -
    have "unat a div 2 ^ k * 2 ^ k < 2 ^ 32"
      using unsigned_less [of a, where 'a = nat] by (intro le_less_trans [OF div_times_less_eq_dividend]) simp
    moreover have "unat a mod 2 ^ 32 = unat a"
      using unsigned_less [of a, where 'a = nat] by simp
    ultimately show ?thesis
      by (simp add: unsigned_push_bit_eq unsigned_drop_bit_eq push_bit_eq_mult [where 'a = nat]
            drop_bit_eq_div [where 'a = nat] take_bit_eq_mod [where 'a = nat])
  qed
  ultimately show ?thesis by (metis v word_unat_eq_iff mult_right_cancel power_not_zero zero_neq_numeral)
qed

lemma split_at:
  fixes n c d :: nat
  assumes "d < 16"
  shows "n div 2 ^ 20 = c * 16 + d \<longleftrightarrow> n div 2 ^ 24 = c \<and> n div 2 ^ 16 mod 256 div 16 = d"
proof -
  have "n div 2 ^ 24 = n div 2 ^ 20 div 16" by (simp flip: div_mult2_eq)
  moreover have "n div 2 ^ 16 mod 256 div 16 = n div 2 ^ 20 mod 16"
    using mod_mult2_eq [of "n div 2 ^ 16" 16 16] by (simp flip: div_mult2_eq)
  ultimately show ?thesis using assms mult_div_mod_eq [of 16 "n div 2 ^ 20"] by auto
qed

lemma allowed_iff: "allowed a \<longleftrightarrow> \<not> reserved a"
proof -
  let ?n = "unat a"
  have "forbidden 0 a \<longleftrightarrow> ?n div 2 ^ 24 = 10"
    unfolding forbidden_def by (simp only: simp_thms if_True, rule masked_eq) (simp_all add: mask_eq_exp_minus_1 not_eq_complement)
  moreover have "forbidden 1 a \<longleftrightarrow> ?n div 2 ^ 24 = 127"
    unfolding forbidden_def by (subst masked_eq [where k = 24 and c = 127, symmetric]) (simp_all add: mask_eq_exp_minus_1 not_eq_complement)
  moreover have "forbidden 2 a \<longleftrightarrow> ?n div 2 ^ 24 = 172 \<and> ?n div 2 ^ 16 mod 256 div 16 = 1"
  proof -
    have "forbidden 2 a \<longleftrightarrow> ?n div 2 ^ 20 = 172 * 16 + 1"
      unfolding forbidden_def
      by (subst masked_eq [where k = 20 and c = "172 * 16 + 1", symmetric]) (simp_all add: mask_eq_exp_minus_1 not_eq_complement)
    then show ?thesis using split_at [of 1 ?n 172] by simp
  qed
  moreover have "forbidden 3 a \<longleftrightarrow> ?n div 2 ^ 24 = 192 \<and> ?n div 2 ^ 16 mod 256 = 168"
  proof -
    have "forbidden 3 a \<longleftrightarrow> ?n div 2 ^ 16 = 192 * 256 + 168"
      unfolding forbidden_def
      by (subst masked_eq [where k = 16 and c = "192 * 256 + 168", symmetric]) (simp_all add: mask_eq_exp_minus_1 not_eq_complement)
    moreover have "?n div 2 ^ 24 = ?n div 2 ^ 16 div 256" by (simp flip: div_mult2_eq)
    moreover have "x = 192 * 256 + 168 \<longleftrightarrow> x div 256 = 192 \<and> x mod 256 = 168" for x :: nat
    proof
      assume "x div 256 = 192 \<and> x mod 256 = 168"
      then show "x = 192 * 256 + 168" using mult_div_mod_eq [of 256 x] by linarith
    qed simp
    ultimately show ?thesis by simp
  qed
  moreover have "forbidden 4 a \<longleftrightarrow> ?n = 0" by (simp add: forbidden_def unat_eq_0)
  moreover have "y div 16 = 1 \<longleftrightarrow> y \<in> {16..<32}" for y :: nat by auto
  moreover have "allowed a \<longleftrightarrow> \<not> (forbidden 0 a \<or> forbidden 1 a \<or> forbidden 2 a \<or> forbidden 3 a \<or> forbidden 4 a)"
    by (simp add: allowed_def upt_rec numeral_eq_Suc)
  ultimately show ?thesis unfolding reserved_def Let_def by simp blast
qed

text \<open>The worker \<open>w\<close> has tested what is in the buffer, and every connection so far was allowed.\<close>

definition tested :: "nat \<Rightarrow> Crawl \<Rightarrow> bool" where
  "tested w st \<longleftrightarrow> length (phases st) = WORKERS \<and> (\<forall>c\<in>set (conns st). allowed (fst (snd c))) \<and>
     (case phases st ! w of Testing s p k \<Rightarrow> k < 5 \<and> list_all (\<lambda>j. \<not> forbidden j (hostbuf st)) [0..<k]
      | Attempt s p i \<Rightarrow> allowed (hostbuf st) | _ \<Rightarrow> True)"

lemma work_tested:
  assumes "tested w st" and "w < WORKERS"
  shows "tested w (work resolver w out st)"
proof (cases "phases st ! w")
  case (Testing s p k)
  then have "k < 5" "list_all (\<lambda>j. \<not> forbidden j (hostbuf st)) [0..<k]" using assms(1) by (simp_all add: tested_def)
  moreover have "k + 1 < 5 \<or> k = 4" using \<open>k < 5\<close> by linarith
  moreover have "[0..<5] = [0..<4] @ [4]" by (simp add: upt_rec)
  ultimately show ?thesis using assms Testing
    by (auto simp: tested_def work_def job_test_def goto_phase_def update_status_def allowed_def)
qed (use assms in \<open>auto simp: tested_def work_def phase_defs split: list.split option.split outcome.split prod.split\<close>)

lemma add_tested: "tested w st \<Longrightarrow> tested w (add_job s st)"
  by (simp add: tested_def add_job_def split: phase.splits)

lemma tested_init: "w < WORKERS \<Longrightarrow> tested w crawl_init"
  by (simp add: tested_def crawl_init_def)

text \<open>
  C28. With one worker at work no address is connected to that is private, local or zero (the ranges
  are those of \<open>reserved\<close>, read off the octets of the address), whatever the resolver says and the
  network answers, and whatever is queued meanwhile.
\<close>

theorem one_worker_safe:
  assumes "w < WORKERS" and "\<forall>l\<in>set ls. \<forall>v out. l = Work v out \<longrightarrow> v = w"
  shows "\<forall>c\<in>set (conns (crawl_run resolver ls crawl_init)). \<not> reserved (fst (snd c))"
proof -
  have "tested w (crawl_run resolver ls st)" if "tested w st" for st
    using that assms(2)
  proof (induction ls arbitrary: st)
    case (Cons l ls)
    have "tested w (crawl_step resolver l st)"
      using Cons.prems assms(1) by (cases l) (auto simp: crawl_step_def add_tested work_tested)
    then show ?case using Cons by (simp add: crawl_run_def)
  qed (simp add: crawl_run_def)
  moreover have "tested w crawl_init" using assms(1) by (rule tested_init)
  ultimately show ?thesis by (simp add: tested_def allowed_iff)
qed

section \<open>Two workers\<close>

definition demo_resolver :: "string \<Rightarrow> addr option" where
  "demo_resolver h = (if h = ''a'' then Some 0x08080808 else if h = ''b'' then Some 0x7f000001 else None)"

text \<open>The first worker tests its address; the second resolves another name; the first connects.\<close>

definition race :: "string \<Rightarrow> string \<Rightarrow> label list" where
  "race s1 s2 = (let w0 = Work 0 (Replies ''x''); w1 = Work 1 (Replies ''x'')
     in [Add_job s1, Add_job s2, w0, w0, w0, w0, w0, w0, w0, w1, w1, w0])"

lemma split_job:
  assumes "h \<noteq> []" and "CHR ''/'' \<notin> set h"
  shows "split_server (h @ ''/80'') = Some (h, ''80'')"
proof -
  have "takeWhile (\<lambda>c. c \<noteq> CHR ''/'') (h @ ''/80'') = h"
    using assms(2) by (subst takeWhile_append2) auto
  then show ?thesis using assms(1) by (simp add: split_server_def Let_def)
qed

lemma race_conns:
  assumes "resolver h1 = Some a" and "allowed a" and "resolver h2 = Some b"
    and "h1 \<noteq> []" and "h2 \<noteq> []" and "CHR ''/'' \<notin> set h1" and "CHR ''/'' \<notin> set h2"
  shows "conns (crawl_run resolver (race (h1 @ ''/80'') (h2 @ ''/80'')) crawl_init) = [(0, b, 80)]"
proof -
  let ?s1 = "h1 @ ''/80''" and ?s2 = "h2 @ ''/80''"
  have split: "split_server ?s1 = Some (h1, ''80'')" "split_server ?s2 = Some (h2, ''80'')"
    using assms(4-7) by (simp_all only: split_job simp_thms)
  have port: "strtol0 ''80'' = 80"
    by code_simp
  have ok: "\<not> forbidden k a" if "k < 5" for k
    using assms(2) that by (simp add: allowed_def list_all_iff)
  define st2 where "st2 = crawl_init\<lparr>jobs := [?s1, ?s2], jcount := 2\<rparr>"
  have s2: "crawl_step r (Add_job ?s2) (crawl_step r (Add_job ?s1) crawl_init) = st2" for r
    by (simp add: crawl_step_def add_job_def crawl_init_def MAX_ATTEMPTS_def st2_def)
  define st9 where "st9 = st2\<lparr>jobs := [?s2], taken := [?s1], hostbuf := a, phases := [Attempt ?s1 80 0, Wait]\<rparr>"
  define w0 where "w0 = crawl_step resolver (Work 0 (Replies ''x''))"
  have init: "crawl_init = \<lparr>jobs = [], jcount = 0, hostbuf = 0, wstatus = [[], []], phases = [Wait, Wait],
     exitd = False, conns = [], taken = []\<rparr>"
    by (simp add: crawl_init_def WORKERS_def numeral_2_eq_2)
  have "w0 st2 = st2\<lparr>jobs := [?s2], taken := [?s1], phases := [Took ?s1, Wait]\<rparr>"
    by (simp add: w0_def crawl_step_def work_def st2_def init WORKERS_def take_job_def goto_phase_def)
  moreover have "w0 (st2\<lparr>jobs := [?s2], taken := [?s1], phases := [Took ?s1, Wait]\<rparr>) = st9\<lparr>phases := [Testing ?s1 80 0, Wait]\<rparr>"
    by (simp add: w0_def crawl_step_def work_def st2_def st9_def init WORKERS_def job_resolve_def goto_phase_def split port assms(1))
  moreover have "w0 (st9\<lparr>phases := [Testing ?s1 80 k, Wait]\<rparr>) =
      st9\<lparr>phases := [if k + 1 < 5 then Testing ?s1 80 (k + 1) else Attempt ?s1 80 0, Wait]\<rparr>" if "k < 5" for k
    using ok [OF that] by (simp add: w0_def crawl_step_def work_def st2_def st9_def init WORKERS_def job_test_def goto_phase_def)
  ultimately have s9: "w0 (w0 (w0 (w0 (w0 (w0 (w0 st2)))))) = st9" by (simp add: st9_def)
  define st11 where "st11 = st9\<lparr>jobs := [], taken := [?s1, ?s2], hostbuf := b, phases := [Attempt ?s1 80 0, Testing ?s2 80 0]\<rparr>"
  define w1 where "w1 = crawl_step resolver (Work 1 (Replies ''x''))"
  have "w1 (w1 st9) = st11"
    by (simp add: w1_def crawl_step_def work_def st2_def st9_def st11_def init WORKERS_def take_job_def job_resolve_def goto_phase_def
        split port assms(3))
  moreover have "conns (w0 st11) = [(0, b, 80)]"
    by (simp add: w0_def crawl_step_def work_def st2_def st9_def st11_def init WORKERS_def job_attempt_def goto_phase_def update_status_def Let_def)
  moreover have "crawl_run resolver (race ?s1 ?s2) crawl_init = w0 (w1 (w1 (w0 (w0 (w0 (w0 (w0 (w0 (w0 st2)))))))))"
    by (simp add: crawl_run_def race_def Let_def s2 w0_def w1_def)
  ultimately show ?thesis by (simp add: s9)
qed

text \<open>
  C29. With both workers at work the test does not protect the connection: whatever name passes it,
  and whatever address another name has, there is a run in which the first job connects to the
  address of the second, because the resolver's static buffer is overwritten between test and use.
\<close>

theorem two_workers_race:
  assumes "resolver h = Some a" and "allowed a" and "resolver g = Some b"
    and "h \<noteq> []" and "g \<noteq> []" and "CHR ''/'' \<notin> set h" and "CHR ''/'' \<notin> set g"
  shows "\<exists>ls. conns (crawl_run resolver ls crawl_init) = [(0, b, 80)]"
  by (rule exI, rule race_conns [OF assms])

section \<open>Every job ends\<close>

text \<open>How many more steps a worker can take before it waits again.\<close>

fun rank :: "phase \<Rightarrow> nat" where
  "rank Wait = 0"
| "rank Gone = 0"
| "rank (Attempt s p i) = 2 - i"
| "rank (Testing s p k) = 3 + (4 - k)"
| "rank (Took s) = 8"

definition idle :: "phase \<Rightarrow> bool" where
  "idle ph \<longleftrightarrow> ph = Wait \<or> ph = Gone"

text \<open>The counters of a worker that is not idle are in range.\<close>

definition fit :: "phase \<Rightarrow> bool" where
  "fit ph = (case ph of Testing s p k \<Rightarrow> k < 5 | Attempt s p i \<Rightarrow> i < 2 | _ \<Rightarrow> True)"

lemma rank_work:
  assumes "w < WORKERS" and "length (phases st) = WORKERS" and "\<not> idle (phases st ! w)" and "fit (phases st ! w)"
  shows "rank (phases (work resolver w out st) ! w) < rank (phases st ! w)" and "fit (phases (work resolver w out st) ! w)"
  using assms
  by (auto simp: work_def phase_defs idle_def fit_def split: phase.splits option.split outcome.split prod.split)

lemma other_work:
  assumes "v \<noteq> w"
  shows "phases (work resolver v out st) ! w = phases st ! w"
  using assms by (auto simp: work_def phase_defs split: phase.split list.split option.split outcome.split prod.split)

lemma length_phases: "length (phases (crawl_step resolver l st)) = length (phases st)"
  by (auto simp: crawl_step_def add_job_def work_def phase_defs split: label.split phase.split list.split option.split outcome.split prod.split)

text \<open>The steps a worker takes in a run until it waits or has left, or the program has exited.\<close>

fun busy :: "(string \<Rightarrow> addr option) \<Rightarrow> nat \<Rightarrow> label list \<Rightarrow> Crawl \<Rightarrow> nat" where
  "busy resolver w [] st = 0"
| "busy resolver w (l # ls) st =
     (if exitd st \<or> idle (phases st ! w) then 0
      else (case l of Work v out \<Rightarrow> of_bool (v = w) | Add_job s \<Rightarrow> 0) + busy resolver w ls (crawl_step resolver l st))"

lemma busy_le_rank:
  assumes "w < WORKERS" and "length (phases st) = WORKERS" and "fit (phases st ! w)"
  shows "busy resolver w ls st \<le> rank (phases st ! w)"
  using assms(2,3)
proof (induction ls arbitrary: st)
  case (Cons l ls)
  let ?st = "crawl_step resolver l st"
  show ?case
  proof (cases "exitd st \<or> idle (phases st ! w)")
    case False
    have "fit (phases ?st ! w) \<and> (case l of Work v out \<Rightarrow> of_bool (v = w) | Add_job s \<Rightarrow> 0) + rank (phases ?st ! w) \<le> rank (phases st ! w)"
      using rank_work [OF assms(1) Cons.prems(1) _ Cons.prems(2)] other_work [of _ w resolver _ st] False Cons.prems(2)
      by (cases l) (auto simp: crawl_step_def add_job_def Suc_le_eq)
    moreover have "length (phases ?st) = WORKERS" using length_phases Cons.prems(1) by simp
    ultimately show ?thesis using Cons.IH [of ?st] False by simp
  qed simp
qed simp

text \<open>
  C30. Every job ends: from any state in which a worker has taken a job, and however the steps of the
  other threads fall in between, it takes at most eight steps of its own (the resolver's call, the
  five tests, two attempts) until it is back at the queue, whatever the resolver says and the network
  answers.
\<close>

theorem job_ends:
  assumes "w < WORKERS" and "length (phases st) = WORKERS" and "phases st ! w = Took s"
  shows "busy resolver w ls st \<le> 8"
  using busy_le_rank [OF assms(1,2)] assms(3) by (simp add: fit_def)

section \<open>The properties on concrete inputs\<close>

lemma one_worker_safe_witness:
  "list_all (\<lambda>c. \<not> reserved (fst (snd c)))
     (conns (crawl_run demo_resolver (Add_job ''b/80'' # replicate 9 (Work 1 (Replies ''x''))) crawl_init))"
  unfolding list_all_iff by (rule one_worker_safe [of 1]) (auto simp: WORKERS_def)

lemma two_workers_race_witness:
  "(\<exists>ls. conns (crawl_run demo_resolver ls crawl_init) = [(0, 0x7f000001, 80)]) \<and> \<not> allowed 0x7f000001"
proof
  show "\<exists>ls. conns (crawl_run demo_resolver ls crawl_init) = [(0, 0x7f000001, 80)]"
    by (rule two_workers_race [where h = "''a''" and a = "0x08080808" and g = "''b''"])
      (simp_all add: demo_resolver_def allowed_def upt_rec forbidden_def)
  show "\<not> allowed 0x7f000001" by (simp add: allowed_def upt_rec forbidden_def)
qed

lemma job_ends_witness:
  "busy demo_resolver 1 (race ''a/80'' ''b/80'') (crawl_init\<lparr>phases := [Wait, Took ''a/80'']\<rparr>) \<le> 8"
  by (rule job_ends [of _ _ "''a/80''"]) (simp_all add: WORKERS_def)

end
