(* ===== verification/ProofOfWork.thy ===== *)
theory ProofOfWork
  imports Base64 ByteData
begin

text \<open>
  The proof of work in front of the labs' services: the solver (\<^verbatim>\<open>Lab/PoW/solve.c\<close>) and the check of
  the web checker (\<^verbatim>\<open>pow\<close> in \<^verbatim>\<open>Lab/7/Web Crawler/webcrawler.cpp\<close>). The hash function of the
  cryptographic library is a parameter. What the solver prints, the check accepts. Reading beyond
  an array or an unset length is \<open>None\<close>.
\<close>

section \<open>The program\<close>

definition hex_digit :: "nat \<Rightarrow> 8 word" where
  "hex_digit v = word_of_nat (if v < 10 then 48 + v else 87 + v)"

definition hex2 :: "8 word \<Rightarrow> bytes" where
  "hex2 b = [hex_digit (unat b div 16), hex_digit (unat b mod 16)]"

definition sha1sum :: "(bytes \<Rightarrow> bytes) \<Rightarrow> bytes \<Rightarrow> bytes" where
  "sha1sum sha1 s = concat (map hex2 (take 20 (sha1 s)))"

text \<open>The loop over the leading zeros of a digest, which ends at its terminator.\<close>

definition zeros_ok :: "nat \<Rightarrow> bytes \<Rightarrow> bool" where
  "zeros_ok zeros cksum \<longleftrightarrow> take zeros (cksum @ [0]) = replicate zeros 0x30"

definition LIMIT :: nat where
  "LIMIT = 1073741824"

function pow_search :: "(bytes \<Rightarrow> bytes) \<Rightarrow> bytes \<Rightarrow> nat \<Rightarrow> nat \<Rightarrow> nat option" where
  "pow_search sha1 prefix zeros i =
     (if i < LIMIT
      then (if zeros_ok zeros (sha1sum sha1 (prefix @ le32 i)) then Some i else pow_search sha1 prefix zeros (i + 1))
      else None)"
  by pat_completeness auto
termination by (relation "measure (\<lambda>(sha1, prefix, zeros, i). LIMIT - i)") auto

declare pow_search.simps [simp del]

text \<open>\<^verbatim>\<open>main\<close> of the solver: what is printed, if a solution is found.\<close>

definition solve_main :: "(bytes \<Rightarrow> bytes) \<Rightarrow> bytes \<Rightarrow> nat \<Rightarrow> (nat \<times> bytes \<times> bytes) option option" where
  "solve_main sha1 prefix zeros =
     (if length prefix + 4 > 128 then None
      else Some (case pow_search sha1 prefix zeros 0 of None \<Rightarrow> None
        | Some i \<Rightarrow> Some (i, fst (b64encode (le32 i)), sha1sum sha1 (prefix @ le32 i))))"

definition difficulty :: nat where
  "difficulty = 6"

text \<open>\<^verbatim>\<open>pow\<close> with the prefix it has printed, on the line it reads.\<close>

definition pow_check :: "(bytes \<Rightarrow> bytes) \<Rightarrow> bytes \<Rightarrow> bytes \<Rightarrow> bool option" where
  "pow_check sha1 prefix l =
     (let len = length prefix;
          text = takeWhile (\<lambda>c. c \<noteq> 10 \<and> c \<noteq> 13 \<and> c \<noteq> 0) (take (511 - len) l)
      in case b64decode_inplace len (length text) (prefix @ text @ [0]) of
           None \<Rightarrow> None
         | Some (buf, None) \<Rightarrow> None
         | Some (buf, Some olen) \<Rightarrow> Some (zeros_ok difficulty (sha1sum sha1 (take (len + olen) buf))))"

section \<open>The solver\<close>

lemma pow_search_from:
  "case pow_search sha1 prefix zeros i of
     None \<Rightarrow> \<not> (\<exists>j. i \<le> j \<and> j < LIMIT \<and> zeros_ok zeros (sha1sum sha1 (prefix @ le32 j)))
   | Some k \<Rightarrow> i \<le> k \<and> k < LIMIT \<and> zeros_ok zeros (sha1sum sha1 (prefix @ le32 k)) \<and>
       \<not> (\<exists>j. i \<le> j \<and> j < k \<and> zeros_ok zeros (sha1sum sha1 (prefix @ le32 j)))"
proof (induction "LIMIT - i" arbitrary: i)
  case 0
  then show ?case by (subst pow_search.simps) auto
next
  case (Suc d)
  have lt: "i < LIMIT" using Suc.hyps(2) by simp
  show ?case
  proof (cases "zeros_ok zeros (sha1sum sha1 (prefix @ le32 i))")
    case True
    then show ?thesis using lt by (subst pow_search.simps) auto
  next
    case False
    have split: "i \<le> j \<longleftrightarrow> j = i \<or> i + 1 \<le> j" for j by auto
    have "pow_search sha1 prefix zeros i = pow_search sha1 prefix zeros (i + 1)"
      using lt False by (subst pow_search.simps) simp
    moreover have "d = LIMIT - (i + 1)" using Suc.hyps(2) by simp
    ultimately show ?thesis using Suc.hyps(1) [of "i + 1"] False lt
      by (auto simp: split split: option.splits)
  qed
qed

text \<open>
  The solver ends, with the smallest number below its limit whose digest has the zeros asked for,
  and without an answer exactly when there is none.
\<close>

theorem pow_search_least:
  "case pow_search sha1 prefix zeros 0 of
     None \<Rightarrow> \<not> (\<exists>j < LIMIT. zeros_ok zeros (sha1sum sha1 (prefix @ le32 j)))
   | Some i \<Rightarrow> i < LIMIT \<and> zeros_ok zeros (sha1sum sha1 (prefix @ le32 i)) \<and>
       \<not> (\<exists>j < i. zeros_ok zeros (sha1sum sha1 (prefix @ le32 j)))"
  using pow_search_from [of 0 zeros sha1 prefix] by (simp split: option.splits)

section \<open>The check\<close>

lemma alphabet: "set (fst (b64encode xs)) \<subseteq> insert 0x3d (set b64_t)"
proof (cases "xs = []")
  case False
  have "b64_t ! unat s \<in> set b64_t" if "s \<in> set (enc_ref xs)" for s
    using enc_ref_less [OF that] by (intro nth_mem) (simp add: b64_t_def)
  then show ?thesis using False by (auto simp: b64encode_ref Let_def)
qed (simp add: b64encode_def)

lemma b64_no_end: "c \<in> set (fst (b64encode xs)) \<Longrightarrow> c \<noteq> 10 \<and> c \<noteq> 13 \<and> c \<noteq> 0"
proof -
  have "(10 :: 8 word) \<notin> insert 0x3d (set b64_t)" "(13 :: 8 word) \<notin> insert 0x3d (set b64_t)" "(0 :: 8 word) \<notin> insert 0x3d (set b64_t)"
    by (simp_all add: b64_t_def)
  then show "c \<in> set (fst (b64encode xs)) \<Longrightarrow> c \<noteq> 10 \<and> c \<noteq> 13 \<and> c \<noteq> 0" using alphabet by blast
qed

lemma pow_check_text:
  assumes ne: "xs \<noteq> []" and room: "length prefix + length (fst (b64encode xs)) < 511"
  shows "pow_check sha1 prefix (fst (b64encode xs) @ 10 # r) = Some (zeros_ok difficulty (sha1sum sha1 (prefix @ xs)))"
proof -
  define t where "t = fst (b64encode xs)"
  have "take (511 - length prefix) (t @ 10 # r) = t @ 10 # take (510 - length prefix - length t) r"
    using room by (auto simp: t_def take_Cons split: nat.split intro!: arg_cong [of _ _ "\<lambda>n. take n r"])
  then have "takeWhile (\<lambda>c. c \<noteq> 10 \<and> c \<noteq> 13 \<and> c \<noteq> 0) (take (511 - length prefix) (t @ 10 # r)) = t"
    using b64_no_end unfolding t_def by (auto simp: takeWhile_append2)
  moreover have dec: "b64decode t = (xs, Some (length xs))"
  proof (rule decode_encode [OF ne])
    have "0 \<le> b64decode_code c \<or> c = 0x3d" if "c \<in> set t" for c
    proof -
      have "c \<in> insert 0x3d (set b64_t)" using that alphabet by (auto simp: t_def)
      moreover have "length b64_t = 64" by (simp add: b64_t_def)
      ultimately show ?thesis using b64_t_code by (auto simp: in_set_conv_nth)
    qed
    then show "filter (\<lambda>y. 0 \<le> b64decode_code y \<or> y = 0x3d) t = fst (b64encode xs)"
      by (simp add: t_def filter_id_conv)
  qed
  moreover have "b64decode_inplace (length prefix) (length t) (prefix @ t @ [0]) =
      Some (prefix @ xs @ 0 # drop (length xs + 1) (t @ [0]), Some (length xs))"
    using decode_inplace [of "length prefix" "length t" "prefix @ t @ [0]"] dec by simp
  ultimately show ?thesis by (simp add: pow_check_def Let_def t_def)
qed

text \<open>
  C25. What the solver prints is accepted: whenever it finds an answer for a prefix and six zeros, the
  check of the service passes on that line, followed by a line break and whatever else, for every
  hash function.
\<close>

theorem pow_accepts_solution:
  assumes "solve_main sha1 prefix difficulty = Some (Some (i, t, h))"
  shows "pow_check sha1 prefix (t @ 10 # r) = Some True"
proof -
  have found: "pow_search sha1 prefix difficulty 0 = Some i" and t: "t = fst (b64encode (le32 i))"
    using assms by (auto simp: solve_main_def split: if_splits option.splits)
  have "zeros_ok difficulty (sha1sum sha1 (prefix @ le32 i))"
    using pow_search_from [of 0 difficulty sha1 prefix] found by simp
  moreover have "length prefix + length (fst (b64encode (le32 i))) < 511"
    using assms by (simp add: solve_main_def length_b64encode enc_pad_def le32_ne split: if_splits)
  ultimately show ?thesis using pow_check_text [of "le32 i" prefix sha1 r] by (simp add: t)
qed

text \<open>An empty answer leaves the length unset, and the hash is taken over an indeterminate number of bytes.\<close>

lemma pow_check_empty: "pow_check sha1 prefix (10 # r) = None"
  by (simp add: pow_check_def b64decode_inplace_def store_def Let_def take_Cons split: nat.split)

lemma pow_accepts_solution_witness:
  "pow_check (\<lambda>x. replicate 20 0) [65, 66] (fst (b64encode (le32 0)) @ 10 # []) = Some True"
proof -
  have "replicate 20 (0 :: 8 word) = [0, 0, 0] @ replicate 17 0"
    by (simp flip: replicate_Suc)
  moreover have "replicate difficulty (0x30 :: 8 word) = [0x30, 0x30, 0x30, 0x30, 0x30, 0x30]"
    by (simp add: difficulty_def numeral_eq_Suc)
  ultimately have z: "zeros_ok difficulty (sha1sum (\<lambda>x. replicate 20 0) s)" for s
    by (simp add: zeros_ok_def sha1sum_def hex2_def hex_digit_def) (simp add: difficulty_def)
  have "pow_search (\<lambda>x. replicate 20 0) [65, 66] difficulty 0 = Some 0"
    by (subst pow_search.simps) (simp add: z LIMIT_def)
  then have "solve_main (\<lambda>x. replicate 20 0) [65, 66] difficulty
      = Some (Some (0, fst (b64encode (le32 0)), sha1sum (\<lambda>x. replicate 20 0) ([65, 66] @ le32 0)))"
    by (simp add: solve_main_def)
  then show ?thesis by (rule pow_accepts_solution)
qed

end
