(* ===== verification/Chat.thy ===== *)
theory Chat
  imports EventLoop ByteData
begin

text \<open>
  The chat server of lab 5 (\<^verbatim>\<open>Lab/5/Say-Hey!-to-Your-Friend/server.cpp\<close>). What is sent to many
  clients is sent by a forked child, which has a copy of the server's memory: \<open>forked\<close> holds, for every
  child, what it has still to send, and the children run at any time (\<open>Child\<close>). The sockets do not
  block, so a call of \<^verbatim>\<open>send\<close> may be refused, and \<^verbatim>\<open>fork\<close> may fail; nobody looks at the result, and what
  was to be sent is lost (\<open>Refused\<close>, once for each message of a child that was never made). What the kernel and the
  C library give are parts of the events: the time, descriptors, addresses, random numbers, the bytes
  read. \<open>None\<close> is undefined behaviour: a buffer overrun, a null pointer. The traversal order of the
  hash table is a parameter.
\<close>

section \<open>State\<close>

record ChatClient =
  cli_name :: string
  cli_info :: string

record Chat =
  timebuf :: string
  clicnt :: int
  cliinfo :: "(nat, ChatClient) um"
  forked :: "(nat \<times> string) list list"
  chat_sent :: "(nat \<times> string) list"
  ended :: bool

datatype chat_event =
    Wake string  \<comment> \<open>\<^verbatim>\<open>epoll_wait\<close> has returned, and this is the time\<close>
  | Connect nat string "nat list" string
      \<comment> \<open>descriptor, address, what \<^verbatim>\<open>rand\<close> returns, and what follows the random name in memory\<close>
  | Receive nat "char list"  \<comment> \<open>the bytes read, none for the end of the connection or an error\<close>
  | Child nat  \<comment> \<open>a child makes its next \<^verbatim>\<open>send\<close>\<close>
  | Refused nat  \<comment> \<open>it cannot: the call is refused, or \<^verbatim>\<open>fork\<close> had failed\<close>

definition CHAT_LINE :: nat where
  "CHAT_LINE = 1024"

definition chat_init :: Chat where
  "chat_init = \<lparr>timebuf = [], clicnt = 0, cliinfo = [], forked = [], chat_sent = [], ended = False\<rparr>"

definition fair :: "(nat list \<Rightarrow> nat list) \<Rightarrow> bool" where
  "fair ord \<longleftrightarrow> (\<forall>xs. mset (ord xs) = mset xs)"

section \<open>Operations\<close>

definition chat_sendstr :: "nat \<Rightarrow> string \<Rightarrow> Chat \<Rightarrow> Chat" where
  "chat_sendstr fd s st = st\<lparr>chat_sent := chat_sent st @ [(fd, s)]\<rparr>"

text \<open>\<^verbatim>\<open>msg2log\<close>, with its three buffers; no sender stands for \<^verbatim>\<open>SYSTEM\<close>.\<close>

definition msg2log :: "string \<Rightarrow> string option \<Rightarrow> string \<Rightarrow> string option" where
  "msg2log now from_whom msg =
     (let frombuf = (case from_whom of None \<Rightarrow> ''***'' | Some n \<Rightarrow> ''<'' @ n @ ''>'');
          buf = now @ '' '' @ frombuf @ '' '' @ msg @ [LF]
      in if length msg < CHAT_LINE \<and> length frombuf < CHAT_LINE div 2 \<and> length buf < CHAT_LINE * 2 then Some buf else None)"

text \<open>The seven letters have no terminator; the name goes on with what is behind them in memory.\<close>

definition randstr :: "nat list \<Rightarrow> string \<Rightarrow> string" where
  "randstr rs stray = map (\<lambda>r. char_of (r mod 26 + 97)) rs @ stray"

text \<open>The messages, from their format strings.\<close>

definition landed :: "string \<Rightarrow> string" where
  "landed name = ''User <'' @ name @ ''> has just landed on the server''"

definition greeting :: "int \<Rightarrow> string \<Rightarrow> string" where
  "greeting n name = ''Welcome to the simple CHAT server'' @ [LF] @ ''Total '' @ show_int n @ '' users online now. Your name is <'' @ name @ ''>''"

definition has_left :: "string \<Rightarrow> string" where
  "has_left name = ''User <'' @ name @ ''> has left the server''"

definition nick_changed :: "string \<Rightarrow> string" where
  "nick_changed name = ''Nickname changed to <'' @ name @ ''>''"

definition renamed :: "string \<Rightarrow> string \<Rightarrow> string" where
  "renamed old name = ''User <'' @ old @ ''> renamed to <'' @ name @ ''>''"

definition unknown_cmd :: "string \<Rightarrow> string" where
  "unknown_cmd token = ''Unknown or incomplete command <'' @ token @ ''>''"

definition sendexp :: "(nat list \<Rightarrow> nat list) \<Rightarrow> nat \<Rightarrow> string option \<Rightarrow> string \<Rightarrow> Chat \<Rightarrow> Chat option" where
  "sendexp ord skip from_whom msg st =
     (case msg2log (timebuf st) from_whom msg of None \<Rightarrow> None
      | Some log \<Rightarrow>
          Some (st\<lparr>forked := forked st @ [map (\<lambda>fd. (fd, log)) (filter (\<lambda>fd. fd \<noteq> skip) (ord (um_keys (cliinfo st))))]\<rparr>))"

definition chat_new_client :: "(nat list \<Rightarrow> nat list) \<Rightarrow> nat \<Rightarrow> string \<Rightarrow> nat list \<Rightarrow> string \<Rightarrow> Chat \<Rightarrow> Chat option" where
  "chat_new_client ord fd info rs stray st =
     (let st1 = st\<lparr>clicnt := clicnt st + 1\<rparr>; name = randstr rs stray
      in case sendexp ord fd None (landed name) st1 of None \<Rightarrow> None
         | Some st2 \<Rightarrow>
             let st3 = st2\<lparr>cliinfo := um_put fd \<lparr>cli_name = name, cli_info = info\<rparr> (cliinfo st2)\<rparr>
             in case msg2log (timebuf st3) None (greeting (clicnt st3) name) of None \<Rightarrow> None
                | Some msg \<Rightarrow> Some (chat_sendstr fd msg st3))"

text \<open>\<^verbatim>\<open>/who\<close>: the table in memory of the size computed beforehand, filled row by row.\<close>

definition who_row :: "nat \<Rightarrow> nat \<Rightarrow> nat \<times> ChatClient \<Rightarrow> string" where
  "who_row mxname me p = [if fst p = me then CHR ''*'' else CHR '' ''] @ '' '' @ pad_right mxname (cli_name (snd p)) @ '' '' @
     pad_left 21 (cli_info (snd p)) @ [LF]"

fun who_rows :: "nat \<Rightarrow> nat \<Rightarrow> nat \<Rightarrow> nat \<Rightarrow> (nat \<times> ChatClient) list \<Rightarrow> char option list \<Rightarrow> char option list option" where
  "who_rows len mxname me k [] table = Some table"
| "who_rows len mxname me k (p # ps) table =
     (case write_at table (len * k) (who_row mxname me p @ [NUL]) of None \<Rightarrow> None
      | Some table' \<Rightarrow> who_rows len mxname me (k + 1) ps table')"

definition who_table :: "(nat list \<Rightarrow> nat list) \<Rightarrow> nat \<Rightarrow> Chat \<Rightarrow> string option" where
  "who_table ord me st =
     (let clis = map (\<lambda>fd. (fd, the (um_find (cliinfo st) fd))) (ord (um_keys (cliinfo st)));
          mxname = foldl max 0 (map (\<lambda>p. length (cli_name (snd p))) clis);
          len = 2 + mxname + 22 + 1; size = len * nat (clicnt st + 2)
      in do {
        t1 \<leftarrow> write_at (replicate size None) 0 (replicate len (CHR ''-''));
        t2 \<leftarrow> write_at t1 (len - 1) [LF];
        t3 \<leftarrow> who_rows len mxname me 1 clis t2;
        t4 \<leftarrow> write_at t3 (size - len) (replicate len (CHR ''-''));
        t5 \<leftarrow> write_at t4 (size - 1) [LF];
        if None \<in> set t5 then None else Some (map the t5) })"

text \<open>The child that computes the table sends it in one call.\<close>

definition chat_who :: "(nat list \<Rightarrow> nat list) \<Rightarrow> nat \<Rightarrow> Chat \<Rightarrow> Chat option" where
  "chat_who ord fd st =
     map_option (\<lambda>table. st\<lparr>forked := forked st @ [[(fd, table)]]\<rparr>) (who_table ord fd st)"

definition chat_rename :: "(nat list \<Rightarrow> nat list) \<Rightarrow> nat \<Rightarrow> ChatClient \<Rightarrow> string \<Rightarrow> Chat \<Rightarrow> Chat option" where
  "chat_rename ord fd c name st = do {
     msg \<leftarrow> msg2log (timebuf st) None (nick_changed name);
     st1 \<leftarrow> sendexp ord fd None (renamed (cli_name c) name) (chat_sendstr fd msg st);
     Some (st1\<lparr>cliinfo := um_assign fd (c\<lparr>cli_name := name\<rparr>) (cliinfo st1)\<rparr>) }"

text \<open>\<^verbatim>\<open>handle_client_input\<close> for a client with an entry; without one null pointers would be followed.\<close>

definition chat_gone :: "(nat list \<Rightarrow> nat list) \<Rightarrow> nat \<Rightarrow> ChatClient \<Rightarrow> Chat \<Rightarrow> Chat option" where
  "chat_gone ord fd c st =
     sendexp ord fd None (has_left (cli_name c))
       (st\<lparr>clicnt := clicnt st - 1, cliinfo := um_erase fd (cliinfo st)\<rparr>)"

definition chat_command :: "(nat list \<Rightarrow> nat list) \<Rightarrow> nat \<Rightarrow> ChatClient \<Rightarrow> char list \<Rightarrow> nat \<Rightarrow> Chat \<Rightarrow> Chat option" where
  "chat_command ord fd c buf n st =
     (case strtok_first [CHR '' '', LF] buf of
        Some (Some token) \<Rightarrow>
          if token = ''/exit'' then Some (st\<lparr>ended := True\<rparr>)
          else if token = ''/name'' \<and> n > 7 then
            (case strtok_first [LF] (drop 6 buf) of
               Some (Some name) \<Rightarrow> chat_rename ord fd c name st
             | _ \<Rightarrow> None)
          else if token = ''/who'' then chat_who ord fd st
          else map_option (\<lambda>msg. chat_sendstr fd msg st)
                 (msg2log (timebuf st) None (unknown_cmd token))
      | _ \<Rightarrow> None)"

definition chat_talk :: "(nat list \<Rightarrow> nat list) \<Rightarrow> nat \<Rightarrow> ChatClient \<Rightarrow> char list \<Rightarrow> Chat \<Rightarrow> Chat option" where
  "chat_talk ord fd c buf st =
     (case strtok_first [LF] buf of None \<Rightarrow> None
      | Some None \<Rightarrow> Some st
      | Some (Some token) \<Rightarrow> sendexp ord fd (Some (cli_name c)) token st)"

definition chat_client_input :: "(nat list \<Rightarrow> nat list) \<Rightarrow> nat \<Rightarrow> char list \<Rightarrow> Chat \<Rightarrow> Chat option" where
  "chat_client_input ord fd data st =
     (case um_find (cliinfo st) fd of None \<Rightarrow> None
      | Some c \<Rightarrow>
          let buf = read_buf CHAT_LINE data
          in if data = [] then chat_gone ord fd c st
             else if hd buf = CHR ''/'' then chat_command ord fd c buf (length data) st
             else chat_talk ord fd c buf st)"

definition child_send :: "nat \<Rightarrow> Chat \<Rightarrow> Chat" where
  "child_send i st =
     (if i < length (forked st)
      then (case forked st ! i of [] \<Rightarrow> st | (fd, s) # r \<Rightarrow> chat_sendstr fd s (st\<lparr>forked := (forked st)[i := r]\<rparr>))
      else st)"

definition child_refused :: "nat \<Rightarrow> Chat \<Rightarrow> Chat" where
  "child_refused i st = (if i < length (forked st) then st\<lparr>forked := (forked st)[i := tl (forked st ! i)]\<rparr> else st)"

text \<open>The loop of \<^verbatim>\<open>main\<close>: after \<^verbatim>\<open>/exit\<close> only the children go on.\<close>

definition chat_step :: "(nat list \<Rightarrow> nat list) \<Rightarrow> Chat \<Rightarrow> chat_event \<Rightarrow> Chat option" where
  "chat_step ord st ev =
     (case ev of
        Child i \<Rightarrow> Some (child_send i st)
      | Refused i \<Rightarrow> Some (child_refused i st)
      | Wake t \<Rightarrow> if ended st then Some st else if length t < 20 then Some (st\<lparr>timebuf := t\<rparr>) else None
      | Connect fd info rs stray \<Rightarrow> if ended st then Some st else chat_new_client ord fd info rs stray st
      | Receive fd data \<Rightarrow> if ended st then Some st else chat_client_input ord fd data st)"

end
