(* ===== verification/ChatCorrect.thy ===== *)
theory ChatCorrect
  imports Chat
begin

text \<open>
  The chat server: the table of \<^verbatim>\<open>/who\<close> fits its memory exactly, the server stays defined within the
  bounds of its buffers, what is said reaches every other client once, and the children's messages
  may overtake each other.
\<close>

section \<open>The table\<close>

lemma write_at_tail:
  assumes "length pre = off" and "length s \<le> length tail"
  shows "write_at (map Some pre @ tail) off s = Some (map Some (pre @ s) @ drop (length s) tail)"
  using assms by (simp add: write_at_def)

lemma length_who_row:
  "length (cli_info (snd p)) \<le> 21 \<Longrightarrow> length (cli_name (snd p)) \<le> mx \<Longrightarrow> length (who_row mx me p) = mx + 25"
  by (simp add: who_row_def)

lemma who_rows_fill:
  assumes "\<forall>p\<in>set ps. length (cli_info (snd p)) \<le> 21 \<and> length (cli_name (snd p)) \<le> mx"
    and "length pre = (mx + 25) * k" and "length tail = (mx + 25) * (length ps + 1)"
  shows "\<exists>tail'. who_rows (mx + 25) mx me k ps (map Some pre @ tail) =
      Some (map Some (pre @ concat (map (who_row mx me) ps)) @ tail') \<and> length tail' = mx + 25"
  using assms
proof (induction ps arbitrary: pre tail k)
  case (Cons p ps)
  have row: "length (who_row mx me p) = mx + 25" using Cons.prems(1) by (intro length_who_row) auto
  have w: "write_at (map Some pre @ tail) ((mx + 25) * k) (who_row mx me p @ [NUL])
      = Some (map Some (pre @ who_row mx me p) @ (Some NUL # drop (mx + 26) tail))"
    using Cons.prems(2,3) row by (subst write_at_tail) (auto simp: add.commute)
  have "\<exists>tail'. who_rows (mx + 25) mx me (k + 1) ps (map Some (pre @ who_row mx me p) @ (Some NUL # drop (mx + 26) tail)) =
      Some (map Some ((pre @ who_row mx me p) @ concat (map (who_row mx me) ps)) @ tail') \<and> length tail' = mx + 25"
    using Cons.prems row by (intro Cons.IH) (auto simp: algebra_simps)
  then show ?case using w by simp
qed simp

lemma foldl_max: "x \<in> set xs \<Longrightarrow> x \<le> foldl max (m :: nat) xs"
proof -
  have start: "m \<le> foldl max m xs" for m :: nat and xs
  proof (induction xs arbitrary: m)
    case (Cons y ys)
    have "m \<le> max m y" by simp
    also have "\<dots> \<le> foldl max (max m y) ys" by (rule Cons)
    finally show ?case by simp
  qed simp
  show "x \<in> set xs \<Longrightarrow> x \<le> foldl max m xs"
  proof (induction xs arbitrary: m)
    case (Cons y ys)
    then show ?case using start [of "max m y" ys] by auto
  qed simp
qed

text \<open>The rule above and below the table, and its rows.\<close>

definition rule_line :: "nat \<Rightarrow> string" where
  "rule_line mx = replicate (mx + 24) (CHR ''-'') @ [LF]"

definition listed :: "(nat list \<Rightarrow> nat list) \<Rightarrow> Chat \<Rightarrow> (nat \<times> ChatClient) list" where
  "listed ord st = map (\<lambda>fd. (fd, the (um_find (cliinfo st) fd))) (ord (um_keys (cliinfo st)))"

definition name_width :: "(nat list \<Rightarrow> nat list) \<Rightarrow> Chat \<Rightarrow> nat" where
  "name_width ord st = foldl max 0 (map (\<lambda>p. length (cli_name (snd p))) (listed ord st))"

lemma who_filled:
  assumes "length (listed ord st) = n" and "clicnt st = int n" and "\<forall>p\<in>set (listed ord st). length (cli_info (snd p)) \<le> 21"
  shows "who_table ord me st = Some (rule_line (name_width ord st) @
    concat (map (who_row (name_width ord st) me) (listed ord st)) @ rule_line (name_width ord st))"
proof -
  define mx where "mx = name_width ord st"
  define ps where "ps = listed ord st"
  define body where "body = rule_line mx @ concat (map (who_row mx me) ps)"
  define size where "size = (mx + 25) * (n + 2)"
  have fits: "\<forall>p\<in>set ps. length (cli_info (snd p)) \<le> 21 \<and> length (cli_name (snd p)) \<le> mx"
    using assms(3) foldl_max [of _ "map (\<lambda>p. length (cli_name (snd p))) ps" 0]
    by (auto simp: ps_def mx_def name_width_def)
  have n: "length ps = n" using assms(1) by (simp add: ps_def)
  have t12: "Option.bind (write_at (replicate size None) 0 (replicate (mx + 25) (CHR ''-''))) (\<lambda>t. write_at t (mx + 24) [LF])
      = Some (map Some (rule_line mx) @ replicate ((mx + 25) * (n + 1)) None)"
    by (simp add: write_at_def size_def rule_line_def algebra_simps map_replicate_const)
  obtain tail where t3: "who_rows (mx + 25) mx me 1 ps (map Some (rule_line mx) @ replicate ((mx + 25) * (n + 1)) None) =
      Some (map Some body @ tail)" and tail: "length tail = mx + 25"
    using who_rows_fill [OF fits, of "rule_line mx" 1 "replicate ((mx + 25) * (n + 1)) None" me] n
    by (auto simp: body_def rule_line_def)
  have len_body: "length body = (mx + 25) * (n + 1)"
  proof -
    have "length (concat (map (who_row mx me) ps)) = (mx + 25) * length ps"
      using fits by (induction ps) (auto simp: length_who_row)
    then show ?thesis by (simp add: body_def rule_line_def n)
  qed
  have t4: "write_at (map Some body @ tail) (size - (mx + 25)) (replicate (mx + 25) (CHR ''-''))
      = Some (map Some (body @ replicate (mx + 25) (CHR ''-'')))"
    using len_body tail by (subst write_at_tail) (simp_all add: size_def)
  have t5: "write_at (map Some (body @ replicate (mx + 25) (CHR ''-''))) (size - 1) [LF] = Some (map Some (body @ rule_line mx))"
    using len_body by (simp add: write_at_def size_def rule_line_def algebra_simps map_replicate_const)
  have sz: "(mx + 25) * nat (clicnt st + 2) = size" by (simp add: assms(2) size_def nat_add_distrib)
  have len: "2 + mx + 22 + 1 = mx + 25" "mx + 25 - 1 = mx + 24" by simp_all
  have "who_table ord me st = (let len = 2 + mx + 22 + 1; size = len * nat (clicnt st + 2) in do {
      t2 \<leftarrow> Option.bind (write_at (replicate size None) 0 (replicate len (CHR ''-''))) (\<lambda>t. write_at t (len - 1) [LF]);
      t3 \<leftarrow> who_rows len mx me 1 ps t2;
      t4 \<leftarrow> write_at t3 (size - len) (replicate len (CHR ''-''));
      t5 \<leftarrow> write_at t4 (size - 1) [LF];
      if None \<in> set t5 then None else Some (map the t5) })"
    by (simp only: who_table_def Let_def mx_def name_width_def ps_def listed_def Option.bind_assoc)
  also have "\<dots> = Some (body @ rule_line mx)"
    unfolding Let_def len sz t12 by (simp only: bind.bind_lunit t3 t4 t5) (auto simp: comp_def)
  finally show ?thesis by (simp add: body_def mx_def ps_def)
qed

section \<open>Within the bounds\<close>

definition chat_wf :: "Chat \<Rightarrow> bool" where
  "chat_wf st \<longleftrightarrow> um_wf (cliinfo st) \<and> clicnt st = int (length (cliinfo st)) \<and> length (timebuf st) < 20 \<and>
     (\<forall>p\<in>set (cliinfo st). length (cli_name (snd p)) \<le> 500 \<and> length (cli_info (snd p)) \<le> 21)"

text \<open>A \<^verbatim>\<open>/name\<close> with nothing but line breaks behind it.\<close>

definition blank_name :: "char list \<Rightarrow> bool" where
  "blank_name data \<longleftrightarrow> (let buf = read_buf CHAT_LINE data in hd buf = CHR ''/'' \<and> length data > 7 \<and>
     strtok_first [CHR '' '', LF] buf = Some (Some ''/name'') \<and> strtok_first [LF] (drop 6 buf) = Some None)"

definition chat_guard :: "(nat list \<Rightarrow> nat list) \<Rightarrow> Chat \<Rightarrow> chat_event \<Rightarrow> bool" where
  "chat_guard ord st ev \<longleftrightarrow> fair ord \<and>
     (case ev of Wake t \<Rightarrow> length t < 20
      | Connect fd info rs stray \<Rightarrow> um_find (cliinfo st) fd = None \<and> length (cliinfo st) < 999999999 \<and>
          length info \<le> 21 \<and> length rs = 7 \<and> length stray \<le> 400
      | Receive fd data \<Rightarrow> um_find (cliinfo st) fd \<noteq> None \<and> length data \<le> 500 \<and> \<not> blank_name data
      | Child i \<Rightarrow> True
      | Refused i \<Rightarrow> True)"

lemma msg2log_ok:
  assumes "length now < 20" and "length msg < 1024" and "case w of None \<Rightarrow> True | Some n \<Rightarrow> length n < 510"
  shows "msg2log now w msg = Some (now @ '' '' @ (case w of None \<Rightarrow> ''***'' | Some n \<Rightarrow> ''<'' @ n @ ''>'') @ '' '' @ msg @ [LF])"
  using assms by (auto simp: msg2log_def CHAT_LINE_def Let_def split: option.splits)

lemma sendexp_ok:
  assumes "length (timebuf st) < 20" and "length msg < 1024" and "case w of None \<Rightarrow> True | Some n \<Rightarrow> length n < 510"
  shows "sendexp ord skip w msg st = Some (st\<lparr>forked := forked st @ [map
     (\<lambda>fd. (fd, timebuf st @ '' '' @ (case w of None \<Rightarrow> ''***'' | Some n \<Rightarrow> ''<'' @ n @ ''>'') @ '' '' @ msg @ [LF]))
     (filter (\<lambda>fd. fd \<noteq> skip) (ord (um_keys (cliinfo st))))]\<rparr>)"
  unfolding sendexp_def msg2log_ok [OF assms] by simp

lemma sendexp_some:
  assumes "length (timebuf st) < 20" and "length msg < 1024" and "case w of None \<Rightarrow> True | Some n \<Rightarrow> length n < 510"
  shows "\<exists>sends. sendexp ord skip w msg st = Some (st\<lparr>forked := forked st @ sends\<rparr>)"
  using sendexp_ok [OF assms] by (rule exI)

lemma chat_wf_forked: "chat_wf (st\<lparr>forked := x\<rparr>) = chat_wf st"
  by (simp add: chat_wf_def)

lemma chat_wf_sendstr: "chat_wf (chat_sendstr fd m st) = chat_wf st"
  by (simp add: chat_wf_def chat_sendstr_def)

lemma length_messages [simp]:
  "length (landed n) = length n + 37" "length (has_left n) = length n + 27" "length (nick_changed n) = length n + 22"
  "length (renamed n n') = length n + length n' + 21" "length (unknown_cmd t) = length t + 32"
  "length (greeting k n) = length (show_int k) + length n + 74"
  by (simp_all add: landed_def has_left_def nick_changed_def renamed_def unknown_cmd_def greeting_def)

lemma chat_wf_find: "chat_wf st \<Longrightarrow> um_find (cliinfo st) fd = Some c \<Longrightarrow> length (cli_name c) \<le> 500 \<and> length (cli_info c) \<le> 21"
  using um_find_in_set by (fastforce simp: chat_wf_def)

lemma chat_wf_rename:
  assumes "chat_wf st" and "length name \<le> 500" and "um_find (cliinfo st) fd = Some c"
  shows "chat_wf (st\<lparr>cliinfo := um_assign fd (c\<lparr>cli_name := name\<rparr>) (cliinfo st)\<rparr>)"
proof -
  let ?m = "um_assign fd (c\<lparr>cli_name := name\<rparr>) (cliinfo st)"
  have "length (cli_name (snd p)) \<le> 500 \<and> length (cli_info (snd p)) \<le> 21" if "p \<in> set ?m" for p
    using set_um_assign [OF that] chat_wf_find [OF assms(1,3)] assms(1,2) by (auto simp: chat_wf_def)
  moreover have "um_wf ?m" "length ?m = length (cliinfo st)"
    using assms(1) by (simp add: chat_wf_def um_laws, simp add: um_assign_def)
  ultimately show ?thesis using assms(1) by (simp add: chat_wf_def)
qed

lemma who_defined:
  assumes "chat_wf st" and "fair ord"
  shows "who_table ord me st = Some (rule_line (name_width ord st) @
    concat (map (who_row (name_width ord st) me) (listed ord st)) @ rule_line (name_width ord st))"
proof (rule who_filled)
  have m: "mset (ord (um_keys (cliinfo st))) = mset (um_keys (cliinfo st))" using assms(2) by (simp add: fair_def)
  then show "length (listed ord st) = length (cliinfo st)"
    unfolding listed_def by (metis length_map size_mset um_keys_def)
  show "clicnt st = int (length (cliinfo st))" using assms(1) by (simp add: chat_wf_def)
  show "\<forall>p\<in>set (listed ord st). length (cli_info (snd p)) \<le> 21"
  proof
    fix p assume "p \<in> set (listed ord st)"
    then obtain fd where fd: "fd \<in> set (ord (um_keys (cliinfo st)))" "p = (fd, the (um_find (cliinfo st) fd))"
      by (auto simp: listed_def)
    then have "fd \<in> set (um_keys (cliinfo st))" using m by (metis set_mset_mset)
    then obtain c where "um_find (cliinfo st) fd = Some c" by (auto simp: um_keys_find)
    then show "length (cli_info (snd p)) \<le> 21" using chat_wf_find [OF assms(1)] fd(2) by simp
  qed
qed

lemma read_buf_data: "length data < CHAT_LINE \<Longrightarrow> NUL \<in> set (drop 6 (read_buf CHAT_LINE data))"
  by (simp add: read_buf_def CHAT_LINE_def)

lemma token_length:
  assumes "strtok_first delims buf = Some (Some t)" and "buf = data @ replicate n NUL" and "NUL \<notin> set delims"
  shows "length t \<le> length data"
proof -
  define s where "s = dropWhile (\<lambda>c. c \<in> set delims) buf"
  have t: "t = takeWhile (\<lambda>c. c \<notin> set delims \<and> c \<noteq> NUL) s"
    using assms(1) by (auto simp: strtok_first_def Let_def s_def split: if_splits)
  have "length (takeWhile (\<lambda>c. c \<notin> set delims \<and> c \<noteq> NUL) (dropWhile (\<lambda>c. c \<in> set delims) (data @ replicate n NUL))) \<le> length data"
  proof (induction data)
    case Nil
    then show ?case using assms(3) by (cases n) auto
  next
    case (Cons c data)
    have "length (takeWhile P (xs @ replicate n NUL)) \<le> length xs" if "\<not> P NUL" for P and xs :: string
      using that by (induction xs) (cases n; auto)+
    from this [of "\<lambda>c. c \<notin> set delims \<and> c \<noteq> NUL" data] show ?case using Cons by auto
  qed
  then show ?thesis by (simp add: t s_def assms(2))
qed

lemma chat_gone_ok:
  assumes "chat_wf st" and "um_find (cliinfo st) fd = Some c"
  shows "\<exists>st'. chat_gone ord fd c st = Some st' \<and> chat_wf st'"
proof -
  have "length (cli_name c) \<le> 500" using chat_wf_find [OF assms] by simp
  moreover have "chat_wf (st\<lparr>clicnt := clicnt st - 1, cliinfo := um_erase fd (cliinfo st)\<rparr>)"
    using assms length_um_erase [of "cliinfo st" fd c] by (auto simp: chat_wf_def um_laws) (auto simp: um_erase_def)
  moreover have "length (timebuf st) < 20" using assms(1) by (simp add: chat_wf_def)
  ultimately show ?thesis unfolding chat_gone_def
    using sendexp_some [of "st\<lparr>clicnt := clicnt st - 1, cliinfo := um_erase fd (cliinfo st)\<rparr>" "has_left (cli_name c)" None ord fd]
    by (auto simp: chat_wf_forked)
qed

lemma chat_new_client_ok:
  assumes "chat_wf st" and "um_find (cliinfo st) fd = None" and "length (cliinfo st) < 999999999"
    and "length info \<le> 21" and "length rs = 7" and "length stray \<le> 400"
  shows "\<exists>st'. chat_new_client ord fd info rs stray st = Some st' \<and> chat_wf st'"
proof -
  let ?name = "randstr rs stray"
  have name: "length ?name \<le> 407" using assms(5,6) by (simp add: randstr_def)
  have now: "length (timebuf st) < 20" and cnt: "clicnt st = int (length (cliinfo st))" using assms(1) by (auto simp: chat_wf_def)
  have digits: "length (show_int (clicnt st + 1)) \<le> 9"
    using length_show_nat [of "length (cliinfo st) + 1" 8] assms(3) by (simp add: cnt show_int_def nat_add_distrib)
  have wf: "um_wf (cliinfo st @ [(fd, x)])" for x
    using assms(1,2) by (auto simp: chat_wf_def um_wf_def um_keys_def um_find_def map_of_eq_None_iff)
  obtain sends where st2: "sendexp ord fd None (landed ?name) (st\<lparr>clicnt := clicnt st + 1\<rparr>)
      = Some (st\<lparr>clicnt := clicnt st + 1, forked := forked st @ sends\<rparr>)"
    using sendexp_some [of "st\<lparr>clicnt := clicnt st + 1\<rparr>" "landed ?name" None ord fd] now name by auto
  let ?st2 = "st\<lparr>clicnt := clicnt st + 1, forked := forked st @ sends\<rparr>"
  obtain msg where "msg2log (timebuf st) None (greeting (clicnt st + 1) ?name) = Some msg"
    using msg2log_ok [OF now, of "greeting (clicnt st + 1) ?name" None] name digits by auto
  then have "chat_new_client ord fd info rs stray st
      = Some (chat_sendstr fd msg (?st2\<lparr>cliinfo := cliinfo st @ [(fd, \<lparr>cli_name = ?name, cli_info = info\<rparr>)]\<rparr>))"
    using assms(2) by (simp add: chat_new_client_def Let_def st2 um_put_fresh)
  moreover have "chat_wf (?st2\<lparr>cliinfo := cliinfo st @ [(fd, \<lparr>cli_name = ?name, cli_info = info\<rparr>)]\<rparr>)"
    using assms(1,4) name wf by (auto simp: chat_wf_def)
  ultimately show ?thesis by (simp add: chat_wf_sendstr)
qed

lemma chat_rename_ok:
  assumes "chat_wf st" and "um_find (cliinfo st) fd = Some c" and "length name \<le> 494"
  shows "\<exists>st'. chat_rename ord fd c name st = Some st' \<and> chat_wf st'"
proof -
  have now: "length (timebuf st) < 20" and c: "length (cli_name c) \<le> 500"
    using assms(1) chat_wf_find [OF assms(1,2)] by (simp_all add: chat_wf_def)
  obtain msg where msg: "msg2log (timebuf st) None (nick_changed name) = Some msg"
    using msg2log_ok [OF now, of "nick_changed name" None] assms(3) by auto
  obtain sends where "sendexp ord fd None (renamed (cli_name c) name) (chat_sendstr fd msg st)
      = Some (chat_sendstr fd msg st\<lparr>forked := forked st @ sends\<rparr>)"
    using sendexp_some [of "chat_sendstr fd msg st" "renamed (cli_name c) name" None ord fd] now assms(3) c
    by (auto simp: chat_sendstr_def)
  moreover have "chat_wf (chat_sendstr fd msg st\<lparr>forked := forked st @ sends, cliinfo := um_assign fd (c\<lparr>cli_name := name\<rparr>) (cliinfo st)\<rparr>)"
    using chat_wf_rename [of "chat_sendstr fd msg st\<lparr>forked := forked st @ sends\<rparr>" name fd c] assms
    by (simp add: chat_wf_forked chat_wf_sendstr) (simp add: chat_sendstr_def)
  ultimately show ?thesis using msg by (simp add: chat_rename_def) (simp add: chat_sendstr_def)
qed

text \<open>What \<^verbatim>\<open>strtok\<close> finds in the zeroed buffer of a short read.\<close>

lemma token_in_buf:
  assumes "length data \<le> 500" and "NUL \<notin> set delims"
  shows "strtok_first delims (read_buf CHAT_LINE data) = Some None \<or>
    (\<exists>t. strtok_first delims (read_buf CHAT_LINE data) = Some (Some t) \<and> length t \<le> 500)"
proof -
  have "NUL \<in> set (read_buf CHAT_LINE data)" using assms(1) by (simp add: read_buf_def CHAT_LINE_def)
  then show ?thesis
    using strtok_first_cases [OF _ assms(2)] token_length [of delims _ _ data "CHAT_LINE - length data"] assms
    by (fastforce simp: read_buf_def)
qed

lemma name_in_buf:
  assumes "length data \<le> 500"
  shows "strtok_first [LF] (drop 6 (read_buf CHAT_LINE data)) = Some None \<or>
    (\<exists>t. strtok_first [LF] (drop 6 (read_buf CHAT_LINE data)) = Some (Some t) \<and> length t \<le> 494)"
proof -
  have buf: "drop 6 (read_buf CHAT_LINE data) = drop 6 data @ replicate (1024 - length data - (6 - length data)) NUL"
    by (simp add: read_buf_def CHAT_LINE_def)
  have "length t \<le> 494" if "strtok_first [LF] (drop 6 (read_buf CHAT_LINE data)) = Some (Some t)" for t
    using token_length [OF that buf] assms by simp
  moreover have "NUL \<in> set (drop 6 (read_buf CHAT_LINE data))"
    using assms by (intro read_buf_data) (simp add: CHAT_LINE_def)
  ultimately show ?thesis using strtok_first_cases [of "drop 6 (read_buf CHAT_LINE data)" "[LF]"] by auto
qed

lemma chat_command_ok:
  assumes "chat_wf st" and "fair ord" and "um_find (cliinfo st) fd = Some c" and "length data \<le> 500"
    and "hd (read_buf CHAT_LINE data) = CHR ''/''"
  shows "if blank_name data then chat_command ord fd c (read_buf CHAT_LINE data) (length data) st = None
    else \<exists>st'. chat_command ord fd c (read_buf CHAT_LINE data) (length data) st = Some st' \<and> chat_wf st'"
proof -
  let ?buf = "read_buf CHAT_LINE data"
  have now: "length (timebuf st) < 20" using assms(1) by (simp add: chat_wf_def)
  have "?buf \<noteq> []" by (simp add: read_buf_def CHAT_LINE_def)
  then have "dropWhile (\<lambda>c. c \<in> set [CHR '' '', LF]) ?buf = ?buf" using assms(5) by (cases ?buf) auto
  then have "strtok_first [CHR '' '', LF] ?buf \<noteq> Some None"
    using assms(5) \<open>?buf \<noteq> []\<close> by (simp add: strtok_first_def Let_def)
  then obtain t where t: "strtok_first [CHR '' '', LF] ?buf = Some (Some t)" "length t \<le> 500"
    using token_in_buf [OF assms(4), of "[CHR '' '', LF]"] by auto
  obtain msg where unknown: "msg2log (timebuf st) None (unknown_cmd t) = Some msg"
    using msg2log_ok [OF now, of "unknown_cmd t" None] t(2) by auto
  show ?thesis
  proof (cases "t = ''/name'' \<and> length data > 7")
    case True
    then have "t \<noteq> ''/exit''" by auto
    from name_in_buf [OF assms(4)] show ?thesis
    proof
      assume "strtok_first [LF] (drop 6 ?buf) = Some None"
      then show ?thesis using True t assms(5) by (simp add: chat_command_def blank_name_def)
    next
      assume "\<exists>t. strtok_first [LF] (drop 6 ?buf) = Some (Some t) \<and> length t \<le> 494"
      then obtain nm where nm: "strtok_first [LF] (drop 6 ?buf) = Some (Some nm)" "length nm \<le> 494" by auto
      then show ?thesis using chat_rename_ok [OF assms(1,3) nm(2), of ord] True t
        by (simp add: chat_command_def blank_name_def)
    qed
  next
    case False
    then have "\<not> blank_name data" using t by (auto simp: blank_name_def Let_def)
    moreover have "\<exists>st'. chat_command ord fd c ?buf (length data) st = Some st' \<and> chat_wf st'"
      using False t unknown assms(1) who_defined [OF assms(1,2), of fd]
      by (auto simp: chat_command_def chat_who_def chat_wf_forked chat_wf_sendstr) (simp_all add: chat_wf_def)
    ultimately show ?thesis by simp
  qed
qed

lemma chat_talk_ok:
  assumes "chat_wf st" and "um_find (cliinfo st) fd = Some c" and "length data \<le> 500"
  shows "\<exists>st'. chat_talk ord fd c (read_buf CHAT_LINE data) st = Some st' \<and> chat_wf st'"
proof -
  have now: "length (timebuf st) < 20" and c: "length (cli_name c) \<le> 500"
    using assms(1) chat_wf_find [OF assms(1,2)] by (simp_all add: chat_wf_def)
  from token_in_buf [OF assms(3), of "[LF]"]
  have "strtok_first [LF] (read_buf CHAT_LINE data) = Some None \<or>
    (\<exists>t. strtok_first [LF] (read_buf CHAT_LINE data) = Some (Some t) \<and> length t \<le> 500)" by simp
  then show ?thesis
  proof (elim disjE exE conjE)
    fix t assume "strtok_first [LF] (read_buf CHAT_LINE data) = Some (Some t)" "length t \<le> 500"
    then show ?thesis using sendexp_some [OF now, of t "Some (cli_name c)" ord fd] c assms(1)
      by (auto simp: chat_talk_def chat_wf_forked)
  qed (simp add: chat_talk_def assms(1))
qed

lemma chat_input_ok:
  assumes "chat_wf st" and "fair ord" and "um_find (cliinfo st) fd \<noteq> None" and "length data \<le> 500"
  shows "if blank_name data then chat_client_input ord fd data st = None
    else \<exists>st'. chat_client_input ord fd data st = Some st' \<and> chat_wf st'"
proof -
  obtain c where c: "um_find (cliinfo st) fd = Some c" using assms(3) by auto
  have blank: "blank_name data \<Longrightarrow> data \<noteq> [] \<and> hd (read_buf CHAT_LINE data) = CHR ''/''"
    by (auto simp: blank_name_def Let_def)
  show ?thesis
    using blank chat_gone_ok [OF assms(1) c, of ord] chat_command_ok [OF assms(1,2) c assms(4)] chat_talk_ok [OF assms(1) c assms(4), of ord]
    by (cases "data = []"; cases "hd (read_buf CHAT_LINE data) = CHR ''/''") (auto simp: chat_client_input_def c Let_def)
qed

lemma child_send_same:
  "cliinfo (child_send i st) = cliinfo st" "clicnt (child_send i st) = clicnt st"
  "timebuf (child_send i st) = timebuf st" "ended (child_send i st) = ended st"
  by (auto simp: child_send_def chat_sendstr_def split: list.splits)

lemma child_refused_same:
  "cliinfo (child_refused i st) = cliinfo st" "clicnt (child_refused i st) = clicnt st"
  "timebuf (child_refused i st) = timebuf st" "ended (child_refused i st) = ended st"
  by (simp_all add: child_refused_def)

lemma chat_step_ok:
  assumes "chat_wf st" and "chat_guard ord st ev"
  shows "\<exists>st'. chat_step ord st ev = Some st' \<and> chat_wf st'"
proof (cases "ended st")
  case True
  then show ?thesis using assms(1)
    by (cases ev) (auto simp: chat_step_def chat_wf_def child_send_same child_refused_same)
next
  case False
  show ?thesis
  proof (cases ev)
    case (Wake t)
    then show ?thesis using assms False by (simp add: chat_step_def chat_guard_def chat_wf_def)
  next
    case (Connect fd info rs stray)
    then show ?thesis using assms(2) False chat_new_client_ok [OF assms(1), of fd info rs stray ord]
      by (simp add: chat_step_def chat_guard_def)
  next
    case (Receive fd data)
    then show ?thesis using assms(2) False chat_input_ok [OF assms(1), of ord fd data]
      by (simp add: chat_step_def chat_guard_def)
  next
    case (Child i)
    then show ?thesis using assms(1) by (simp add: chat_step_def chat_wf_def child_send_same)
  next
    case (Refused i)
    then show ?thesis using assms(1) by (simp add: chat_step_def chat_wf_def child_refused_same)
  qed
qed

interpretation chat: event_loop "chat_step ord" "chat_guard ord" chat_wf for ord
  by unfold_locales (rule chat_step_ok)

lemma chat_wf_init: "chat_wf chat_init"
  by (simp add: chat_wf_def chat_init_def)

lemmas chat_run = chat.run_total [OF chat_wf_init]

text \<open>
  Within the bounds (reads of at most 500 bytes, addresses of at most 21, at most 400 stray bytes
  behind a random name) and without a blank \<^verbatim>\<open>/name\<close>, the chat server never leaves its buffers and its
  counter is the number of its clients, whatever the events and the order of its hash table.
\<close>

theorem chat_server_defined:
  assumes "admitted (chat_step ord) (chat_guard ord) chat_init es"
  shows "\<exists>st. run_opt (chat_step ord) chat_init es = Some st \<and> clicnt st = int (length (cliinfo st)) \<and> chat_wf st"
  using chat_run [OF assms] by (auto simp: chat_wf_def)

text \<open>
  C40. The bound is sharp where it is about input: for a short read from a client, the server's
  behaviour is undefined exactly when the read is a \<^verbatim>\<open>/name\<close> followed by line breaks only.
\<close>

theorem chat_input_undefined_iff:
  assumes "admitted (chat_step ord) (chat_guard ord) chat_init es" and "run_opt (chat_step ord) chat_init es = Some st"
    and "fair ord" and "\<not> ended st" and "um_find (cliinfo st) fd \<noteq> None" and "length data \<le> 500"
  shows "chat_step ord st (Receive fd data) = None \<longleftrightarrow> blank_name data"
proof -
  have "chat_wf st" using chat_run [OF assms(1)] assms(2) by auto
  then show ?thesis using chat_input_ok [OF _ assms(3,5,6)] assms(4) by (cases "blank_name data") (auto simp: chat_step_def)
qed

text \<open>
  C39. The table of \<^verbatim>\<open>/who\<close> in every state the server reaches: it fits its memory to the byte, with every
  client exactly once between two rules, and a star before the client who asks.
\<close>

theorem who_table_exact:
  assumes "admitted (chat_step ord) (chat_guard ord) chat_init es" and "run_opt (chat_step ord) chat_init es = Some st"
    and "fair ord"
  shows "who_table ord me st = Some (rule_line (name_width ord st) @
      concat (map (who_row (name_width ord st) me) (listed ord st)) @ rule_line (name_width ord st)) \<and>
    mset (map fst (listed ord st)) = mset (um_keys (cliinfo st))"
proof
  have "chat_wf st" using chat_run [OF assms(1)] assms(2) by auto
  then show "who_table ord me st = Some (rule_line (name_width ord st) @
      concat (map (who_row (name_width ord st) me) (listed ord st)) @ rule_line (name_width ord st))"
    using assms(3) by (rule who_defined)
  show "mset (map fst (listed ord st)) = mset (um_keys (cliinfo st))"
    using assms(3) by (simp add: listed_def fair_def comp_def)
qed

section \<open>Delivery\<close>

text \<open>What has been sent and what the children have still to send.\<close>

definition due :: "Chat \<Rightarrow> (nat \<times> string) multiset" where
  "due st = mset (chat_sent st) + mset (concat (forked st))"

lemma mset_concat_update:
  "i < length xs \<Longrightarrow> xs ! i = x # r \<Longrightarrow> mset (concat xs) = add_mset x (mset (concat (xs[i := r])))"
  by (induction xs arbitrary: i) (auto split: nat.splits simp: nth_Cons')

lemma child_send_due: "due (child_send i st) = due st"
  by (auto simp: due_def child_send_def chat_sendstr_def mset_concat_update split: list.splits)

lemma children_run:
  "run_opt (chat_step ord) st (map Child is) = Some st' \<Longrightarrow> due st' = due st \<and> cliinfo st' = cliinfo st"
  by (induction "is" arbitrary: st) (auto simp: chat_step_def child_send_due child_send_same)

text \<open>A line that is talk, what becomes of it, and who gets it.\<close>

definition sayable :: "string \<Rightarrow> bool" where
  "sayable said \<longleftrightarrow> said \<noteq> [] \<and> hd said \<noteq> CHR ''/'' \<and> list_all (\<lambda>ch. ch \<noteq> LF \<and> ch \<noteq> NUL) said \<and> length said < CHAT_LINE"

definition chat_line :: "Chat \<Rightarrow> ChatClient \<Rightarrow> string \<Rightarrow> string" where
  "chat_line st c said = timebuf st @ '' <'' @ cli_name c @ ''> '' @ said @ [LF]"

definition others :: "(nat list \<Rightarrow> nat list) \<Rightarrow> nat \<Rightarrow> Chat \<Rightarrow> nat list" where
  "others ord fd st = filter (\<lambda>k. k \<noteq> fd) (ord (um_keys (cliinfo st)))"

lemma talk_step:
  assumes "chat_wf st" and "\<not> ended st" and "um_find (cliinfo st) fd = Some c" and "sayable said"
  shows "chat_step ord st (Receive fd (said @ LF # rest)) =
    Some (st\<lparr>forked := forked st @ [map (\<lambda>k. (k, chat_line st c said)) (others ord fd st)]\<rparr>)"
proof -
  have said: "said \<noteq> []" "hd said \<noteq> CHR ''/''" "\<forall>ch\<in>set said. ch \<noteq> LF \<and> ch \<noteq> NUL" "length said < 1024"
    using assms(4) by (auto simp: sayable_def list_all_iff CHAT_LINE_def)
  have buf: "read_buf CHAT_LINE (said @ LF # rest) = said @ LF # (rest @ replicate (CHAT_LINE - length (said @ LF # rest)) NUL)"
    by (simp add: read_buf_def)
  have tok: "strtok_first [LF] (read_buf CHAT_LINE (said @ LF # rest)) = Some (Some said)"
    unfolding buf using said by (intro strtok_first_token) auto
  have hd: "hd (read_buf CHAT_LINE (said @ LF # rest)) \<noteq> CHR ''/''"
    unfolding buf using said by (cases said) auto
  have "sendexp ord fd (Some (cli_name c)) said st = Some (st\<lparr>forked := forked st @ [map
      (\<lambda>k. (k, chat_line st c said)) (others ord fd st)]\<rparr>)"
    using sendexp_ok [of st said "Some (cli_name c)" ord fd] assms(1) said(4) chat_wf_find [OF assms(1,3)]
    by (simp add: chat_wf_def chat_line_def others_def)
  then show ?thesis using assms(2,3) tok hd by (simp add: chat_step_def chat_client_input_def chat_talk_def Let_def)
qed

text \<open>
  C38. A line of chat: once the children are through, in whatever order they ran, and when no process and
  no call of \<^verbatim>\<open>send\<close> has failed (there is no \<open>Refused\<close> among the events), what has been sent is
  what was due before and one copy of the line, with the time and the speaker's name, to every other
  client, and none to the speaker.
\<close>

theorem chat_delivery:
  assumes "chat_wf st" and "fair ord" and "\<not> ended st" and "um_find (cliinfo st) fd = Some c" and "sayable said"
    and "run_opt (chat_step ord) st (Receive fd (said @ LF # rest) # map Child is) = Some st'"
    and "concat (forked st') = []"
  shows "mset (chat_sent st') = due st +
    image_mset (\<lambda>k. (k, chat_line st c said)) (filter_mset (\<lambda>k. k \<noteq> fd) (mset (um_keys (cliinfo st))))"
proof -
  have "due st' = due (st\<lparr>forked := forked st @ [map (\<lambda>k. (k, chat_line st c said)) (others ord fd st)]\<rparr>)"
    using assms(6) children_run by (fastforce simp: talk_step [OF assms(1,3-5)])
  moreover have "due st' = mset (chat_sent st')" using assms(7) by (simp add: due_def)
  ultimately show ?thesis using assms(2) by (simp add: due_def fair_def others_def mset_filter add.assoc)
qed

text \<open>A child that runs until it has sent everything.\<close>

lemma child_drain:
  "n < length (forked st) \<Longrightarrow> run_opt (chat_step ord) st (map Child (replicate (length (forked st ! n)) n)) =
    Some (st\<lparr>forked := (forked st)[n := []], chat_sent := chat_sent st @ forked st ! n\<rparr>)"
proof (induction "forked st ! n" arbitrary: st)
  case Nil
  then have "(forked st)[n := []] = forked st" by (metis list_update_id)
  then show ?case using Nil.hyps by (simp flip: Nil.hyps)
next
  case (Cons x xs)
  obtain k m where x: "x = (k, m)" by (cases x)
  let ?st1 = "st\<lparr>forked := (forked st)[n := xs], chat_sent := chat_sent st @ [x]\<rparr>"
  have st1: "chat_step ord st (Child n) = Some ?st1"
    using Cons.prems by (simp add: chat_step_def child_send_def x chat_sendstr_def flip: Cons.hyps(2))
  have "run_opt (chat_step ord) ?st1 (map Child (replicate (length (forked ?st1 ! n)) n)) =
      Some (?st1\<lparr>forked := (forked ?st1)[n := []], chat_sent := chat_sent ?st1 @ forked ?st1 ! n\<rparr>)"
    using Cons.prems by (intro Cons.hyps(1)) simp_all
  then show ?case using Cons.prems st1 by (simp flip: Cons.hyps(2))
qed

text \<open>
  Lines may overtake each other: each is sent by a process of its own, and whoever says two lines,
  there is a way in which the processes may run such that all others get the second before the first.
\<close>

theorem chat_overtakes:
  assumes "chat_wf st" and "\<not> ended st" and "um_find (cliinfo st) fd = Some c" and "sayable one" and "sayable two"
  shows "\<exists>is st'. run_opt (chat_step ord) st (Receive fd (one @ [LF]) # Receive fd (two @ [LF]) # map Child is) = Some st' \<and>
    chat_sent st' = chat_sent st @ map (\<lambda>k. (k, chat_line st c two)) (others ord fd st)
      @ map (\<lambda>k. (k, chat_line st c one)) (others ord fd st)"
proof -
  let ?m = "length (forked st)" and ?send = "\<lambda>said. map (\<lambda>k. (k, chat_line st c said)) (others ord fd st)"
  let ?st1 = "st\<lparr>forked := forked st @ [?send one]\<rparr>"
  let ?st2 = "st\<lparr>forked := forked st @ [?send one, ?send two]\<rparr>"
  let ?st3 = "st\<lparr>forked := forked st @ [?send one, []], chat_sent := chat_sent st @ ?send two\<rparr>"
  have "chat_step ord ?st1 (Receive fd (two @ LF # [])) = Some ?st2"
    using talk_step [of ?st1 fd c two ord "[]"] assms(1-3,5) by (simp add: chat_wf_forked chat_line_def others_def)
  moreover have "chat_step ord st (Receive fd (one @ LF # [])) = Some ?st1"
    by (rule talk_step [OF assms(1-4)])
  moreover have "run_opt (chat_step ord) ?st2 (map Child (replicate (length (?send two)) (?m + 1))) = Some ?st3"
    using child_drain [of "?m + 1" ?st2 ord] by (simp add: nth_append list_update_append)
  moreover have "run_opt (chat_step ord) ?st3 (map Child (replicate (length (?send one)) ?m)) =
      Some (?st3\<lparr>forked := (forked ?st3)[?m := []], chat_sent := chat_sent ?st3 @ ?send one\<rparr>)"
    using child_drain [of ?m ?st3 ord] by (simp add: nth_append)
  ultimately have "run_opt (chat_step ord) st (Receive fd (one @ [LF]) # Receive fd (two @ [LF]) #
      map Child (replicate (length (?send two)) (?m + 1) @ replicate (length (?send one)) ?m)) =
      Some (?st3\<lparr>forked := (forked ?st3)[?m := []], chat_sent := chat_sent ?st3 @ ?send one\<rparr>)"
    by (simp only: run_opt.simps option.case map_append run_opt_append bind.bind_lunit)
  then show ?thesis by (intro exI conjI) (assumption, simp)
qed

end
