(* ===== verification/ChatRuns.thy ===== *)
theory ChatRuns
  imports ChatCorrect
begin

text \<open>Concrete runs of the chat server: the properties applied, and a run in which two lines overtake each other.\<close>

definition as_is :: "nat list \<Rightarrow> nat list" where
  "as_is xs = xs"

lemma fair_as_is: "fair as_is"
  by (simp add: fair_def as_is_def)

definition meet :: "chat_event list" where
  "meet = [Wake ''t'', Connect 5 ''x'' [0, 0, 0, 0, 0, 0, 0] [], Connect 6 ''y'' [2, 2, 2, 2, 2, 2, 2] []]"

definition met :: Chat where
  "met = \<lparr>timebuf = ''t'', clicnt = 2,
     cliinfo = [(5, \<lparr>cli_name = ''aaaaaaa'', cli_info = ''x''\<rparr>), (6, \<lparr>cli_name = ''ccccccc'', cli_info = ''y''\<rparr>)],
     forked = [[], [(5, ''t *** User <ccccccc> has just landed on the server'' @ [LF])]],
     chat_sent = [(5, ''t *** '' @ greeting 1 ''aaaaaaa'' @ [LF]), (6, ''t *** '' @ greeting 2 ''ccccccc'' @ [LF])],
     ended = False\<rparr>"

lemma update_numeral [simp]: "(x # xs)[numeral v := y] = x # xs[pred_numeral v := y]"
  by (simp add: numeral_eq_Suc)

lemma show_small: "show_int 1 = ''1''" "show_int 2 = ''2''"
  by (simp_all add: show_int_def show_nat.simps digit_char_def char_of_def bit_0)

lemma names: "randstr [0, 0, 0, 0, 0, 0, 0] [] = ''aaaaaaa''" "randstr [2, 2, 2, 2, 2, 2, 2] [] = ''ccccccc''"
  by (simp_all add: randstr_def char_of_def bit_0)

lemma meet_met: "run_opt (chat_step as_is) chat_init meet = Some met"
  by (simp add: meet_def met_def chat_step_def chat_init_def chat_new_client_def names sendexp_def msg2log_def Let_def
      CHAT_LINE_def show_small um_put_def um_assign_def um_emplace_def um_keys_def as_is_def chat_sendstr_def landed_def)

lemma meet_admitted: "admitted (chat_step as_is) (chat_guard as_is) chat_init meet"
  by (simp add: meet_def chat_guard_def fair_as_is chat_step_def chat_init_def chat_new_client_def names sendexp_def msg2log_def Let_def
      CHAT_LINE_def show_small um_put_def um_assign_def um_emplace_def um_keys_def as_is_def chat_sendstr_def landed_def)

lemma met_wf: "chat_wf met"
  using chat_run [OF meet_admitted] meet_met by simp

lemma chat_server_defined_witness:
  "run_opt (chat_step as_is) chat_init meet = Some met \<and> clicnt met = int (length (cliinfo met))"
  using chat_server_defined [OF meet_admitted] meet_met by auto

lemma chat_input_undefined_iff_witness:
  "chat_step as_is met (Receive 5 (''/name '' @ [LF, LF])) = None"
proof -
  have "blank_name (''/name '' @ [LF, LF])"
    by (simp add: blank_name_def read_buf_def CHAT_LINE_def strtok_first_def Let_def numeral_eq_Suc)
  then show ?thesis
    using chat_input_undefined_iff [OF meet_admitted meet_met fair_as_is, of 5 "''/name '' @ [LF, LF]"]
    by (simp add: met_def)
qed

lemma met_listed: "listed as_is met = [(5, \<lparr>cli_name = ''aaaaaaa'', cli_info = ''x''\<rparr>), (6, \<lparr>cli_name = ''ccccccc'', cli_info = ''y''\<rparr>)]"
  and met_width: "name_width as_is met = 7"
  by (simp_all add: name_width_def listed_def met_def as_is_def um_keys_def)

lemma who_table_exact_witness:
  "who_table as_is 6 met = Some (rule_line 7 @ ''  aaaaaaa '' @ replicate 20 (CHR '' '') @ ''x'' @ [LF] @
     ''* ccccccc '' @ replicate 20 (CHR '' '') @ ''y'' @ [LF] @ rule_line 7)"
  using who_table_exact [OF meet_admitted meet_met fair_as_is, of 6]
  by (simp add: met_listed met_width who_row_def pad_left_def pad_right_def)

text \<open>The line of the first client, and the children that deliver it.\<close>

lemma chat_delivery_witness:
  "\<exists>st. run_opt (chat_step as_is) met (Receive 5 (''hi'' @ LF # []) # map Child [2, 1]) = Some st \<and>
     mset (chat_sent st) = due met + {#(6, ''t <aaaaaaa> hi'' @ [LF])#}"
proof -
  define st where "st = met\<lparr>forked := [[], [], []], chat_sent := chat_sent met @ [(6, ''t <aaaaaaa> hi'' @ [LF]),
    (5, ''t *** User <ccccccc> has just landed on the server'' @ [LF])]\<rparr>"
  have run: "run_opt (chat_step as_is) met (Receive 5 (''hi'' @ LF # []) # map Child [2, 1]) = Some st"
    by (simp add: st_def met_def chat_step_def chat_client_input_def chat_talk_def Let_def read_buf_def CHAT_LINE_def strtok_first_def
        sendexp_def msg2log_def um_keys_def as_is_def child_send_def chat_sendstr_def)
  have "mset (chat_sent st) = due met + image_mset (\<lambda>k. (k, chat_line met \<lparr>cli_name = ''aaaaaaa'', cli_info = ''x''\<rparr> ''hi''))
      (filter_mset (\<lambda>k. k \<noteq> 5) (mset (um_keys (cliinfo met))))"
    using chat_delivery [OF met_wf fair_as_is, of 5 "\<lparr>cli_name = ''aaaaaaa'', cli_info = ''x''\<rparr>" "''hi''" "[]" "[2, 1]" st] run
    by (simp add: met_def st_def sayable_def CHAT_LINE_def)
  then show ?thesis using run by (simp add: met_def um_keys_def chat_line_def)
qed

lemma chat_overtakes_witness:
  "\<exists>is st. run_opt (chat_step as_is) met (Receive 5 (''1'' @ [LF]) # Receive 5 (''2'' @ [LF]) # map Child is) = Some st \<and>
     drop 2 (chat_sent st) = [(6, ''t <aaaaaaa> 2'' @ [LF]), (6, ''t <aaaaaaa> 1'' @ [LF])]"
proof -
  have "\<exists>is st. run_opt (chat_step as_is) met (Receive 5 (''1'' @ [LF]) # Receive 5 (''2'' @ [LF]) # map Child is) = Some st \<and>
      chat_sent st = chat_sent met @ map (\<lambda>k. (k, chat_line met \<lparr>cli_name = ''aaaaaaa'', cli_info = ''x''\<rparr> ''2'')) (others as_is 5 met)
        @ map (\<lambda>k. (k, chat_line met \<lparr>cli_name = ''aaaaaaa'', cli_info = ''x''\<rparr> ''1'')) (others as_is 5 met)"
    using met_wf by (rule chat_overtakes) (simp_all add: met_def sayable_def CHAT_LINE_def)
  then show ?thesis
    by (elim exE conjE) (intro exI conjI, assumption, simp add: met_def chat_line_def others_def as_is_def um_keys_def)
qed

end
