(* ===== verification/Throughput.thy ===== *)
theory Throughput
  imports EventLoop
begin

text \<open>
  The throughput server of lab 6 (\<^verbatim>\<open>Lab/6/How-Fast-Can-You-Deliver?/server.cpp\<close>): a command channel and
  a data sink in one event loop. Times are in microseconds (\<^verbatim>\<open>gettime\<close> adds seconds and microseconds,
  and \<^verbatim>\<open>%.6Lf\<close> prints them); how \<^verbatim>\<open>printf\<close> prints the quotient of the rate is a parameter. The events are
  what the kernel gives: the time, connections with their segment size, the bytes read. \<open>None\<close> is
  undefined behaviour.
\<close>

section \<open>State\<close>

record Tp =
  serverfd :: nat
  sinkfd :: nat
  mapping :: "(nat, nat) um"
  cnt :: "(nat, int) um"
  mss :: "(nat, int) um"
  recv_size :: int
  start_time :: int
  current_time :: int
  tp_sent :: "(nat \<times> string) list"
  exited :: bool

datatype tp_event = Poll int | Accept nat nat int | Data nat "char list"

definition TP_LINE :: nat where
  "TP_LINE = 1024"

definition MAX_DATA_LINE :: nat where
  "MAX_DATA_LINE = 65536"

definition header_size :: int where
  "header_size = 0x42"

definition tp_init :: "nat \<Rightarrow> nat \<Rightarrow> int \<Rightarrow> Tp" where
  "tp_init sv sk t0 = \<lparr>serverfd = sv, sinkfd = sk, mapping = [], cnt = [], mss = [], recv_size = 0, start_time = t0,
     current_time = 0, tp_sent = [], exited = False\<rparr>"

text \<open>\<^verbatim>\<open>operator[]\<close> on the counters: zero when there is none.\<close>

definition cnt_get :: "(nat, int) um \<Rightarrow> nat \<Rightarrow> int" where
  "cnt_get m k = (case um_find m k of None \<Rightarrow> 0 | Some v \<Rightarrow> v)"

section \<open>Operations\<close>

definition tp_new_client :: "nat \<Rightarrow> nat \<Rightarrow> int \<Rightarrow> Tp \<Rightarrow> Tp" where
  "tp_new_client listenfd connfd mss_size st =
     st\<lparr>cnt := um_put listenfd (cnt_get (cnt st) listenfd + 1) (cnt st),
        mapping := um_emplace connfd listenfd (mapping st), mss := um_emplace connfd mss_size (mss st)\<rparr>"

definition tp_del_client :: "nat \<Rightarrow> Tp \<Rightarrow> Tp option" where
  "tp_del_client connfd st =
     (case um_find (mapping st) connfd of None \<Rightarrow> None
      | Some l \<Rightarrow> Some (st\<lparr>cnt := um_put l (cnt_get (cnt st) l - 1) (cnt st), mapping := um_erase connfd (mapping st)\<rparr>))"

definition show_time :: "int \<Rightarrow> string" where
  "show_time t = (let u = nat \<bar>t\<bar>; frac = show_nat (u mod 1000000)
     in (if t < 0 then ''-'' else '''') @ show_nat (u div 1000000) @ ''.'' @ replicate (6 - length frac) (CHR ''0'') @ frac)"

definition tp_sendstr :: "nat \<Rightarrow> string \<Rightarrow> Tp \<Rightarrow> Tp" where
  "tp_sendstr fd msg st = st\<lparr>tp_sent := tp_sent st @ [(fd, show_time (current_time st) @ '' '' @ msg)]\<rparr>"

text \<open>The counter is a signed \<^verbatim>\<open>long long\<close>; a result outside of it is undefined.\<close>

definition ll_ok :: "int \<Rightarrow> bool" where
  "ll_ok x \<longleftrightarrow> - (2 ^ 63) \<le> x \<and> x < 2 ^ 63"

text \<open>One token of a read on the command channel.\<close>

definition tp_command :: "(int \<Rightarrow> int \<Rightarrow> string) \<Rightarrow> nat \<Rightarrow> string \<Rightarrow> Tp \<Rightarrow> Tp option" where
  "tp_command rate fd token st =
     (if token = ''/reset'' then
        Some ((tp_sendstr fd (''RESET '' @ show_int (recv_size st) @ [LF]) st)\<lparr>recv_size := 0, start_time := current_time st\<rparr>)
      else if token = ''/ping'' then Some (tp_sendstr fd (''PONG'' @ [LF]) st)
      else if token = ''/report'' then
        (let dt = current_time st - start_time st
         in if ll_ok (8 * recv_size st)
            then Some (tp_sendstr fd (''REPORT '' @ show_int (recv_size st) @ '' '' @ show_time dt @ ''s '' @ rate (8 * recv_size st) dt @ ''Mbps'' @ [LF]) st)
            else None)
      else if token = ''/clients'' then Some (tp_sendstr fd (''CLIENTS '' @ show_int (cnt_get (cnt st) (sinkfd st)) @ [LF]) st)
      else if token = ''/exit'' then Some (st\<lparr>exited := True\<rparr>)
      else Some st)"

fun tp_commands :: "(int \<Rightarrow> int \<Rightarrow> string) \<Rightarrow> nat \<Rightarrow> string list \<Rightarrow> Tp \<Rightarrow> Tp option" where
  "tp_commands rate fd [] st = Some st"
| "tp_commands rate fd (t # ts) st =
     (case tp_command rate fd t st of None \<Rightarrow> None
      | Some st' \<Rightarrow> if exited st' then Some st' else tp_commands rate fd ts st')"

text \<open>\<^verbatim>\<open>handle_server\<close> and \<^verbatim>\<open>handle_sink\<close>; the flag says that the connection goes on.\<close>

definition handle_server :: "(int \<Rightarrow> int \<Rightarrow> string) \<Rightarrow> nat \<Rightarrow> char list \<Rightarrow> Tp \<Rightarrow> (Tp \<times> bool) option" where
  "handle_server rate fd data st =
     (let buf = read_buf TP_LINE data
      in if data = [] then Some (st, False)
         else if NUL \<notin> set buf then None
         else map_option (\<lambda>st'. (st', True)) (tp_commands rate fd (strtok_all [LF] (cstr buf)) st))"

definition handle_sink :: "nat \<Rightarrow> char list \<Rightarrow> Tp \<Rightarrow> (Tp \<times> bool) option" where
  "handle_sink fd data st =
     (if length data > MAX_DATA_LINE then None
      else if data = [] then Some (st, False)
      else if ll_ok (recv_size st + header_size + int (length data))
      then Some (st\<lparr>recv_size := recv_size st + header_size + int (length data)\<rparr>, True) else None)"

text \<open>The size asked of \<^verbatim>\<open>read\<close> on a connection of the sink.\<close>

definition buf_size :: "Tp \<Rightarrow> nat \<Rightarrow> int" where
  "buf_size st fd = cnt_get (mss st) fd - header_size"

definition tp_input :: "(int \<Rightarrow> int \<Rightarrow> string) \<Rightarrow> nat \<Rightarrow> char list \<Rightarrow> Tp \<Rightarrow> Tp option" where
  "tp_input rate fd data st =
     (case um_find (mapping st) fd of None \<Rightarrow> None
      | Some l \<Rightarrow>
          (case (if l = serverfd st then handle_server rate fd data st else handle_sink fd data st) of None \<Rightarrow> None
           | Some (st', goes_on) \<Rightarrow> if goes_on then Some st' else tp_del_client fd st'))"

definition tp_step :: "(int \<Rightarrow> int \<Rightarrow> string) \<Rightarrow> Tp \<Rightarrow> tp_event \<Rightarrow> Tp option" where
  "tp_step rate st ev =
     (if exited st then Some st
      else case ev of
        Poll t \<Rightarrow> Some (st\<lparr>current_time := t\<rparr>)
      | Accept l fd m \<Rightarrow> Some (tp_new_client l fd m st)
      | Data fd data \<Rightarrow> tp_input rate fd data st)"

section \<open>The specification\<close>

text \<open>
  What the server promises: the open connections of either kind and the counter. There are no tables,
  no counts and no segment sizes.
\<close>

record Spec =
  sinks :: "nat list"
  controls :: "nat list"
  counter :: int
  since :: int
  now :: int
  replies :: "(nat \<times> string) list"
  stopped :: bool

definition spec_reply :: "nat \<Rightarrow> string \<Rightarrow> Spec \<Rightarrow> Spec" where
  "spec_reply fd msg s = s\<lparr>replies := replies s @ [(fd, show_time (now s) @ '' '' @ msg)]\<rparr>"

definition spec_command :: "(int \<Rightarrow> int \<Rightarrow> string) \<Rightarrow> nat \<Rightarrow> string \<Rightarrow> Spec \<Rightarrow> Spec" where
  "spec_command rate fd t s =
     (if t = ''/reset'' then (spec_reply fd (''RESET '' @ show_int (counter s) @ [LF]) s)\<lparr>counter := 0, since := now s\<rparr>
      else if t = ''/ping'' then spec_reply fd (''PONG'' @ [LF]) s
      else if t = ''/report'' then spec_reply fd (''REPORT '' @ show_int (counter s) @ '' '' @ show_time (now s - since s) @ ''s ''
        @ rate (8 * counter s) (now s - since s) @ ''Mbps'' @ [LF]) s
      else if t = ''/clients'' then spec_reply fd (''CLIENTS '' @ show_int (int (length (sinks s))) @ [LF]) s
      else if t = ''/exit'' then s\<lparr>stopped := True\<rparr> else s)"

fun spec_commands :: "(int \<Rightarrow> int \<Rightarrow> string) \<Rightarrow> nat \<Rightarrow> string list \<Rightarrow> Spec \<Rightarrow> Spec" where
  "spec_commands rate fd [] s = s"
| "spec_commands rate fd (t # ts) s =
     (let s' = spec_command rate fd t s in if stopped s' then s' else spec_commands rate fd ts s')"

definition spec_step :: "(int \<Rightarrow> int \<Rightarrow> string) \<Rightarrow> nat \<Rightarrow> Spec \<Rightarrow> tp_event \<Rightarrow> Spec" where
  "spec_step rate sk s ev =
     (if stopped s then s
      else case ev of
        Poll t \<Rightarrow> s\<lparr>now := t\<rparr>
      | Accept l fd m \<Rightarrow> if l = sk then s\<lparr>sinks := sinks s @ [fd]\<rparr> else s\<lparr>controls := controls s @ [fd]\<rparr>
      | Data fd data \<Rightarrow>
          if data = [] then s\<lparr>sinks := filter (\<lambda>k. k \<noteq> fd) (sinks s), controls := filter (\<lambda>k. k \<noteq> fd) (controls s)\<rparr>
          else if fd \<in> set (sinks s) then s\<lparr>counter := counter s + 66 + int (length data)\<rparr>
          else spec_commands rate fd (strtok_all [LF] (cstr data)) s)"

definition spec_init :: "int \<Rightarrow> Spec" where
  "spec_init t0 = \<lparr>sinks = [], controls = [], counter = 0, since = t0, now = 0, replies = [], stopped = False\<rparr>"

definition tp_abs :: "Tp \<Rightarrow> Spec" where
  "tp_abs st = \<lparr>sinks = map fst (filter (\<lambda>p. snd p = sinkfd st) (mapping st)),
     controls = map fst (filter (\<lambda>p. snd p \<noteq> sinkfd st) (mapping st)), counter = recv_size st, since = start_time st,
     now = current_time st, replies = tp_sent st, stopped = exited st\<rparr>"

end
