(* ===== verification/ThroughputCorrect.thy ===== *)
theory ThroughputCorrect
  imports Throughput
begin



















text \<open>
  The size asked of \<^verbatim>\<open>read\<close> is the one of the first connection that had the descriptor: \<^verbatim>\<open>mss\<close> is never
  erased and \<^verbatim>\<open>emplace\<close> does not overwrite.
\<close>

lemma stale_segment_size:
  "um_find (mss st) fd = Some m \<Longrightarrow> buf_size (tp_new_client l fd m' st) fd = m - header_size"
  by (simp add: buf_size_def tp_new_client_def cnt_get_def um_find_emplace)









end
