(* ===== verification/Delivery.thy ===== *)
theory Delivery
  imports ThroughputCorrect
begin

text \<open>
  The client of lab 6 (\<^verbatim>\<open>Lab/6/How-Fast-Can-You-Deliver?/client.cpp\<close>) together with the throughput
  server. The client resets the counter over its command connection, waits for the answer, writes as
  fast as it can on ten connections to the sink, and asks for a report when it is told to stop. The
  network delivers the bytes of every connection in order, in pieces of any size and at any time; a
  command, and a reply, arrives whole, alone or with the next. The server serves this client only.
\<close>

section \<open>The system\<close>















section \<open>The invariant\<close>














section \<open>The steps\<close>















section \<open>A measurement\<close>












end
