(* ===== verification/ForkClient.thy ===== *)
theory ForkClient
  imports Delivery
begin

text \<open>
  The first client of lab 6 (\<^verbatim>\<open>client-fork.cpp\<close>) against the throughput server: twenty child processes that
  write one buffer for ever, and the parent, which resets the counter, spins, and asks for the report
  when it is told to stop. The children connect to the port itself, the server's command channel, so what
  they write is read as commands. The buffer comes from \<^verbatim>\<open>malloc\<close> and is never written: its bytes may be
  anything. The parent's talk with the server is that of \<open>Delivery\<close>, which is used as it is: the
  children hidden, the system is one without data.
\<close>

section \<open>The system\<close>








section \<open>What commands leave alone\<close>










section \<open>Without the children\<close>













section \<open>The steps\<close>













section \<open>A measurement\<close>











end
