(* ===== verification/Nkat.thy ===== *)
theory Nkat
  imports Main
begin

text \<open>
  \<^verbatim>\<open>nkat\<close> of lab 4 (\<^verbatim>\<open>Lab/4/nkat/nkat.c\<close>): a server that runs a program for every connection, with the
  connection as its standard input, output and error. What it has to get right is which descriptor
  refers to which file, in the parent and in the child, so the state is the descriptor table. The
  kernel decides whether \<^verbatim>\<open>accept\<close>, \<^verbatim>\<open>fork\<close> and \<^verbatim>\<open>execvp\<close> succeed; the calls that only change the
  table (\<^verbatim>\<open>dup\<close>, \<^verbatim>\<open>dup2\<close>, \<^verbatim>\<open>close\<close>, \<^verbatim>\<open>FD_CLOEXEC\<close>) are definitions, as POSIX describes them.
\<close>

section \<open>Descriptor tables\<close>

text \<open>A file: what the process was started with, the listening socket, or the socket of a connection.\<close>

datatype open_file = Inherited nat | Listener | Conn nat

text \<open>For every descriptor its file and its flag \<^verbatim>\<open>FD_CLOEXEC\<close>.\<close>

type_synonym fds = "nat \<Rightarrow> (open_file \<times> bool) option"

text \<open>A new descriptor is the lowest free one below the limit; there may be none.\<close>

definition fd_new :: "nat \<Rightarrow> open_file \<Rightarrow> fds \<Rightarrow> (nat \<times> fds) option" where
  "fd_new limit f fds = map_option (\<lambda>i. (i, fds(i \<mapsto> (f, False)))) (find (\<lambda>i. fds i = None) [0..<limit])"

definition fd_dup :: "nat \<Rightarrow> nat \<Rightarrow> fds \<Rightarrow> (nat \<times> fds) option" where
  "fd_dup limit old fds = (case fds old of None \<Rightarrow> None | Some (f, _) \<Rightarrow> fd_new limit f fds)"

text \<open>\<^verbatim>\<open>dup2\<close>, when its result is not looked at.\<close>

definition fd_dup2 :: "nat \<Rightarrow> nat \<Rightarrow> fds \<Rightarrow> fds" where
  "fd_dup2 old new fds =
     (case fds old of None \<Rightarrow> fds | Some (f, _) \<Rightarrow> if old = new then fds else fds(new \<mapsto> (f, False)))"

definition fd_close :: "nat \<Rightarrow> fds \<Rightarrow> fds" where
  "fd_close fd fds = fds(fd := None)"

definition set_CLOEXEC :: "nat \<Rightarrow> fds \<Rightarrow> fds option" where
  "set_CLOEXEC fd fds = map_option (\<lambda>(f, _). fds(fd \<mapsto> (f, True))) (fds fd)"

text \<open>What a program that is executed finds.\<close>

definition fd_exec :: "fds \<Rightarrow> fds" where
  "fd_exec fds i = (case fds i of Some (f, False) \<Rightarrow> Some (f, False) | _ \<Rightarrow> None)"

definition fd_file :: "fds \<Rightarrow> nat \<Rightarrow> open_file option" where
  "fd_file fds i = map_option fst (fds i)"

lemma fd_new_free:
  assumes "fd_new limit f fds = Some (i, fds')"
  shows "fds i = None" and "fds' = fds(i \<mapsto> (f, False))"
  using assms by (auto simp: fd_new_def find_Some_iff)

lemma fd_dup_free:
  assumes "fd_dup limit old fds = Some (i, fds')"
  shows "fds i = None" and "\<exists>f c. fds old = Some (f, c) \<and> fds' = fds(i \<mapsto> (f, False))"
  using assms fd_new_free by (auto simp: fd_dup_def split: option.splits prod.splits)

section \<open>The child\<close>

text \<open>How a child ends: the program runs with a table, or a message, prefixed by what \<^verbatim>\<open>fail\<close> was
  given, is written to the file of descriptor 2, if there is one.\<close>

datatype child_end = Executed fds | Failed string "open_file option"

definition child_fail :: "string \<Rightarrow> fds \<Rightarrow> child_end" where
  "child_fail s fds = Failed s (fd_file fds 2)"

text \<open>The branch after \<^verbatim>\<open>fork\<close>; \<open>runs\<close> is whether the kernel can execute the program.\<close>

definition nkat_child :: "nat \<Rightarrow> bool \<Rightarrow> nat \<Rightarrow> nat \<Rightarrow> fds \<Rightarrow> child_end" where
  "nkat_child limit runs listenfd connfd fds0 =
     (let fds = fd_close listenfd fds0
      in case fd_dup limit 2 fds of None \<Rightarrow> child_fail ''fcntl'' fds
         | Some (oldstderr, fds1) \<Rightarrow>
           case set_CLOEXEC oldstderr fds1 of None \<Rightarrow> child_fail ''fcntl'' fds1
           | Some fds2 \<Rightarrow>
             let fds3 = fd_close connfd (fd_dup2 connfd 2 (fd_dup2 connfd 1 (fd_dup2 connfd 0 fds2)))
             in if runs then Executed (fd_exec fds3) else child_fail ''exec'' (fd_dup2 oldstderr 2 fds3))"

section \<open>The server\<close>

text \<open>What happens in one turn of the loop: \<^verbatim>\<open>accept\<close> fails, or gives a connection from an address, and
  then \<^verbatim>\<open>fork\<close> may fail, and the program may not be executable.\<close>

datatype 'addr turn = AcceptError | Accepted 'addr bool bool

record 'addr Nkat =
  nfds :: fds
  listenfd :: nat
  nconns :: nat  \<comment> \<open>the connections so far, which gives each its name\<close>
  nlog :: "'addr list"  \<comment> \<open>the lines printed: \<^verbatim>\<open>New connection from\<close>\<close>
  children :: "(nat \<times> child_end) list"

text \<open>Up to the loop. Without a descriptor for the socket the program exits.\<close>

definition nkat_start :: "nat \<Rightarrow> fds \<Rightarrow> 'addr Nkat option" where
  "nkat_start limit fds0 =
     (case fd_new limit Listener fds0 of None \<Rightarrow> None
      | Some (l, fds) \<Rightarrow> map_option (\<lambda>fds1. \<lparr>nfds = fds1, listenfd = l, nconns = 0, nlog = [], children = []\<rparr>) (set_CLOEXEC l fds))"

definition nkat_turn :: "nat \<Rightarrow> 'addr turn \<Rightarrow> 'addr Nkat \<Rightarrow> 'addr Nkat" where
  "nkat_turn limit t s =
     (case t of AcceptError \<Rightarrow> s
      | Accepted addr forks runs \<Rightarrow>
        case fd_new limit (Conn (nconns s)) (nfds s) of None \<Rightarrow> s
        | Some (connfd, fds) \<Rightarrow>
          s\<lparr>nfds := fd_close connfd fds, nconns := nconns s + 1, nlog := nlog s @ [addr],
            children := children s @ (if forks then [(nconns s, nkat_child limit runs (listenfd s) connfd fds)] else [])\<rparr>)"

definition nkat_run :: "nat \<Rightarrow> 'addr turn list \<Rightarrow> 'addr Nkat \<Rightarrow> 'addr Nkat" where
  "nkat_run limit = fold (nkat_turn limit)"

section \<open>Correctness\<close>

text \<open>What the program of connection \<open>k\<close> is to find: its connection as 0, 1 and 2, and otherwise what
  \<^verbatim>\<open>nkat\<close> was started with. Or else a message, never to the connection, but to the standard error.\<close>

definition child_ok :: "fds \<Rightarrow> nat \<times> child_end \<Rightarrow> bool" where
  "child_ok fds0 c \<longleftrightarrow>
     (case snd c of
        Executed t \<Rightarrow> t = (\<lambda>i. if i < 3 then Some (Conn (fst c), False) else fd_exec fds0 i)
      | Failed s f \<Rightarrow> f = fd_file fds0 2)"

definition std_open :: "fds \<Rightarrow> bool" where
  "std_open fds \<longleftrightarrow> list_all (\<lambda>i. fds i \<noteq> None) [0, 1, 2]"

lemma std_open_not: "std_open fds \<Longrightarrow> fds i = None \<Longrightarrow> i \<noteq> 0 \<and> i \<noteq> 1 \<and> i \<noteq> 2"
  by (intro conjI notI) (simp_all add: std_open_def)

lemma nkat_child_ok:
  assumes std: "std_open fds0" and l: "fds0 l = None" and c: "fds0 c = None" "c \<noteq> l"
  shows "child_ok fds0 (k, nkat_child limit runs l c (fds0(l \<mapsto> (Listener, True), c \<mapsto> (Conn k, False))))"
proof -
  note ls = std_open_not [OF std l] and cs = std_open_not [OF std c(1)]
  define fds where "fds = fds0(c \<mapsto> (Conn k, False))"
  have fds: "fd_close l (fds0(l \<mapsto> (Listener, True), c \<mapsto> (Conn k, False))) = fds"
    using l c(2) by (auto simp: fd_close_def fds_def)
  have two: "fd_file fds 2 = fd_file fds0 2" using cs by (simp add: fds_def fd_file_def)
  show ?thesis
  proof (cases "fd_dup limit 2 fds")
    case None
    then show ?thesis using two by (simp add: nkat_child_def fds child_ok_def child_fail_def)
  next
    case (Some r)
    obtain e fds1 where r: "r = (e, fds1)" by fastforce
    obtain f b where e: "fds e = None" and f: "fds 2 = Some (f, b)" "fds1 = fds(e \<mapsto> (f, False))"
      using fd_dup_free [OF Some [unfolded r]] by blast
    have es: "e \<noteq> c" "fds0 e = None" using e by (auto simp: fds_def split: if_splits)
    note en = std_open_not [OF std es(2)]
    have f0: "fds0 2 = Some (f, b)" using f(1) cs by (simp add: fds_def)
    define fds3 where "fds3 = fds0(c := None, e \<mapsto> (f, True), 0 \<mapsto> (Conn k, False), 1 \<mapsto> (Conn k, False), 2 \<mapsto> (Conn k, False))"
    have three: "fd_close c (fd_dup2 c 2 (fd_dup2 c 1 (fd_dup2 c 0 (fds1(e \<mapsto> (f, True)))))) = fds3"
      using cs es en f(2) by (auto simp: fd_dup2_def fd_close_def fds3_def fds_def)
    have child: "nkat_child limit runs l c (fds0(l \<mapsto> (Listener, True), c \<mapsto> (Conn k, False))) =
        (if runs then Executed (fd_exec fds3) else child_fail ''exec'' (fd_dup2 e 2 fds3))"
      unfolding nkat_child_def fds using three by (simp add: Some r set_CLOEXEC_def f(2) del: fun_upd_apply) (simp add: f(2))
    show ?thesis
    proof (cases runs)
      case True
      have "fd_exec fds3 i = (if i < 3 then Some (Conn k, False) else fd_exec fds0 i)" for i
      proof -
        have "i < 3 \<longleftrightarrow> i = 0 \<or> i = 1 \<or> i = 2" by linarith
        then show ?thesis using c(1) es(2) by (auto simp: fd_exec_def fds3_def)
      qed
      then show ?thesis unfolding child_ok_def child using True by (simp add: fun_eq_iff)
    next
      case False
      have "fd_file (fd_dup2 e 2 fds3) 2 = fd_file fds0 2"
        using en f0 by (simp add: fd_file_def fd_dup2_def fds3_def)
      then show ?thesis unfolding child_ok_def child using False by (simp add: child_fail_def)
    qed
  qed
qed

definition nkat_ok :: "fds \<Rightarrow> 'addr Nkat \<Rightarrow> bool" where
  "nkat_ok fds0 s \<longleftrightarrow> fds0 (listenfd s) = None \<and> nfds s = fds0(listenfd s \<mapsto> (Listener, True)) \<and>
     list_all (child_ok fds0) (children s) \<and> distinct (map fst (children s)) \<and> (\<forall>k\<in>fst ` set (children s). k < nconns s) \<and>
     length (nlog s) = nconns s"

lemma nkat_start_ok: "nkat_start limit fds0 = Some s \<Longrightarrow> nkat_ok fds0 s"
  using fd_new_free [of limit Listener fds0]
  by (auto simp: nkat_start_def nkat_ok_def set_CLOEXEC_def split: option.splits)

lemma nkat_turn_ok:
  assumes std: "std_open fds0" and ok: "nkat_ok fds0 s"
  shows "nkat_ok fds0 (nkat_turn limit t s)"
proof (cases "\<exists>addr forks runs c fds. t = Accepted addr forks runs \<and> fd_new limit (Conn (nconns s)) (nfds s) = Some (c, fds)")
  case True
  then obtain addr forks runs c fds where t: "t = Accepted addr forks runs" and new: "fd_new limit (Conn (nconns s)) (nfds s) = Some (c, fds)"
    by blast
  have tab: "nfds s = fds0(listenfd s \<mapsto> (Listener, True))" and l: "fds0 (listenfd s) = None" using ok by (simp_all add: nkat_ok_def)
  have c: "fds0 c = None" "c \<noteq> listenfd s" using fd_new_free(1) [OF new] by (auto simp: tab split: if_splits)
  have fds: "fds = fds0(listenfd s \<mapsto> (Listener, True), c \<mapsto> (Conn (nconns s), False))"
    using fd_new_free(2) [OF new] by (simp add: tab)
  have same: "fd_close c fds = nfds s" using c by (auto simp: fds tab fd_close_def)
  have "nkat_turn limit t s = s\<lparr>nfds := nfds s, nconns := nconns s + 1, nlog := nlog s @ [addr],
      children := children s @ (if forks then [(nconns s, nkat_child limit runs (listenfd s) c fds)] else [])\<rparr>"
    unfolding nkat_turn_def t turn.case new option.case prod.case same ..
  then show ?thesis using ok nkat_child_ok [OF std l c, of "nconns s" limit runs]
    unfolding fds by (auto simp: nkat_ok_def less_Suc_eq)
next
  case False
  then have "nkat_turn limit t s = s" by (auto simp: nkat_turn_def split: turn.splits option.splits)
  then show ?thesis using ok by simp
qed

lemma nkat_run_ok:
  assumes "std_open fds0" and "nkat_ok fds0 s"
  shows "nkat_ok fds0 (nkat_run limit ts s) \<and> listenfd (nkat_run limit ts s) = listenfd s"
proof -
  have same: "listenfd (nkat_turn limit t s) = listenfd s" for t s
    by (auto simp: nkat_turn_def split: turn.splits option.splits)
  show ?thesis using assms(2)
  proof (induction ts arbitrary: s)
    case (Cons t ts)
    from Cons.IH [OF nkat_turn_ok [OF assms(1) Cons.prems]] show ?case by (simp add: nkat_run_def same)
  qed (simp add: nkat_run_def)
qed

text \<open>
  C34. \<^verbatim>\<open>nkat\<close> started with its standard descriptors open, over any sequence of connections and
  failures of the kernel: no descriptor leaks in the server, whose table after every turn is that of
  the start; the program of a connection finds that connection, and only that one, as 0, 1 and 2,
  and besides only what \<^verbatim>\<open>nkat\<close> itself was started with, not the listening socket; and an error
  message is written to the server's standard error, not to the client.
\<close>

theorem nkat_isolation:
  assumes "std_open fds0" and "nkat_start limit fds0 = Some s"
  shows "nfds (nkat_run limit ts s) = nfds s \<and> distinct (map fst (children (nkat_run limit ts s))) \<and>
    list_all (child_ok fds0) (children (nkat_run limit ts s))"
  using nkat_run_ok [OF assms(1) nkat_start_ok [OF assms(2)]] nkat_start_ok [OF assms(2)] by (auto simp: nkat_ok_def)

section \<open>Started without a standard input\<close>

lemma fd_new_zero: "fds 0 = None \<Longrightarrow> 0 < limit \<Longrightarrow> fd_new limit f fds = Some (0, fds(0 \<mapsto> (f, False)))"
  by (simp add: fd_new_def upt_rec)

text \<open>
  When \<^verbatim>\<open>nkat\<close> is started with its standard input closed, the listening socket is descriptor 0, the
  saved standard error takes its place in the child and is overwritten by the connection: the
  message about a program that cannot be executed goes to the client.
\<close>

theorem nkat_error_to_client:
  assumes "fds0 0 = None" and "fds0 1 \<noteq> None" and "fds0 2 \<noteq> None"
    and "nkat_start limit fds0 = Some s" and "fd_new limit (Conn 0) (nfds s) = Some (c, fds)"
  shows "children (nkat_turn limit (Accepted addr True False) s) = [(0, Failed ''exec'' (Some (Conn 0)))]"
proof -
  have lim: "0 < limit" using assms(4) by (cases limit) (auto simp: nkat_start_def fd_new_def)
  then have s: "s = \<lparr>nfds = fds0(0 \<mapsto> (Listener, True)), listenfd = 0, nconns = 0, nlog = [], children = []\<rparr>"
    using assms(4) by (simp add: nkat_start_def fd_new_zero [of fds0, OF assms(1)] set_CLOEXEC_def)
  have c: "fds0 c = None" "c \<noteq> 0" using fd_new_free(1) [OF assms(5)] by (auto simp: s split: if_splits)
  then have c12: "c \<noteq> 1" "c \<noteq> 2" using assms(2,3) by auto
  have fds: "fds = fds0(0 \<mapsto> (Listener, True), c \<mapsto> (Conn 0, False))" using fd_new_free(2) [OF assms(5)] by (simp add: s)
  define tab where "tab = fd_close 0 fds"
  have tab: "tab 0 = None" "tab c = Some (Conn 0, False)" "tab 2 = fds0 2" using c c12 by (simp_all add: tab_def fds fd_close_def)
  obtain f b where "tab 2 = Some (f, b)" using assms(3) tab(3) by auto
  then have dup: "fd_dup limit 2 tab = Some (0, tab(0 \<mapsto> (f, False)))" using fd_new_zero [of tab limit] tab(1) lim by (simp add: fd_dup_def)
  have "nkat_child limit False 0 c fds = Failed ''exec'' (Some (Conn 0))"
    unfolding nkat_child_def tab_def [symmetric]
    using tab(2) c(2) c12 by (simp add: dup set_CLOEXEC_def fd_dup2_def fd_close_def child_fail_def fd_file_def)
  moreover have "nkat_turn limit (Accepted addr True False) s = s\<lparr>nfds := fd_close c fds, nconns := 1, nlog := [addr],
      children := [(0, nkat_child limit False 0 c fds)]\<rparr>"
    using assms(5) by (simp add: nkat_turn_def s)
  ultimately show ?thesis by simp
qed

section \<open>The properties on concrete tables\<close>

text \<open>A terminal as the three standard descriptors, a log file the shell passed on as 4, and one it did not.\<close>

definition shell_fds :: fds where
  "shell_fds = Map.empty(0 \<mapsto> (Inherited 0, False), 1 \<mapsto> (Inherited 0, False), 2 \<mapsto> (Inherited 1, False),
     4 \<mapsto> (Inherited 2, False), 5 \<mapsto> (Inherited 3, True))"

definition demo_turns :: "nat turn list" where
  "demo_turns = [Accepted 10 True True, AcceptError, Accepted 11 False True, Accepted 12 True False]"

lemma upto8: "[0..<8] = [0, 1, 2, 3, 4, 5, 6, 7 :: nat]"
  by (simp add: upt_rec)

definition shell_s0 :: "nat Nkat" where
  "shell_s0 = \<lparr>nfds = shell_fds(3 \<mapsto> (Listener, True)), listenfd = 3, nconns = 0, nlog = [], children = []\<rparr>"

lemma shell_start: "nkat_start 8 shell_fds = Some shell_s0"
  by (simp add: nkat_start_def fd_new_def upto8 shell_fds_def set_CLOEXEC_def shell_s0_def)

lemma shell_conn: "fd_new 8 (Conn k) (nfds shell_s0) = Some (6, (nfds shell_s0)(6 \<mapsto> (Conn k, False)))"
  by (simp add: fd_new_def upto8 shell_fds_def shell_s0_def)

lemma shell_close: "fd_close 6 ((nfds shell_s0)(6 \<mapsto> x)) = nfds shell_s0"
  by (simp add: fd_close_def shell_fds_def shell_s0_def)

lemma nkat_isolation_witness:
  "nfds (nkat_run 8 demo_turns shell_s0) = nfds shell_s0 \<and> map fst (children (nkat_run 8 demo_turns shell_s0)) = [0, 2] \<and>
    list_all (child_ok shell_fds) (children (nkat_run 8 demo_turns shell_s0))"
proof -
  have std: "std_open shell_fds" by (simp add: std_open_def shell_fds_def del: not_None_eq)
  have turn: "nkat_turn 8 (Accepted a f r) s = s\<lparr>nfds := nfds s, nconns := nconns s + 1, nlog := nlog s @ [a],
      children := children s @ (if f then [(nconns s, nkat_child 8 r (listenfd s) 6 ((nfds s)(6 \<mapsto> (Conn (nconns s), False))))] else [])\<rparr>"
    if "nfds s = nfds shell_s0" for a f r s
    unfolding nkat_turn_def that by (simp add: shell_conn shell_close)
  have "map fst (children (nkat_run 8 demo_turns shell_s0)) = [0, 2]"
    unfolding nkat_run_def demo_turns_def by (simp add: turn nkat_turn_def [of _ AcceptError]) (simp add: shell_s0_def)
  then show ?thesis using nkat_isolation [OF std shell_start] by blast
qed

lemma nkat_error_to_client_witness:
  "\<exists>s. nkat_start 8 (shell_fds(0 := None)) = Some s \<and>
    children (nkat_turn 8 (Accepted (10 :: nat) True False) s) = [(0, Failed ''exec'' (Some (Conn 0)))]"
proof -
  define fds0 where "fds0 = shell_fds(0 := None)"
  define s :: "nat Nkat" where "s = \<lparr>nfds = fds0(0 \<mapsto> (Listener, True)), listenfd = 0, nconns = 0, nlog = [], children = []\<rparr>"
  have "nkat_start 8 fds0 = Some s"
    by (simp add: nkat_start_def fd_new_zero fds0_def set_CLOEXEC_def s_def)
  moreover have "fd_new 8 (Conn 0) (nfds s) = Some (3, (nfds s)(3 \<mapsto> (Conn 0, False)))"
    by (simp add: fd_new_def upto8 fds0_def shell_fds_def s_def)
  moreover have "fds0 0 = None" "fds0 1 \<noteq> None" "fds0 2 \<noteq> None" by (simp_all add: fds0_def shell_fds_def)
  ultimately show ?thesis using nkat_error_to_client [of fds0 8 s] unfolding fds0_def by blast
qed

end
