(* ===== verification/UdpPing.thy ===== *)
theory UdpPing
  imports ByteData
begin

text \<open>
  The example of lab 8: \<^verbatim>\<open>udpping.c\<close>, which sends a datagram with a sequence number and the time every
  second and prints the answers, and \<^verbatim>\<open>udpechosrv.c\<close>, which returns every datagram. The client's
  sends happen in the handler of \<^verbatim>\<open>SIGALRM\<close>, between any two of its other actions, so the two programs
  and the network are a step relation. A datagram may be lost (also by a failing \<^verbatim>\<open>sendto\<close>), repeated,
  delayed and overtaken. The clock is in microseconds and does not go back; what \<^verbatim>\<open>%.6f\<close> prints from
  two doubles is the exact difference here, and a line is printed in one step.
\<close>

section \<open>Datagrams\<close>

text \<open>A \<^verbatim>\<open>ping_t\<close> and the 16 bytes after it; \<open>junk\<close> is the padding and what was in the buffer.\<close>

definition ping_dgram :: "bytes \<Rightarrow> 32 word \<Rightarrow> nat \<Rightarrow> bytes" where
  "ping_dgram junk n t = le32 (unat n) @ take 4 junk @ le64 (t div 10 ^ 6) @ le64 (t mod 10 ^ 6) @ drop 4 junk"

text \<open>The echo server's \<^verbatim>\<open>recvfrom\<close> and \<^verbatim>\<open>sendto\<close>, with its buffer of 2048 bytes.\<close>

definition echo_dgram :: "bytes \<Rightarrow> bytes" where
  "echo_dgram d = take 2048 d"

record pline =
  lsec :: nat
  lusec :: nat
  lrlen :: nat
  lseq :: nat
  ltime :: int  \<comment> \<open>the time between, in microseconds\<close>

text \<open>What the client prints for a datagram. It reads the members whatever \<^verbatim>\<open>rlen\<close> is: when the datagram
  is too short they are indeterminate (\<open>None\<close>).\<close>

definition ping_line :: "nat \<Rightarrow> bytes \<Rightarrow> pline option" where
  "ping_line tv d =
     (let buf = take 2048 d; rlen = length buf
      in if rlen < 24 then None
         else let sec = le_val (take 8 (drop 8 buf)); usec = le_val (take 8 (drop 16 buf))
              in Some \<lparr>lsec = sec, lusec = usec, lrlen = rlen, lseq = le_val (take 4 buf),
                       ltime = int tv - (10 ^ 6 * int sec + int usec)\<rparr>)"

text \<open>The clock stays below what \<^verbatim>\<open>time_t\<close> holds.\<close>

definition T_MAX :: nat where
  "T_MAX = 2 ^ 63 * 10 ^ 6"

lemma ping_line_echo:
  assumes "length junk = 20" and "t < T_MAX"
  shows "ping_line tv (echo_dgram (ping_dgram junk n t)) =
    Some \<lparr>lsec = t div 10 ^ 6, lusec = t mod 10 ^ 6, lrlen = 40, lseq = unat n, ltime = int tv - int t\<rparr>"
proof -
  have sec: "t div 10 ^ 6 < 2 ^ 64" using assms(2) by (simp add: T_MAX_def)
  have usec: "t mod 10 ^ 6 < 2 ^ 64"
  proof -
    have "t mod 10 ^ 6 < 10 ^ 6" by simp
    then show ?thesis by (rule less_trans) simp
  qed
  define d where "d = ping_dgram junk n t"
  have len: "length d = 40" using assms(1) by (simp add: d_def ping_dgram_def)
  have "unat n < 2 ^ 32" using unsigned_less [of n] by simp
  then have parts: "le_val (take 4 d) = unat n" "le_val (take 8 (drop 8 d)) = t div 10 ^ 6" "le_val (take 8 (drop 16 d)) = t mod 10 ^ 6"
    using assms(1) le_val_le64 [OF sec] le_val_le64 [OF usec] by (simp_all add: d_def ping_dgram_def le_val_le32)
  have "1000000 * (t div 1000000) + t mod 1000000 = t" by (rule mult_div_mod_eq)
  then have "1000000 * int (t div 1000000) + int (t mod 1000000) = int t" by (metis of_nat_add of_nat_mult of_nat_numeral)
  then show ?thesis using len by (simp add: ping_line_def echo_dgram_def d_def [symmetric] parts Let_def)
qed

section \<open>The programs\<close>

record Ping =
  clock :: nat
  ping_seq :: "32 word"  \<comment> \<open>the variable \<^verbatim>\<open>seq\<close>\<close>
  ping_count :: nat  \<comment> \<open>the variable \<^verbatim>\<open>count\<close>\<close>
  alarm_at :: nat
  ping_exit :: bool
  pings :: "(32 word \<times> nat) list"  \<comment> \<open>what was sent, and when\<close>
  outgoing :: "bytes list"
  answers :: "bytes list"
  plines :: "pline option list"

definition do_send :: "bytes \<Rightarrow> Ping \<Rightarrow> Ping" where
  "do_send junk s =
     s\<lparr>ping_seq := ping_seq s + 1, pings := pings s @ [(ping_seq s, clock s)],
       outgoing := outgoing s @ [ping_dgram junk (ping_seq s) (clock s)], alarm_at := clock s + 10 ^ 6,
       ping_count := ping_count s + 1, ping_exit := ping_count s + 1 > 10\<rparr>"

text \<open>Before the first send; \<open>r\<close> is the value of \<^verbatim>\<open>rand()\<close>.\<close>

definition ping_init :: "nat \<Rightarrow> nat \<Rightarrow> Ping" where
  "ping_init r t = \<lparr>clock = t, ping_seq = word_of_nat (r mod 16777215), ping_count = 0, alarm_at = 0, ping_exit = False,
     pings = [], outgoing = [], answers = [], plines = []\<rparr>"

text \<open>The steps: time passes, the alarm, the server echoes a datagram, the client prints one.\<close>

inductive ping_step :: "Ping \<Rightarrow> Ping \<Rightarrow> bool" where
  tick: "clock s + d < T_MAX \<Longrightarrow> ping_step s (s\<lparr>clock := clock s + d\<rparr>)"
| ring: "\<not> ping_exit s \<Longrightarrow> alarm_at s \<le> clock s \<Longrightarrow> length junk = 20 \<Longrightarrow> ping_step s (do_send junk s)"
| echo: "d \<in> set (outgoing s) \<Longrightarrow> ping_step s (s\<lparr>answers := answers s @ [echo_dgram d]\<rparr>)"
| print: "\<not> ping_exit s \<Longrightarrow> d \<in> set (answers s) \<Longrightarrow> ping_step s (s\<lparr>plines := plines s @ [ping_line (clock s) d]\<rparr>)"

text \<open>A state after the first send, which \<^verbatim>\<open>main\<close> does itself.\<close>

inductive ping_reach :: "nat \<Rightarrow> nat \<Rightarrow> Ping \<Rightarrow> bool" for r t0 where
  first: "t0 < T_MAX \<Longrightarrow> length junk = 20 \<Longrightarrow> ping_reach r t0 (do_send junk (ping_init r t0))"
| step: "ping_reach r t0 s \<Longrightarrow> ping_step s s' \<Longrightarrow> ping_reach r t0 s'"

section \<open>The invariant\<close>

text \<open>The pings sent, the last of them at \<open>alarm_at - 1 s\<close>: consecutive numbers, a second apart.\<close>

definition paced :: "32 word \<Rightarrow> (32 word \<times> nat) list \<Rightarrow> bool" where
  "paced n0 ps \<longleftrightarrow> (\<forall>k < length ps. fst (ps ! k) = n0 + of_nat k) \<and>
     (\<forall>k. Suc k < length ps \<longrightarrow> snd (ps ! k) + 10 ^ 6 \<le> snd (ps ! Suc k))"

text \<open>A line that answers one of the pings \<open>ps\<close>, printed no earlier than it was sent.\<close>

definition answers_ping :: "(32 word \<times> nat) list \<Rightarrow> pline option \<Rightarrow> bool" where
  "answers_ping ps l \<longleftrightarrow> list_ex (\<lambda>(n, t). case l of None \<Rightarrow> False
     | Some p \<Rightarrow> lseq p = unat n \<and> 10 ^ 6 * lsec p + lusec p = t \<and> lrlen p = 40 \<and> 0 \<le> ltime p) ps"

definition ping_of :: "(32 word \<times> nat) list \<Rightarrow> bytes \<Rightarrow> bool" where
  "ping_of ps d \<longleftrightarrow> (\<exists>(n, t)\<in>set ps. \<exists>junk. length junk = 20 \<and> d = ping_dgram junk n t)"

definition ping_inv :: "nat \<Rightarrow> Ping \<Rightarrow> bool" where
  "ping_inv r s \<longleftrightarrow> paced (word_of_nat (r mod 16777215)) (pings s) \<and> pings s \<noteq> [] \<and>
     ping_seq s = word_of_nat (r mod 16777215) + of_nat (length (pings s)) \<and>
     ping_count s = length (pings s) \<and> ping_count s \<le> 11 \<and> (ping_exit s \<longleftrightarrow> ping_count s = 11) \<and>
     alarm_at s = snd (last (pings s)) + 10 ^ 6 \<and> clock s < T_MAX \<and> (\<forall>p\<in>set (pings s). snd p \<le> clock s) \<and>
     (\<forall>d\<in>set (outgoing s). ping_of (pings s) d) \<and> (\<forall>d\<in>set (answers s). \<exists>d'. ping_of (pings s) d' \<and> d = echo_dgram d') \<and>
     (\<forall>l\<in>set (plines s). answers_ping (take 10 (pings s)) l)"

lemma paced_snoc:
  assumes "paced n0 ps" and "ps \<noteq> [] \<Longrightarrow> snd (last ps) + 10 ^ 6 \<le> t"
  shows "paced n0 (ps @ [(n0 + of_nat (length ps), t)])"
proof -
  let ?ps = "ps @ [(n0 + of_nat (length ps), t)]"
  have "fst (?ps ! k) = n0 + of_nat k" if "k < length ?ps" for k
    using that assms(1) by (cases "k = length ps") (simp_all add: paced_def nth_append)
  moreover have "snd (?ps ! k) + 10 ^ 6 \<le> snd (?ps ! Suc k)" if "Suc k < length ?ps" for k
  proof (cases "Suc k = length ps")
    case True
    then have "ps \<noteq> []" and "k = length ps - 1" by auto
    then have "last ps = ps ! k" by (simp add: last_conv_nth)
    then show ?thesis using assms(2) [OF \<open>ps \<noteq> []\<close>] True by (simp add: nth_append flip: True)
  next
    case False
    then have "Suc k < length ps" using that by simp
    then show ?thesis using assms(1) by (simp add: paced_def nth_append)
  qed
  ultimately show ?thesis by (simp add: paced_def)
qed

lemma ping_of_more: "ping_of ps d \<Longrightarrow> ping_of (ps @ qs) d"
  by (auto simp: ping_of_def)

lemma answers_more: "answers_ping ps l \<Longrightarrow> answers_ping (ps @ qs) l"
  by (simp add: answers_ping_def)

lemma ping_first: "t0 < T_MAX \<Longrightarrow> length junk = 20 \<Longrightarrow> ping_inv r (do_send junk (ping_init r t0))"
  by (auto simp: ping_inv_def do_send_def ping_init_def paced_def ping_of_def)

lemma ping_ring:
  assumes inv: "ping_inv r s" and "\<not> ping_exit s" and "alarm_at s \<le> clock s" and "length junk = 20"
  shows "ping_inv r (do_send junk s)"
proof -
  define ps where "ps = pings s @ [(ping_seq s, clock s)]"
  have count: "length (pings s) \<le> 10" using inv assms(2) by (auto simp: ping_inv_def)
  have "paced (word_of_nat (r mod 16777215)) ps"
    using paced_snoc [of _ "pings s" "clock s"] inv assms(3) by (simp add: ping_inv_def ps_def)
  moreover have "ping_of ps (ping_dgram junk (ping_seq s) (clock s))" using assms(4) by (auto simp: ping_of_def ps_def)
  moreover have "answers_ping (take 10 ps) l" if "answers_ping (take 10 (pings s)) l" for l
    using that answers_more [of "pings s" l] count by (simp add: ps_def)
  moreover have more: "ping_of ps d" if "ping_of (pings s) d" for d using ping_of_more [OF that] by (simp add: ps_def)
  moreover have "\<exists>d'. ping_of ps d' \<and> d = echo_dgram d'" if "d \<in> set (answers s)" for d
    using that inv more unfolding ping_inv_def by blast
  moreover have "ps \<noteq> []" "length ps = Suc (length (pings s))" "last ps = (ping_seq s, clock s)" "set ps = insert (ping_seq s, clock s) (set (pings s))"
    by (simp_all add: ps_def)
  moreover have "do_send junk s = s\<lparr>ping_seq := ping_seq s + 1, pings := ps,
      outgoing := outgoing s @ [ping_dgram junk (ping_seq s) (clock s)], alarm_at := clock s + 10 ^ 6,
      ping_count := ping_count s + 1, ping_exit := ping_count s + 1 > 10\<rparr>"
    by (simp add: do_send_def ps_def)
  ultimately show ?thesis using inv count by (auto simp: ping_inv_def)
qed

lemma ping_print:
  assumes inv: "ping_inv r s" and "\<not> ping_exit s" and "d \<in> set (answers s)"
  shows "answers_ping (take 10 (pings s)) (ping_line (clock s) d)"
proof -
  obtain n t junk where d: "(n, t) \<in> set (pings s)" "length junk = 20" "d = echo_dgram (ping_dgram junk n t)"
    using inv assms(3) by (fastforce simp: ping_inv_def ping_of_def)
  have t: "t \<le> clock s" "t < T_MAX" using inv d(1) by (fastforce simp: ping_inv_def)+
  have "length (pings s) \<le> 10" using inv assms(2) by (auto simp: ping_inv_def)
  moreover have "1000000 * (t div 1000000) + t mod 1000000 = t" by (rule mult_div_mod_eq)
  ultimately show ?thesis using d(1) t ping_line_echo [OF d(2) t(2), of "clock s" n]
    by (auto simp: answers_ping_def d(3) list_ex_iff intro!: bexI [of _ "(n, t)"])
qed

lemma ping_step_ok:
  assumes "ping_inv r s" and "ping_step s s'"
  shows "ping_inv r s'"
  using assms(2)
proof cases
  case (tick d)
  then show ?thesis using assms(1) by (auto simp: ping_inv_def intro: order_trans)
next
  case (ring junk)
  then show ?thesis using ping_ring [OF assms(1)] by simp
next
  case (echo d)
  then show ?thesis using assms(1) by (auto simp: ping_inv_def)
next
  case (print d)
  then show ?thesis using assms(1) ping_print [OF assms(1)] by (auto simp: ping_inv_def)
qed

lemma ping_reach_ok: "ping_reach r t0 s \<Longrightarrow> ping_inv r s"
  by (induction rule: ping_reach.induct) (auto intro: ping_first ping_step_ok)

text \<open>
  C35. The ping client and the echo server over a network that loses, repeats, delays and reorders: the
  numbers sent are consecutive, a second or more apart; the client sends eleven pings, and exits with
  the eleventh, which is never answered; every line it prints is complete, and reports the number and
  the time of one of the first ten pings, with a difference that is not negative.
\<close>

theorem ping_session:
  assumes "ping_reach r t0 s"
  shows "paced (word_of_nat (r mod 16777215)) (pings s) \<and> length (pings s) \<le> 11 \<and>
    (ping_exit s \<longleftrightarrow> length (pings s) = 11) \<and> list_all (answers_ping (take 10 (pings s))) (plines s)"
  using ping_reach_ok [OF assms] by (simp add: ping_inv_def list_all_iff)

section \<open>A session\<close>

definition ping_s1 :: Ping where
  "ping_s1 = do_send (replicate 20 0) (ping_init 5 7)"

definition ping_s2 :: Ping where
  "ping_s2 = ping_s1\<lparr>answers := [echo_dgram (hd (outgoing ping_s1))]\<rparr>"

definition ping_s3 :: Ping where
  "ping_s3 = ping_s2\<lparr>plines := [ping_line 7 (hd (answers ping_s2))]\<rparr>"

lemma ping_s3_reach: "ping_reach 5 7 ping_s3"
proof -
  have one: "ping_reach 5 7 ping_s1" unfolding ping_s1_def by (rule ping_reach.first) (simp_all add: T_MAX_def)
  have dgram: "hd (outgoing ping_s1) \<in> set (outgoing ping_s1)" "hd (answers ping_s2) \<in> set (answers ping_s2)"
    by (simp_all add: ping_s1_def ping_s2_def do_send_def ping_init_def)
  have "ping_step ping_s1 ping_s2"
    using ping_step.echo [OF dgram(1)] by (simp add: ping_s2_def) (simp add: ping_s1_def do_send_def ping_init_def)
  moreover have "ping_step ping_s2 ping_s3"
    using ping_step.print [OF _ dgram(2)] by (simp add: ping_s3_def) (simp add: ping_s2_def ping_s1_def do_send_def ping_init_def)
  ultimately show ?thesis using one ping_reach.step by blast
qed

lemma ping_session_witness:
  "length (plines ping_s3) = 1 \<and> list_all (answers_ping (take 10 (pings ping_s3))) (plines ping_s3)"
  using ping_session [OF ping_s3_reach] by (simp add: ping_s3_def)

end
