(* ===== verification/Pacing.thy ===== *)
theory Pacing
  imports Complex_Main
begin

text \<open>
  The constant bit rate senders of lab 3 (\<^verbatim>\<open>Lab/3/Constant-BitRate-TCP-Flow\<close>): \<^verbatim>\<open>tcpcbr-rate.c\<close>, which
  sends when what it has sent so far is within the rate, and \<^verbatim>\<open>tcpcbr.c\<close>, which computes how long to
  wait. Both compute with doubles. A double is a rational number here, and the rounding of an
  operation to the nearest double is the parameter \<open>rnd\<close>, of which only what IEEE 754 promises is used
  (\<open>ieee_rnd\<close>); a division by zero is written out. Times are in microseconds, of a clock that does not
  go back.
\<close>

section \<open>Rounding\<close>

definition EPS :: rat where
  "EPS = 1 / 2 ^ 53"

text \<open>Rounding is monotone, its relative error is at most half a unit in the last place, and integers of up
  to 53 bits are doubles.\<close>

definition ieee_rnd :: "(rat \<Rightarrow> rat) \<Rightarrow> bool" where
  "ieee_rnd rnd \<longleftrightarrow> (\<forall>x y. x \<le> y \<longrightarrow> rnd x \<le> rnd y) \<and> (\<forall>x. \<bar>rnd x - x\<bar> \<le> EPS * \<bar>x\<bar>) \<and>
     (\<forall>n. \<bar>n\<bar> \<le> 2 ^ 53 \<longrightarrow> rnd (of_int n) = of_int n)"

lemma rnd_between:
  assumes "ieee_rnd rnd" and "0 \<le> x"
  shows "(1 - EPS) * x \<le> rnd x" and "rnd x \<le> (1 + EPS) * x"
proof -
  have "\<bar>rnd x - x\<bar> \<le> EPS * x" using assms by (metis abs_of_nonneg ieee_rnd_def)
  then show "(1 - EPS) * x \<le> rnd x" "rnd x \<le> (1 + EPS) * x" by (simp_all add: algebra_simps abs_le_iff)
qed

lemma EPS_small: "0 < EPS" "EPS < 1"
  by (simp_all add: EPS_def)

section \<open>The sender with a rate\<close>

record Rate =
  bytesent :: nat  \<comment> \<open>an \<^verbatim>\<open>unsigned long long\<close>\<close>
  sends :: "nat list"  \<comment> \<open>when something was sent\<close>

definition RATE_HEADER :: int where
  "RATE_HEADER = 0x42"

text \<open>What is sent at a time, and what it counts for; an array of no bytes or fewer is undefined.\<close>

definition rate_sizes :: "int \<Rightarrow> (nat \<times> nat) option" where
  "rate_sizes mss_size =
     (let packet_size = mss_size - 8; size = packet_size - RATE_HEADER
      in if size \<le> 0 then None else Some (nat size, nat (size + RATE_HEADER)))"

text \<open>The test \<^verbatim>\<open>bytesent / d > MBps\<close>: 0 divided by 0 is not a number and compares as false; another
  number divided by 0 is infinite.\<close>

definition rate_over :: "(rat \<Rightarrow> rat) \<Rightarrow> rat \<Rightarrow> nat \<Rightarrow> nat \<Rightarrow> bool" where
  "rate_over rnd MBps sent d \<longleftrightarrow> (if d = 0 then sent \<noteq> 0 else MBps < rnd (rnd (of_nat sent) / rnd (of_nat d)))"

text \<open>One turn of the loop, at the time \<open>tv1\<close>.\<close>

definition rate_turn :: "(rat \<Rightarrow> rat) \<Rightarrow> rat \<Rightarrow> nat \<Rightarrow> nat \<Rightarrow> nat \<Rightarrow> Rate \<Rightarrow> Rate" where
  "rate_turn rnd MBps psize tv0 tv1 s =
     (if rate_over rnd MBps (bytesent s) (tv1 - tv0) then s
      else s\<lparr>bytesent := (bytesent s + psize) mod 2 ^ 64, sends := sends s @ [tv1]\<rparr>)"

fun rate_run :: "(rat \<Rightarrow> rat) \<Rightarrow> rat \<Rightarrow> nat \<Rightarrow> nat \<Rightarrow> nat list \<Rightarrow> Rate \<Rightarrow> Rate" where
  "rate_run rnd MBps psize tv0 [] s = s"
| "rate_run rnd MBps psize tv0 (tv1 # tvs) s = rate_run rnd MBps psize tv0 tvs (rate_turn rnd MBps psize tv0 tv1 s)"

definition rate_init :: Rate where
  "rate_init = \<lparr>bytesent = 0, sends = []\<rparr>"

lemma not_over:
  assumes rnd: "ieee_rnd rnd" and "\<not> rate_over rnd MBps b d" and "0 \<le> MBps"
  shows "(1 - EPS)\<^sup>2 * of_nat b \<le> MBps * ((1 + EPS) * of_nat d)"
proof (cases "d = 0")
  case True
  then show ?thesis using assms(2) by (simp add: rate_over_def)
next
  case False
  have d: "(1 - EPS) * of_nat d \<le> rnd (of_nat d)" "rnd (of_nat d) \<le> (1 + EPS) * of_nat d"
    using rnd_between [OF rnd, of "of_nat d"] by simp_all
  have pos: "0 < rnd (of_nat d)"
  proof -
    have "0 < (1 - EPS) * of_nat d" using False EPS_small by simp
    then show ?thesis using d(1) by linarith
  qed
  have b: "(1 - EPS) * of_nat b \<le> rnd (of_nat b)" using rnd_between(1) [OF rnd, of "of_nat b"] by simp
  moreover have "0 \<le> (1 - EPS) * of_nat b" using EPS_small by simp
  ultimately have "0 \<le> rnd (of_nat b)" by linarith
  then have "(1 - EPS) * (rnd (of_nat b) / rnd (of_nat d)) \<le> rnd (rnd (of_nat b) / rnd (of_nat d))"
    using pos by (intro rnd_between [OF rnd]) simp
  also have "\<dots> \<le> MBps" using assms(2) False by (simp add: rate_over_def)
  finally have "(1 - EPS) * rnd (of_nat b) \<le> MBps * rnd (of_nat d)" using pos by (simp add: field_simps)
  moreover have "(1 - EPS) * ((1 - EPS) * of_nat b) \<le> (1 - EPS) * rnd (of_nat b)"
    using b EPS_small by (intro mult_left_mono) simp_all
  moreover have "MBps * rnd (of_nat d) \<le> MBps * ((1 + EPS) * of_nat d)" using d(2) assms(3) by (rule mult_left_mono)
  ultimately show ?thesis by (simp add: power2_eq_square mult.assoc)
qed

lemma over_ahead:
  assumes rnd: "ieee_rnd rnd" and over: "rate_over rnd MBps b d" and "d \<noteq> 0" and "0 \<le> MBps"
  shows "(1 - EPS) * of_nat d * MBps < (1 + EPS)\<^sup>2 * of_nat b"
proof -
  have d: "(1 - EPS) * of_nat d \<le> rnd (of_nat d)" using rnd_between(1) [OF rnd, of "of_nat d"] by simp
  moreover have "0 < (1 - EPS) * of_nat d" using assms(3) EPS_small by simp
  ultimately have pos: "0 < rnd (of_nat d)" by linarith
  have b: "(1 - EPS) * of_nat b \<le> rnd (of_nat b)" "rnd (of_nat b) \<le> (1 + EPS) * of_nat b"
    using rnd_between [OF rnd, of "of_nat b"] by simp_all
  moreover have "0 \<le> (1 - EPS) * of_nat b" using EPS_small by simp
  ultimately have b0: "0 \<le> rnd (of_nat b)" by linarith
  have "MBps < rnd (rnd (of_nat b) / rnd (of_nat d))" using over assms(3) by (simp add: rate_over_def)
  also have "\<dots> \<le> (1 + EPS) * (rnd (of_nat b) / rnd (of_nat d))" using pos b0 by (intro rnd_between [OF rnd]) simp
  finally have "MBps * rnd (of_nat d) < (1 + EPS) * rnd (of_nat b)" using pos by (simp add: field_simps)
  moreover have "(1 + EPS) * rnd (of_nat b) \<le> (1 + EPS) * ((1 + EPS) * of_nat b)"
    using b(2) EPS_small by (intro mult_left_mono) simp_all
  moreover have "MBps * ((1 - EPS) * of_nat d) \<le> MBps * rnd (of_nat d)" using d assms(4) by (rule mult_left_mono)
  ultimately show ?thesis by (simp add: power2_eq_square mult.assoc mult.commute mult.left_commute)
qed

section \<open>The rate\<close>

text \<open>Every packet was sent when those before it were within the rate.\<close>

definition rate_ok :: "rat \<Rightarrow> nat \<Rightarrow> nat \<Rightarrow> Rate \<Rightarrow> bool" where
  "rate_ok MBps psize tv0 s \<longleftrightarrow> bytesent s = psize * length (sends s) \<and>
     (\<forall>k < length (sends s). (1 - EPS)\<^sup>2 * of_nat (psize * k) \<le> MBps * ((1 + EPS) * of_nat (sends s ! k - tv0)))"

lemma rate_turn_ok:
  assumes "rate_ok MBps psize tv0 s" and "ieee_rnd rnd" and "0 \<le> MBps" and "psize * (length (sends s) + 1) < 2 ^ 64"
  shows "rate_ok MBps psize tv0 (rate_turn rnd MBps psize tv0 tv1 s)"
    and "length (sends (rate_turn rnd MBps psize tv0 tv1 s)) \<le> length (sends s) + 1"
proof -
  show "rate_ok MBps psize tv0 (rate_turn rnd MBps psize tv0 tv1 s)"
    using assms not_over [OF assms(2), of MBps "bytesent s" "tv1 - tv0"]
    by (auto simp: rate_turn_def rate_ok_def nth_append less_Suc_eq add.commute)
  show "length (sends (rate_turn rnd MBps psize tv0 tv1 s)) \<le> length (sends s) + 1" by (simp add: rate_turn_def)
qed

lemma rate_run_ok:
  assumes "ieee_rnd rnd" and "0 \<le> MBps"
  shows "rate_ok MBps psize tv0 s \<Longrightarrow> psize * (length (sends s) + length tvs) < 2 ^ 64 \<Longrightarrow>
    rate_ok MBps psize tv0 (rate_run rnd MBps psize tv0 tvs s)"
proof (induction tvs arbitrary: s)
  case (Cons tv1 tvs)
  have "psize * (length (sends s) + 1) \<le> psize * (length (sends s) + length (tv1 # tvs))" by (intro mult_le_mono2) simp
  then have one: "psize * (length (sends s) + 1) < 2 ^ 64" using Cons.prems(2) by (rule le_less_trans)
  note turn = rate_turn_ok [OF Cons.prems(1) assms one, of tv1]
  have "psize * (length (sends (rate_turn rnd MBps psize tv0 tv1 s)) + length tvs) \<le> psize * (length (sends s) + length (tv1 # tvs))"
    using turn(2) by (intro mult_le_mono2) simp
  then show ?case using Cons.IH [OF turn(1)] Cons.prems(2) by simp
qed simp

text \<open>
  C36. The rate of \<^verbatim>\<open>tcpcbr-rate\<close>, with every rounding of its doubles: whenever a packet is sent, those
  before it are within the rate, so the count is never more than one packet above it; and when a
  turn does not send, the count is above the rate, so the sender does not fall behind.
\<close>

theorem rate_kept:
  assumes "ieee_rnd rnd" and "0 \<le> MBps" and "psize * length tvs < 2 ^ 64"
  shows "rate_ok MBps psize tv0 (rate_run rnd MBps psize tv0 tvs rate_init) \<and>
    (\<forall>tv1 > tv0. rate_turn rnd MBps psize tv0 tv1 (rate_run rnd MBps psize tv0 tvs rate_init) = rate_run rnd MBps psize tv0 tvs rate_init \<longrightarrow>
      (1 - EPS) * of_nat (tv1 - tv0) * MBps < (1 + EPS)\<^sup>2 * of_nat (bytesent (rate_run rnd MBps psize tv0 tvs rate_init)))"
proof -
  have "rate_ok MBps psize tv0 rate_init" by (simp add: rate_ok_def rate_init_def)
  then have "rate_ok MBps psize tv0 (rate_run rnd MBps psize tv0 tvs rate_init)"
    using assms by (intro rate_run_ok) (simp_all add: rate_init_def)
  moreover have "(1 - EPS) * of_nat (tv1 - tv0) * MBps < (1 + EPS)\<^sup>2 * of_nat (bytesent s)"
    if "tv0 < tv1" and stay: "rate_turn rnd MBps psize tv0 tv1 s = s" for tv1 s
  proof -
    have "rate_over rnd MBps (bytesent s) (tv1 - tv0)"
    proof (rule ccontr)
      assume "\<not> rate_over rnd MBps (bytesent s) (tv1 - tv0)"
      then have "sends (rate_turn rnd MBps psize tv0 tv1 s) = sends s @ [tv1]" by (simp add: rate_turn_def)
      then show False using stay by simp
    qed
    from over_ahead [OF assms(1) this _ assms(2)] that(1) show ?thesis by simp
  qed
  ultimately show ?thesis by blast
qed

section \<open>The sender with a waiting time\<close>

text \<open>\<^verbatim>\<open>tcpcbr.c\<close>: the time of a packet, the waiting time of turn \<open>r\<close> after \<open>d\<close> microseconds, converted to
  an unsigned integer (\<open>None\<close>: the conversion of a value of \<open>-1\<close> or less is undefined, and so is
  that of the infinite or undefined value at the rate 0, where \<^verbatim>\<open>time\<close> is infinite), and what \<^verbatim>\<open>nanosleep\<close> then waits, which gets it as nanoseconds and refuses a second or more.\<close>

definition cbr_time :: "(rat \<Rightarrow> rat) \<Rightarrow> rat \<Rightarrow> rat" where
  "cbr_time rnd MBps = rnd (of_nat (0x100 - 8) / MBps)"

definition cbr_wait :: "(rat \<Rightarrow> rat) \<Rightarrow> rat \<Rightarrow> nat \<Rightarrow> nat \<Rightarrow> nat option" where
  "cbr_wait rnd MBps r d =
     (let w = rnd (rnd (rnd (of_nat r) * cbr_time rnd MBps) - rnd (of_nat d))
      in if MBps = 0 \<or> w \<le> - 1 \<or> 2 ^ 64 \<le> w then None else Some (nat \<lfloor>w\<rfloor>))"

definition cbr_sleep_ns :: "nat \<Rightarrow> nat" where
  "cbr_sleep_ns wait_time = (if wait_time < 10 ^ 9 then wait_time else 0)"

text \<open>The first turn is undefined as soon as the clock has moved on since the start.\<close>

lemma cbr_first_undefined:
  assumes "ieee_rnd rnd" and "0 < d"
  shows "cbr_wait rnd MBps 0 d = None"
proof -
  have exact: "\<bar>n\<bar> \<le> 2 ^ 53 \<Longrightarrow> rnd (of_int n) = of_int n" for n using assms(1) by (simp add: ieee_rnd_def)
  have mono: "x \<le> y \<Longrightarrow> rnd x \<le> rnd y" for x y using assms(1) by (simp add: ieee_rnd_def)
  have "rnd (of_int 1) \<le> rnd (of_nat d)" using assms(2) by (intro mono) (simp add: Suc_leI)
  then have "1 \<le> rnd (of_nat d)" using exact [of 1] by simp
  then have "rnd (- rnd (of_nat d)) \<le> rnd (of_int (- 1))" by (intro mono) simp
  then have "rnd (- rnd (of_nat d)) \<le> - 1" using exact [of "- 1"] by simp
  moreover have "rnd 0 = 0" using exact [of 0] by simp
  ultimately show ?thesis by (simp add: cbr_wait_def Let_def)
qed

section \<open>A short run\<close>

text \<open>Two packets of 100 bytes at one byte per microsecond: the second waits for its time.\<close>

lemma ieee_exact: "ieee_rnd (\<lambda>x. x)"
  by (simp add: ieee_rnd_def EPS_def)

lemma rate_kept_witness:
  "sends (rate_run (\<lambda>x. x) 1 100 0 [0, 50, 100, 120] rate_init) = [0, 100] \<and>
    rate_ok 1 100 0 (rate_run (\<lambda>x. x) 1 100 0 [0, 50, 100, 120] rate_init)"
proof -
  have "sends (rate_run (\<lambda>x. x) 1 100 0 [0, 50, 100, 120] rate_init) = [0, 100]"
    by (simp add: rate_turn_def rate_over_def rate_init_def)
  then show ?thesis using rate_kept [OF ieee_exact, of 1 100 "[0, 50, 100, 120]" 0] by simp
qed

lemma cbr_first_undefined_witness: "cbr_wait (\<lambda>x. x) 1 0 3 = None"
  by (rule cbr_first_undefined [OF ieee_exact]) simp

end
