(* ===== verification/CbrLoop.thy ===== *)
theory CbrLoop
  imports Pacing EventLoop
begin

text \<open>
  The loop of \<^verbatim>\<open>tcpcbr.c\<close> (lab 3) with its clock. Turn \<open>r\<close> should be at \<open>r\<close> times the time of a packet; when it
  is early by \<open>w\<close> microseconds, the loop sleeps \<open>w\<close> nanoseconds, a thousandth. Shown: the sender is
  never more than about a thousand packets ahead of its rate (\<open>cbr_bounded\<close>), for every rounding of its
  doubles; the short sleeps add up to what keeps the rate, once it is that far ahead.
\<close>

section \<open>The loop\<close>

text \<open>\<open>cturn\<close> is the loop's \<^verbatim>\<open>r\<close>, \<open>ctimes\<close> the microseconds since the start at every turn, and \<open>cnext\<close> the earliest time,
  in nanoseconds, at which the clock can be read again.\<close>

record Cbr =
  cturn :: nat
  csent :: nat  \<comment> \<open>\<^verbatim>\<open>bytesent\<close>, an \<^verbatim>\<open>unsigned long long\<close>\<close>
  ctimes :: "nat list"
  cnext :: nat

definition CBR_BUF :: nat where
  "CBR_BUF = 0x100 - 8 - 0x42"

definition CBR_HEADER :: nat where
  "CBR_HEADER = 0x42"

text \<open>A turn when the clock shows \<open>n\<close> nanoseconds, and showed \<open>n0\<close> at the start; \<^verbatim>\<open>gettimeofday\<close> gives
  microseconds.\<close>

definition cbr_turn :: "(rat \<Rightarrow> rat) \<Rightarrow> rat \<Rightarrow> nat \<Rightarrow> Cbr \<Rightarrow> nat \<Rightarrow> Cbr option" where
  "cbr_turn rnd MBps n0 s n =
     (let d = n div 1000 - n0 div 1000
      in case cbr_wait rnd MBps (cturn s) d of None \<Rightarrow> None
         | Some w \<Rightarrow> Some \<lparr>cturn = (cturn s + 1) mod 2 ^ 64, csent = (csent s + CBR_BUF + CBR_HEADER) mod 2 ^ 64,
             ctimes = ctimes s @ [d], cnext = n + cbr_sleep_ns w\<rparr>)"

definition cbr_init :: "nat \<Rightarrow> Cbr" where
  "cbr_init n0 = \<lparr>cturn = 0, csent = 0, ctimes = [], cnext = n0\<rparr>"

text \<open>The clock goes on while the loop sleeps, the computation of the waiting time is defined, and the
  program does not run for more than two centuries, or 2 to the 42 turns.\<close>

definition cbr_guard :: "(rat \<Rightarrow> rat) \<Rightarrow> rat \<Rightarrow> nat \<Rightarrow> Cbr \<Rightarrow> nat \<Rightarrow> bool" where
  "cbr_guard rnd MBps n0 s n \<longleftrightarrow> cnext s \<le> n \<and> n div 1000 < 2 ^ 52 \<and> cturn s < 2 ^ 42 \<and>
     cbr_wait rnd MBps (cturn s) (n div 1000 - n0 div 1000) \<noteq> None"

section \<open>The bound\<close>

text \<open>How early turn \<open>r\<close> is by the program's own arithmetic, in microseconds.\<close>

definition ahead :: "(rat \<Rightarrow> rat) \<Rightarrow> rat \<Rightarrow> nat \<Rightarrow> nat \<Rightarrow> rat" where
  "ahead rnd T r d = rnd (of_nat r * T) - of_nat d"

definition AHEAD :: "rat \<Rightarrow> rat" where
  "AHEAD T = 1002 * (T + 1)"

lemma rnd_int:
  assumes "ieee_rnd rnd" and "n \<le> 2 ^ 53"
  shows "rnd (of_nat n) = of_nat n"
proof -
  have "rnd (of_int (int n)) = of_int (int n)" using assms unfolding ieee_rnd_def by (metis abs_of_nat of_nat_le_iff of_nat_numeral of_nat_power)
  then show ?thesis by simp
qed

lemma cbr_wait_eq:
  assumes "ieee_rnd rnd" and "r \<le> 2 ^ 53" and "d \<le> 2 ^ 53"
  shows "cbr_wait rnd MBps r d = (let w = rnd (ahead rnd (cbr_time rnd MBps) r d)
    in if MBps = 0 \<or> w \<le> - 1 \<or> 2 ^ 64 \<le> w then None else Some (nat \<lfloor>w\<rfloor>))"
  using rnd_int [OF assms(1)] assms(2,3) by (simp add: cbr_wait_def ahead_def)

text \<open>The schedule advances by little more than the time of a packet.\<close>

lemma schedule_step:
  assumes "ieee_rnd rnd" and "0 \<le> T" and "r < 2 ^ 42"
  shows "rnd (of_nat (r + 1) * T) \<le> rnd (of_nat r * T) + 1001 / 1000 * T"
proof -
  have a: "rnd (of_nat (r + 1) * T) \<le> (1 + EPS) * (of_nat (r + 1) * T)"
    and b: "(1 - EPS) * (of_nat r * T) \<le> rnd (of_nat r * T)"
    using rnd_between [OF assms(1)] assms(2) by simp_all
  have "of_nat r < (2 ^ 42 :: rat)" using assms(3) by (metis of_nat_less_iff of_nat_numeral of_nat_power)
  then have "EPS * (2 * of_nat r + 1) \<le> 1 / 1000" by (simp add: EPS_def)
  then have "EPS * (2 * of_nat r + 1) * T \<le> 1 / 1000 * T" using assms(2) by (rule mult_right_mono)
  then show ?thesis using a b by (simp add: algebra_simps)
qed

text \<open>Reading the clock loses less than a microsecond.\<close>

lemma clock_step:
  assumes "n + s \<le> n'" and "n0 \<le> n"
  shows "of_nat (n div 1000 - n0 div 1000) + (of_nat s / 1000 - 1) \<le> (of_nat (n' div 1000 - n0 div 1000) :: rat)"
proof -
  have "n0 div 1000 \<le> n div 1000" using assms(2) by (rule div_le_mono)
  moreover have "s \<le> 1000 * (n' div 1000 - n div 1000) + 1000"
  proof -
    have "n + s < 1000 * (n' div 1000) + 1000" using assms(1) by linarith
    moreover have "1000 * (n div 1000) \<le> n" by simp
    moreover have "n div 1000 \<le> n' div 1000" using assms(1) by (intro div_le_mono) simp
    ultimately show ?thesis by linarith
  qed
  moreover have "n div 1000 \<le> n' div 1000" using assms(1) by (intro div_le_mono) simp
  ultimately have "1000 * (n div 1000 - n0 div 1000) + s \<le> 1000 * (n' div 1000 - n0 div 1000) + 1000" by linarith
  then have "of_nat (1000 * (n div 1000 - n0 div 1000) + s) \<le> (of_nat (1000 * (n' div 1000 - n0 div 1000) + 1000) :: rat)"
    by (simp only: of_nat_le_iff)
  then show ?thesis by (simp add: field_simps)
qed

text \<open>The sleep is at least a thousandth of what the turn is early, less a nanosecond.\<close>

lemma sleep_long:
  assumes rnd: "ieee_rnd rnd" and w: "cbr_wait rnd MBps r d = Some w" and small: "r \<le> 2 ^ 53" "d \<le> 2 ^ 53"
    and T: "T = cbr_time rnd MBps" "0 \<le> T" "T \<le> 900000" and y: "ahead rnd T r d \<le> AHEAD T"
  shows "(1 - EPS) * ahead rnd T r d - 1 \<le> of_nat (cbr_sleep_ns w)"
proof (cases "0 \<le> ahead rnd T r d")
  case True
  note e = rnd_between [OF rnd True]
  have w': "w = nat \<lfloor>rnd (ahead rnd T r d)\<rfloor>"
    using w by (simp add: cbr_wait_eq [OF rnd small] T(1) Let_def split: if_splits)
  have p: "0 \<le> rnd (ahead rnd T r d)"
  proof -
    have "0 \<le> (1 - EPS) * ahead rnd T r d" using True EPS_small by simp
    then show ?thesis using e(1) by linarith
  qed
  have "rnd (ahead rnd T r d) < 10 ^ 9"
  proof -
    have "(1 + EPS) * ahead rnd T r d \<le> (1 + EPS) * (1002 * 900001)"
      using y T(3) EPS_small by (intro mult_left_mono) (simp_all add: AHEAD_def)
    moreover have "(1 + EPS) * (1002 * 900001) < 10 ^ 9" by (simp add: EPS_def)
    ultimately show ?thesis using e(2) by linarith
  qed
  moreover define i where "i = \<lfloor>rnd (ahead rnd T r d)\<rfloor>"
  ultimately have "i < 1000000000" by (simp add: floor_less_iff)
  then have "w < 10 ^ 9" unfolding w' i_def [symmetric] by simp
  then have "cbr_sleep_ns w = w" by (simp add: cbr_sleep_ns_def)
  moreover have "rnd (ahead rnd T r d) - 1 \<le> of_int \<lfloor>rnd (ahead rnd T r d)\<rfloor>" by linarith
  moreover have "of_nat w = (of_int \<lfloor>rnd (ahead rnd T r d)\<rfloor> :: rat)" using p by (simp add: w')
  ultimately show ?thesis using e(1) by simp
next
  case False
  then have "(1 - EPS) * ahead rnd T r d \<le> 0" using EPS_small by (simp add: mult_le_0_iff)
  then show ?thesis by (simp add: add_increasing2)
qed

section \<open>The invariant\<close>

definition cbr_inv :: "(rat \<Rightarrow> rat) \<Rightarrow> rat \<Rightarrow> nat \<Rightarrow> Cbr \<Rightarrow> bool" where
  "cbr_inv rnd MBps n0 s \<longleftrightarrow> cturn s \<le> 2 ^ 42 \<and> length (ctimes s) = cturn s \<and> csent s = 248 * cturn s \<and> n0 \<le> cnext s \<and>
     (\<forall>r < cturn s. ahead rnd (cbr_time rnd MBps) r (ctimes s ! r) \<le> AHEAD (cbr_time rnd MBps)) \<and>
     (\<forall>n \<ge> cnext s. ahead rnd (cbr_time rnd MBps) (cturn s) (n div 1000 - n0 div 1000) \<le> AHEAD (cbr_time rnd MBps))"

lemma cbr_next_ahead:
  assumes rnd: "ieee_rnd rnd" and w: "cbr_wait rnd MBps r (n div 1000 - n0 div 1000) = Some w" and small: "r < 2 ^ 42" "n div 1000 < 2 ^ 52"
    and T: "T = cbr_time rnd MBps" "0 \<le> T" "T \<le> 900000" and y: "ahead rnd T r (n div 1000 - n0 div 1000) \<le> AHEAD T"
    and n: "n0 \<le> n" "n + cbr_sleep_ns w \<le> n'"
  shows "ahead rnd T (r + 1) (n' div 1000 - n0 div 1000) \<le> AHEAD T"
proof -
  let ?d = "n div 1000 - n0 div 1000" and ?d' = "n' div 1000 - n0 div 1000"
  have s: "(1 - EPS) * ahead rnd T r ?d - 1 \<le> of_nat (cbr_sleep_ns w)"
    by (rule sleep_long [OF rnd w _ _ T y]) (use small in simp_all)
  have "ahead rnd T (r + 1) ?d' \<le> rnd (of_nat r * T) + 1001 / 1000 * T - of_nat ?d'"
    using schedule_step [OF rnd T(2) small(1)] unfolding ahead_def by simp
  also have "\<dots> \<le> rnd (of_nat r * T) + 1001 / 1000 * T - (of_nat ?d + (of_nat (cbr_sleep_ns w) / 1000 - 1))"
    using clock_step [OF n(2,1)] by simp
  also have "\<dots> \<le> ahead rnd T r ?d + 1001 / 1000 * T + 1 - ((1 - EPS) * ahead rnd T r ?d - 1) / 1000"
    using s by (simp add: ahead_def)
  also have "\<dots> = (1 - (1 - EPS) / 1000) * ahead rnd T r ?d + 1001 / 1000 * (T + 1)"
    by (simp add: field_simps)
  also have "\<dots> \<le> (1 - (1 - EPS) / 1000) * AHEAD T + 1001 / 1000 * (T + 1)"
  proof -
    have "0 \<le> 1 - (1 - EPS) / 1000" by (simp add: EPS_def)
    then show ?thesis using mult_left_mono [OF y] by simp
  qed
  also have "\<dots> \<le> AHEAD T"
  proof -
    have "1001 / 1000 * (T + 1) \<le> (1 - EPS) / 1000 * 1002 * (T + 1)"
      by (rule mult_right_mono) (use T(2) in \<open>simp_all add: EPS_def\<close>)
    moreover have "(1 - (1 - EPS) / 1000) * AHEAD T = AHEAD T - (1 - EPS) / 1000 * 1002 * (T + 1)"
      unfolding AHEAD_def by (simp add: field_simps)
    ultimately show ?thesis by linarith
  qed
  finally show ?thesis .
qed

lemma cbr_turn_ok:
  assumes rnd: "ieee_rnd rnd" and T: "0 \<le> cbr_time rnd MBps" "cbr_time rnd MBps \<le> 900000"
    and inv: "cbr_inv rnd MBps n0 s" and guard: "cbr_guard rnd MBps n0 s n"
  shows "\<exists>s'. cbr_turn rnd MBps n0 s n = Some s' \<and> cbr_inv rnd MBps n0 s'"
proof -
  let ?d = "n div 1000 - n0 div 1000"
  have g: "cnext s \<le> n" "n div 1000 < 2 ^ 52" "cturn s < 2 ^ 42" using guard by (simp_all add: cbr_guard_def)
  obtain w where w: "cbr_wait rnd MBps (cturn s) ?d = Some w" using guard by (auto simp: cbr_guard_def)
  have now: "ahead rnd (cbr_time rnd MBps) (cturn s) ?d \<le> AHEAD (cbr_time rnd MBps)" using inv g(1) by (simp add: cbr_inv_def)
  have n0: "n0 \<le> n" using inv g(1) by (simp add: cbr_inv_def)
  define s' where "s' = \<lparr>cturn = cturn s + 1, csent = csent s + 248, ctimes = ctimes s @ [?d], cnext = n + cbr_sleep_ns w\<rparr>"
  have "csent s = 248 * cturn s" using inv by (simp add: cbr_inv_def)
  then have "cturn s + 1 < 2 ^ 64" "csent s + 248 < 2 ^ 64" using g(3) by simp_all
  then have turn: "cbr_turn rnd MBps n0 s n = Some s'"
    by (simp add: cbr_turn_def w s'_def CBR_BUF_def CBR_HEADER_def)
  have "ahead rnd (cbr_time rnd MBps) (cturn s + 1) (n' div 1000 - n0 div 1000) \<le> AHEAD (cbr_time rnd MBps)"
    if "n + cbr_sleep_ns w \<le> n'" for n'
    by (rule cbr_next_ahead [OF rnd w g(3,2) refl T now n0 that])
  then have "cbr_inv rnd MBps n0 s'"
    using inv now g(3) n0 by (auto simp: cbr_inv_def s'_def nth_append less_Suc_eq)
  then show ?thesis using turn by blast
qed

text \<open>The rates the loop can keep: a packet takes between nothing and nine tenths of a second.\<close>

definition cbr_rate :: "(rat \<Rightarrow> rat) \<Rightarrow> rat \<Rightarrow> bool" where
  "cbr_rate rnd MBps \<longleftrightarrow> ieee_rnd rnd \<and> 0 \<le> cbr_time rnd MBps \<and> cbr_time rnd MBps \<le> 900000"

interpretation cbr: event_loop "cbr_turn rnd MBps n0" "cbr_guard rnd MBps n0" "\<lambda>s. cbr_rate rnd MBps \<and> cbr_inv rnd MBps n0 s" for rnd MBps n0
  by unfold_locales (use cbr_turn_ok in \<open>auto simp: cbr_rate_def\<close>)

lemma cbr_init_ok:
  assumes "cbr_rate rnd MBps"
  shows "cbr_inv rnd MBps n0 (cbr_init n0)"
proof -
  have "rnd 0 = 0" using rnd_int [of rnd 0] assms by (simp add: cbr_rate_def)
  then have "ahead rnd (cbr_time rnd MBps) 0 d = - of_nat d" for d by (simp add: ahead_def)
  moreover have "0 \<le> AHEAD (cbr_time rnd MBps)" using assms by (simp add: AHEAD_def cbr_rate_def)
  ultimately have "ahead rnd (cbr_time rnd MBps) 0 d \<le> AHEAD (cbr_time rnd MBps)" for d
    using order_trans [of "- of_nat d" 0] by simp
  then show ?thesis by (simp add: cbr_inv_def cbr_init_def)
qed

text \<open>
  C37. The rate of \<^verbatim>\<open>tcpcbr\<close>: as long as the loop is defined, and whatever the sleeps take beyond what they
  were asked for, each turn counts one packet of 248 bytes, and no turn is earlier than its time by
  more than 1002 packet times and as many microseconds, although every sleep is a thousand times too
  short; with every rounding of the doubles.
\<close>

theorem cbr_bounded:
  assumes "ieee_rnd rnd" and "0 \<le> cbr_time rnd MBps" and "cbr_time rnd MBps \<le> 900000"
    and "admitted (cbr_turn rnd MBps n0) (cbr_guard rnd MBps n0) (cbr_init n0) ns"
  shows "\<exists>s. run_opt (cbr_turn rnd MBps n0) (cbr_init n0) ns = Some s \<and> csent s = 248 * length (ctimes s) \<and>
    (\<forall>r < length (ctimes s). (1 - EPS) * (of_nat r * cbr_time rnd MBps) \<le> of_nat (ctimes s ! r) + 1002 * (cbr_time rnd MBps + 1))"
proof -
  have rate: "cbr_rate rnd MBps" using assms(1-3) by (simp add: cbr_rate_def)
  obtain s where s: "run_opt (cbr_turn rnd MBps n0) (cbr_init n0) ns = Some s" "cbr_inv rnd MBps n0 s"
    using cbr.run_total [OF _ assms(4)] rate cbr_init_ok [OF rate] by blast
  have "(1 - EPS) * (of_nat r * cbr_time rnd MBps) \<le> of_nat (ctimes s ! r) + 1002 * (cbr_time rnd MBps + 1)" if "r < cturn s" for r
  proof -
    have "ahead rnd (cbr_time rnd MBps) r (ctimes s ! r) \<le> AHEAD (cbr_time rnd MBps)" using s(2) that by (simp add: cbr_inv_def)
    moreover have "(1 - EPS) * (of_nat r * cbr_time rnd MBps) \<le> rnd (of_nat r * cbr_time rnd MBps)"
      using rnd_between(1) [OF assms(1)] assms(2) by simp
    ultimately show ?thesis by (simp add: ahead_def AHEAD_def)
  qed
  then show ?thesis using s by (auto simp: cbr_inv_def)
qed

section \<open>A short run\<close>

text \<open>At one byte per microsecond: the second turn is 247 microseconds early and sleeps 247 nanoseconds, so that
  the third begins before the first packet's time is over.\<close>

lemma cbr_demo_time: "cbr_time (\<lambda>x. x) 1 = 248"
  by (simp add: cbr_time_def)

lemma cbr_demo: "admitted (cbr_turn (\<lambda>x. x) 1 0) (cbr_guard (\<lambda>x. x) 1 0) (cbr_init 0) [0, 1000, 2000]"
  by (simp add: cbr_init_def cbr_guard_def cbr_turn_def cbr_wait_def cbr_demo_time cbr_sleep_ns_def CBR_BUF_def CBR_HEADER_def Let_def)

theorem cbr_bounded_witness:
  "\<exists>s. run_opt (cbr_turn (\<lambda>x. x) 1 0) (cbr_init 0) [0, 1000, 2000] = Some s \<and> csent s = 248 * length (ctimes s)"
  using cbr_bounded [OF ieee_exact _ _ cbr_demo] by (auto simp: cbr_demo_time)

end
