(* ===== verification/Spec2Isabelle.thy ===== *)
theory Spec2Isabelle
  imports IrcRuns DnsReader Sudoku XferNetwork UdpRuns Pako Oracle Crawler ProofOfWork ChatRuns ForkClient Nkat UdpPing CbrLoop
begin

text \<open>
  A verification of the programs of the course \<^emph>\<open>Introduction to Network Programming\<close>: the two
  homework servers and the programs of the labs. They are separate programs, so the development is a
  group of theories for each, over a common library.

  \<^bold>\<open>Library.\<close> \<open>Prelude\<close> has the association lists that model \<^verbatim>\<open>std::unordered_map\<close> (interface
  \<open>keyed_store\<close>), encoders and decoders (\<open>codec\<close>), guarded machines (\<open>safe_machine\<close>), C strings and
  decimal output. \<open>ByteData\<close> has little-endian numbers, bit sets, memory that is undefined until
  written, and the packing of files. \<open>Chunks\<close> has what the two file transfers share (interface
  \<open>chunked\<close>, interpreted once for each), \<open>Rounds\<close> why their senders stop: something that is still missing gets
  less in every round (interface \<open>progress\<close>, interpreted in \<open>UdpNetwork\<close> and \<open>XferNetwork\<close>). \<open>EventLoop\<close> has event loops with undefined steps (interfaces
  \<open>event_loop\<close> and, extending it, \<open>simulating_loop\<close> and \<open>refining_loop\<close>) and the first token of \<^verbatim>\<open>strtok\<close> in a buffer.

  \<^bold>\<open>IRC server\<close> (\<^verbatim>\<open>Homework/1/mircd\<close>). \<open>IrcMsg\<close>: numeric replies, message formatting and the command
  parser (\<^verbatim>\<open>utils.cpp\<close>). \<open>IrcState\<close>: \<^verbatim>\<open>Client\<close>, \<^verbatim>\<open>Channel\<close> and \<^verbatim>\<open>Database\<close>, with an identity for every
  node that a C++ reference may name. \<open>IrcController\<close>: the handlers and the dispatcher \<^verbatim>\<open>call\<close>.
  \<open>IrcServer\<close>: the handlers of the event loop and the reachable states. \<open>IrcInvariant\<close> and \<open>IrcSafety\<close>
  show the invariant \<open>server_wf\<close> in every reachable state; \<open>IrcCalls\<close> what a command may change: an
  error nothing, an unregistered client nothing of the others; \<open>IrcService\<close> what JOIN, PART, PRIVMSG, TOPIC and
  the registration do, and where the code goes wrong (dangling references after a disconnect, the
  table of USERS, a refused NICK). \<open>IrcSpec\<close> is an abstract server (people, topics, who is inside, what
  was sent to whom) without node identities, tables and status bits, \<open>IrcRefine\<close> shows that the
  dispatcher implements it for every command but USERS, as long as the table of nicknames is exact and
  no reference dangles, and \<open>IrcSession\<close> that parser, dispatcher and
  event loop together do, for every sequence of events in which no member of a channel leaves, nobody
  asks for USERS and no nickname starts with anything but a letter (the faults above). \<open>IrcRuns\<close> evaluates runs from the start.

  \<^bold>\<open>DNS server\<close> (\<^verbatim>\<open>Homework/2/dnsd\<close>). \<open>DnsName\<close>, \<open>DnsRecord\<close>, \<open>DnsMessage\<close>: names, records and
  messages with their wire formats and round trips. \<open>DnsZone\<close>: zone files and the configuration; a
  loaded zone is the view of its file by key. \<open>DnsServer\<close>: the closest zone (interface \<open>closest\<close>) and the
  sections of an answer. \<open>DnsService\<close>: from datagram to reply. \<open>DnsSpec\<close> is an abstract server: a name space
  read from the text of the files, without tables; the records of a reply selected from the lines of a file;
  its bytes as the numbers of the protocol; and the theorem that the program is that server. \<open>DnsReader\<close> reads
  replies, records included, and finds in them what the specification selected.

  \<^bold>\<open>Lab 2\<close>, \<open>Pako\<close>: the two unpackers, shown to agree on well-formed archives. \<^bold>\<open>Lab 3\<close>, \<open>Pacing\<close>: the senders
  of a constant bit rate, over any rounding of their floating-point numbers; \<open>CbrLoop\<close>: the loop of the
  second with its clock and its sleeps. \<^bold>\<open>Lab 4\<close>, \<open>Nkat\<close>:
  the descriptors of \<^verbatim>\<open>nkat\<close> and of the programs it starts. \<^bold>\<open>Lab 5\<close>, \<open>Chat\<close>, \<open>ChatCorrect\<close>, \<open>ChatRuns\<close>: the
  chat server, whose messages are sent by forked children: each holds what it has still to send, and
  runs at any time. Shown: within bounds on the input no buffer is left, exactly which short input is
  undefined, that a line reaches every other client once (when no \<^verbatim>\<open>fork\<close> and no \<^verbatim>\<open>send\<close> fails, which is
  an event of the model), that lines may overtake each other, and
  that the table of \<^verbatim>\<open>/who\<close> fits its memory. \<^bold>\<open>Lab 6\<close>, \<open>Throughput\<close>, \<open>ThroughputCorrect\<close>: the throughput
  server refines a machine that keeps two lists of connections and a counter, up to a first read of
  commands that fills its buffer, and a count of \<open>2 ^ 60\<close> bytes; \<open>Delivery\<close>: client and
  server together, with what is under way between them, and what the final report counts; \<open>ForkClient\<close>: the
  same for the first client, whose processes send memory they never wrote to the wrong port. \<^bold>\<open>Lab 7\<close>:
  \<open>Base64\<close> (round trip, decoding in place), \<open>Oracle\<close> (both versions; why the secrets are not secret),
  \<open>Crawler\<close> (two workers over shared memory: the test of the address holds with one worker and fails
  with two; jobs end and keep their order), \<open>ProofOfWork\<close> (the solver of \<^verbatim>\<open>Lab/PoW\<close> and the check of the
  web checker: what the one prints the other accepts). \<^bold>\<open>Lab 8\<close>, \<open>UdpTransfer\<close>, \<open>UdpCorrect\<close>, \<open>UdpNetwork\<close>,
  \<open>UdpRuns\<close>: the UDP transfer, with the timer by which the server acknowledges; the client stops only
  when the server has everything, and does stop after as many rounds as there are packets in which a
  missing packet arrives in time for an acknowledgement and the answer gets through, for compressed
  data that fits the bit set (10,912,624 bytes; beyond it \<open>udp_oversize\<close>); \<open>UdpPing\<close>: a session of the ping example.
  \<^bold>\<open>Lab 9\<close>, \<open>Sudoku\<close>: the solver finds a solution exactly when there is one. \<^bold>\<open>Lab 10\<close>, \<open>Xfer\<close>, \<open>XferCorrect\<close>,
  \<open>XferReceive\<close>, \<open>XferNetwork\<close>: the broadcast transfer with its checksums, under loss, repetition,
  reordering and detected damage in both directions, and with both programs hearing what they
  broadcast themselves: up to a first round in which one is misled by a packet of its own (\<open>misled\<close>;
  \<open>xfer_echo_unsafe\<close> shows the harm) the client stops only when the receiver has everything, and it
  does stop after as many rounds as there are packets in which something new is acknowledged.

  \<^bold>\<open>Conventions.\<close> A record of the model is a class or the static variables of a program; an operation
  takes the state and returns the new one. \<open>None\<close> (\<open>Undefined\<close> for the IRC server) is undefined
  behaviour: an access outside an array, a dangling reference, a null pointer, memory that was never
  written. Exceptions are values of a sum or an outcome type. Loops are total functions by a measure
  on what is left of the input or the counter, so no fuel is used anywhere; the searches
  (\<open>dfs\<close>, \<open>pow_search\<close>) end by their own bounds, and that the transfers end is a theorem. Words are
  used where bits matter, integers modulo \<open>2 ^ 32\<close> where the code relies on the wrap-around of sizes.

  \<^bold>\<open>Parameters.\<close> The traversal order of hash tables (\<open>hash_order\<close>, \<open>fair\<close>), the C library's \<^verbatim>\<open>inet_pton\<close>
  and the two behaviours of \<^verbatim>\<open>views::split\<close> (\<open>platform\<close>), the upstream DNS server, the compression library,
  the resolver, the generator of random numbers, the hash function, the printing of a quotient of
  floating-point numbers, and the rounding of a floating-point operation (\<open>ieee_rnd\<close>, of which only
  monotonicity, the bound of the relative error and exactness on integers of 53 bits are used). What the
  kernel delivers (connections, bytes read, datagrams, the time) is given by events, with guards for
  what it guarantees. One choice is made there: the control lines that the client of lab 6 and the
  server send each other arrive whole. The name that the chat server makes up goes on with whatever
  follows it in memory (\<open>randstr\<close>), which is a parameter and not \<open>None\<close>, since every connection does it. \<open>DnsReader\<close> uses of \<^verbatim>\<open>inet_pton\<close> only that an IPv4
  address has four bytes (\<open>pton_ok\<close>).

  \<^bold>\<open>Not modelled.\<close> Socket set-up, signals, arguments of \<^verbatim>\<open>main\<close> and console output everywhere; the helpers of
  lab 8 that call the compression library, set socket options or sleep, and its generated dictionary;
  \<^verbatim>\<open>template.c\<close> of lab 3, which was handed out; and the scripts. The optional checksum of lab 8 (\<^verbatim>\<open>USE_CHECKSUM\<close>) is not compiled in.

  What is left of the modelled programs is set-up and printing: the bodies of \<^verbatim>\<open>main\<close> up to their loops, the
  signal handlers that print a summary, and \<^verbatim>\<open>operator<<\<close>.
\<close>

end
